(* ===== verification/Prelude.thy ===== *)
theory Prelude
  imports Main "HOL-Library.Code_Target_Numeral"
begin

text \<open>
  Shared vocabulary of the development: results of operations that may end the process,
  the operations of \<^verbatim>\<open>std::string\<close> that the sources use (find, rfind, substr, compare,
  decimal printing), ASCII case folding, and the generic lemmas about them.
  A position returned by \<^verbatim>\<open>find\<close> is a \<open>nat option\<close>, with \<open>None\<close> for \<^verbatim>\<open>npos\<close>.
\<close>

named_theorems result_simps \<open>rules that push a case split through the result combinators\<close>
named_theorems str_simps \<open>rewrite rules on string searching and slicing\<close>

section \<open>Results\<close>

text \<open>
  Where the program stops (a failed \<^verbatim>\<open>assert\<close>, \<^verbatim>\<open>exit\<close>, \<^verbatim>\<open>abort\<close>, an access
  that is undefined behaviour), the model returns \<open>Inl\<close> of the reason.
\<close>

datatype failure =
    Exit_Failure       \<comment> \<open>\<^verbatim>\<open>exit(1)\<close>, \<^verbatim>\<open>exit(EXIT_FAILURE)\<close>\<close>
  | Abort              \<comment> \<open>\<^verbatim>\<open>abort()\<close>\<close>
  | Assertion          \<comment> \<open>a failed \<^verbatim>\<open>assert\<close>\<close>
  | Null_Dereference   \<comment> \<open>use of an empty smart pointer or of \<^verbatim>\<open>end()\<close>\<close>
  | Out_Of_Range       \<comment> \<open>\<^verbatim>\<open>operator[]\<close> or \<^verbatim>\<open>substr\<close> past the end\<close>
  | Division_By_Zero

type_synonym 'a result = "failure + 'a"

definition andthen :: "'a result \<Rightarrow> ('a \<Rightarrow> 'b result) \<Rightarrow> 'b result" where
  "andthen r f = (case r of Inl e \<Rightarrow> Inl e | Inr x \<Rightarrow> f x)"

definition ok :: "'a result \<Rightarrow> bool" where
  "ok r \<longleftrightarrow> (case r of Inl _ \<Rightarrow> False | Inr _ \<Rightarrow> True)"

lemma andthen_simps [simp, result_simps]:
  "andthen (Inl e) f = Inl e"
  "andthen (Inr x) f = f x"
  by (simp_all add: andthen_def)

lemma ok_simps [simp, result_simps]: "ok (Inr x)" "\<not> ok (Inl e)"
  by (simp_all add: ok_def)

lemma andthen_eq_Inr [result_simps]:
  "andthen r f = Inr y \<longleftrightarrow> (\<exists>x. r = Inr x \<and> f x = Inr y)"
  by (cases r) auto

lemma andthen_InrE [elim!]:
  assumes "andthen r f = Inr y"
  obtains x where "r = Inr x" "f x = Inr y"
  using assms by (auto simp: andthen_eq_Inr)

lemma andthen_assoc: "andthen (andthen r f) g = andthen r (\<lambda>x. andthen (f x) g)"
  by (cases r) auto

lemma ok_andthen: "ok (andthen r f) \<longleftrightarrow> (\<exists>x. r = Inr x \<and> ok (f x))"
  by (cases r) auto

lemma ok_iff: "ok r \<longleftrightarrow> (\<exists>x. r = Inr x)"
  by (cases r) auto

lemma case_result_iff:
  "(case r of Inl _ \<Rightarrow> False | Inr x \<Rightarrow> P x) \<longleftrightarrow> (\<exists>x. r = Inr x \<and> P x)"
  by (cases r) auto

text \<open>\<^verbatim>\<open>v[i]\<close> on a \<^verbatim>\<open>std::vector\<close>: undefined behaviour out of range.\<close>

definition vec_at :: "'a list \<Rightarrow> nat \<Rightarrow> 'a result" where
  "vec_at xs i = (if i < length xs then Inr (xs ! i) else Inl Out_Of_Range)"

lemma vec_at_Inr [simp]: "vec_at xs i = Inr x \<longleftrightarrow> i < length xs \<and> x = xs ! i"
  by (auto simp: vec_at_def)

lemma vec_at_lt: "i < length xs \<Longrightarrow> vec_at xs i = Inr (xs ! i)"
  by (simp add: vec_at_def)

lemma foldl_invariant:
  assumes "P a" and "\<And>a x. x \<in> set xs \<Longrightarrow> P a \<Longrightarrow> P (f a x)"
  shows "P (foldl f a xs)"
  using assms by (induction xs arbitrary: a) auto

section \<open>Searching and slicing strings\<close>

text \<open>The least position at which \<open>pat\<close> occurs in a list.\<close>

fun find_list :: "'a list \<Rightarrow> 'a list \<Rightarrow> nat option" where
  "find_list pat [] = (if pat = [] then Some 0 else None)"
| "find_list pat (x # xs) =
     (if take (length pat) (x # xs) = pat then Some 0
      else map_option Suc (find_list pat xs))"

definition occurs_at :: "'a list \<Rightarrow> 'a list \<Rightarrow> nat \<Rightarrow> bool" where
  "occurs_at pat xs i \<longleftrightarrow> i \<le> length xs \<and> take (length pat) (drop i xs) = pat"

lemma occurs_at_0_Cons: "occurs_at pat (x # xs) 0 \<longleftrightarrow> take (length pat) (x # xs) = pat"
  by (simp add: occurs_at_def)

lemma occurs_at_Suc [simp]: "occurs_at pat (x # xs) (Suc i) \<longleftrightarrow> occurs_at pat xs i"
  by (simp add: occurs_at_def)

lemma occurs_at_bound: "occurs_at pat xs i \<Longrightarrow> i + length pat \<le> length xs"
proof -
  assume a: "occurs_at pat xs i"
  then have "length (take (length pat) (drop i xs)) = length pat"
    by (simp only: occurs_at_def)
  then have "min (length pat) (length xs - i) = length pat" by simp
  with a show ?thesis by (auto simp: occurs_at_def min_def split: if_splits)
qed

lemma occurs_at_split:
  "occurs_at pat xs i \<longleftrightarrow> (\<exists>ys zs. xs = ys @ pat @ zs \<and> length ys = i)"
proof
  assume a: "occurs_at pat xs i"
  have "xs = take i xs @ take (length pat) (drop i xs) @ drop (length pat) (drop i xs)"
    by (metis append_take_drop_id)
  with a have "xs = take i xs @ pat @ drop (length pat) (drop i xs)"
    by (simp add: occurs_at_def)
  moreover from a have "length (take i xs) = i" by (simp add: occurs_at_def)
  ultimately show "\<exists>ys zs. xs = ys @ pat @ zs \<and> length ys = i" by blast
qed (auto simp: occurs_at_def)

lemma find_list_Some:
  "find_list pat xs = Some i \<longleftrightarrow> occurs_at pat xs i \<and> (\<forall>j < i. \<not> occurs_at pat xs j)"
proof (induction xs arbitrary: i)
  case Nil
  show ?case by (auto simp: occurs_at_def)
next
  case (Cons x xs)
  show ?case
  proof (cases "take (length pat) (x # xs) = pat")
    case True
    then have "occurs_at pat (x # xs) 0" by (simp only: occurs_at_0_Cons)
    with True show ?thesis by (cases i) auto
  next
    case False
    then have no0: "\<not> occurs_at pat (x # xs) 0" by (metis occurs_at_0_Cons)
    have eq: "find_list pat (x # xs) = map_option Suc (find_list pat xs)"
      using False by (simp only: find_list.simps if_False)
    show ?thesis
    proof (cases i)
      case 0
      with no0 eq show ?thesis by auto
    next
      case (Suc k)
      have "(\<forall>j < Suc k. \<not> occurs_at pat (x # xs) j) \<longleftrightarrow> (\<forall>j < k. \<not> occurs_at pat xs j)"
        using no0 by (auto simp: less_Suc_eq_0_disj)
      with Suc eq Cons.IH [of k] show ?thesis by simp
    qed
  qed
qed

lemma find_list_None: "find_list pat xs = None \<longleftrightarrow> (\<forall>i. \<not> occurs_at pat xs i)"
proof (induction xs)
  case Nil
  show ?case by (auto simp: occurs_at_def)
next
  case (Cons x xs)
  have "(\<forall>i. \<not> occurs_at pat (x # xs) i) \<longleftrightarrow>
      \<not> occurs_at pat (x # xs) 0 \<and> (\<forall>i. \<not> occurs_at pat xs i)"
  proof -
    have "(\<forall>i. \<not> occurs_at pat (x # xs) i) \<longleftrightarrow>
        \<not> occurs_at pat (x # xs) 0 \<and> (\<forall>i. \<not> occurs_at pat (x # xs) (Suc i))"
      by (metis not0_implies_Suc)
    then show ?thesis by simp
  qed
  with Cons show ?case by (simp add: occurs_at_0_Cons del: take_Cons')
qed

lemma find_list_self: "find_list pat (pat @ xs) = Some 0"
  by (auto simp: find_list_Some occurs_at_def)

text \<open>\<^verbatim>\<open>s.find(pat, pos)\<close>\<close>

definition str_find :: "string \<Rightarrow> string \<Rightarrow> nat \<Rightarrow> nat option" where
  "str_find s pat pos =
     (if length s < pos then None else map_option ((+) pos) (find_list pat (drop pos s)))"

lemma str_find_0 [simp]: "str_find s pat 0 = find_list pat s"
  by (simp add: str_find_def option.map_ident_strong)

lemma occurs_at_drop: "pos \<le> length s \<Longrightarrow> occurs_at pat (drop pos s) i \<longleftrightarrow> occurs_at pat s (pos + i)"
  by (auto simp: occurs_at_def add.commute)

lemma str_find_SomeD:
  assumes "str_find s pat pos = Some i"
  shows "pos \<le> i" "occurs_at pat s i" "i + length pat \<le> length s"
    "\<And>j. pos \<le> j \<Longrightarrow> j < i \<Longrightarrow> \<not> occurs_at pat s j"
proof -
  from assms obtain k where le: "pos \<le> length s" and k: "find_list pat (drop pos s) = Some k"
    and i: "i = pos + k"
    by (auto simp: str_find_def split: if_splits)
  from k have occ: "occurs_at pat (drop pos s) k"
    and least: "\<And>j. j < k \<Longrightarrow> \<not> occurs_at pat (drop pos s) j"
    by (auto simp: find_list_Some)
  from i show "pos \<le> i" by simp
  from occ le i show occ_i: "occurs_at pat s i" by (simp add: occurs_at_drop)
  then show "i + length pat \<le> length s" by (rule occurs_at_bound)
  fix j assume "pos \<le> j" "j < i"
  with least [of "j - pos"] i le show "\<not> occurs_at pat s j"
    by (simp add: occurs_at_drop)
qed

lemma str_find_NoneD:
  assumes "str_find s pat pos = None" "pos \<le> i"
  shows "\<not> occurs_at pat s i"
proof (cases "length s < pos")
  case True
  with assms(2) show ?thesis by (auto simp: occurs_at_def)
next
  case False
  with assms(1) have "find_list pat (drop pos s) = None" by (simp add: str_find_def)
  then have "\<not> occurs_at pat (drop pos s) (i - pos)" by (simp add: find_list_None)
  with False assms(2) show ?thesis by (simp add: occurs_at_drop)
qed

text \<open>\<^verbatim>\<open>s.rfind(pat)\<close>: the greatest position at which \<open>pat\<close> occurs.\<close>

fun rfind_from :: "nat \<Rightarrow> 'a list \<Rightarrow> 'a list \<Rightarrow> nat option" where
  "rfind_from 0 s pat = (if take (length pat) s = pat then Some 0 else None)"
| "rfind_from (Suc n) s pat =
     (if take (length pat) (drop (Suc n) s) = pat then Some (Suc n) else rfind_from n s pat)"

definition str_rfind :: "string \<Rightarrow> string \<Rightarrow> nat option" where
  "str_rfind s pat = rfind_from (length s) s pat"

lemma rfind_from_Some:
  "n \<le> length s \<Longrightarrow> rfind_from n s pat = Some i \<longleftrightarrow>
     i \<le> n \<and> occurs_at pat s i \<and> (\<forall>j. i < j \<and> j \<le> n \<longrightarrow> \<not> occurs_at pat s j)"
proof (induction n)
  case 0
  show ?case by (auto simp: occurs_at_def)
next
  case (Suc n)
  show ?case
  proof (cases "take (length pat) (drop (Suc n) s) = pat")
    case True
    then have here: "occurs_at pat s (Suc n)" using Suc.prems by (simp add: occurs_at_def)
    show ?thesis
    proof
      assume "rfind_from (Suc n) s pat = Some i"
      with True have "i = Suc n" by simp
      with here show "i \<le> Suc n \<and> occurs_at pat s i \<and>
          (\<forall>j. i < j \<and> j \<le> Suc n \<longrightarrow> \<not> occurs_at pat s j)" by auto
    next
      assume r: "i \<le> Suc n \<and> occurs_at pat s i \<and>
          (\<forall>j. i < j \<and> j \<le> Suc n \<longrightarrow> \<not> occurs_at pat s j)"
      with here have "i = Suc n" by (metis le_neq_implies_less order_refl)
      with True show "rfind_from (Suc n) s pat = Some i" by simp
    qed
  next
    case False
    then have no: "\<not> occurs_at pat s (Suc n)" by (simp add: occurs_at_def)
    then have "(i \<le> Suc n \<and> occurs_at pat s i \<and>
          (\<forall>j. i < j \<and> j \<le> Suc n \<longrightarrow> \<not> occurs_at pat s j)) \<longleftrightarrow>
        (i \<le> n \<and> occurs_at pat s i \<and> (\<forall>j. i < j \<and> j \<le> n \<longrightarrow> \<not> occurs_at pat s j))"
      by (metis le_Suc_eq)
    with False Suc show ?thesis by simp
  qed
qed

lemma rfind_from_None:
  "n \<le> length s \<Longrightarrow> rfind_from n s pat = None \<longleftrightarrow> (\<forall>j \<le> n. \<not> occurs_at pat s j)"
proof (induction n)
  case 0
  show ?case by (auto simp: occurs_at_def)
next
  case (Suc n)
  then show ?case
    by (auto simp: occurs_at_def le_Suc_eq)
qed

text \<open>\<^verbatim>\<open>s.substr(pos, n)\<close> and \<^verbatim>\<open>s.substr(pos)\<close> for a position within the string.\<close>

definition substr :: "string \<Rightarrow> nat \<Rightarrow> nat \<Rightarrow> string" where
  "substr s pos n = take n (drop pos s)"

definition substr_from :: "string \<Rightarrow> nat \<Rightarrow> string" where
  "substr_from s pos = drop pos s"

lemma length_substr [simp]: "length (substr s pos n) = min n (length s - pos)"
  by (simp add: substr_def)

definition ends_with :: "'a list \<Rightarrow> 'a list \<Rightarrow> bool" where
  "ends_with s t \<longleftrightarrow> length t \<le> length s \<and> drop (length s - length t) s = t"

lemma ends_with_iff: "ends_with s t \<longleftrightarrow> (\<exists>u. s = u @ t)"
proof
  assume "ends_with s t"
  then have "s = take (length s - length t) s @ t"
    by (metis append_take_drop_id ends_with_def)
  then show "\<exists>u. s = u @ t" by blast
qed (auto simp: ends_with_def)

section \<open>Characters\<close>

definition char_code :: "char \<Rightarrow> nat" where
  "char_code c = of_char c"

lemma char_code_lt [simp]: "char_code c < 256"
  by (simp add: char_code_def)

lemma char_code_inject [simp]: "char_code a = char_code b \<longleftrightarrow> a = b"
  by (simp add: char_code_def)

definition char_lower :: "char \<Rightarrow> char" where
  "char_lower c = (if 65 \<le> char_code c \<and> char_code c \<le> 90 then char_of (char_code c + 32) else c)"

lemma char_code_char_of: "n < 256 \<Longrightarrow> char_code (char_of n) = n"
  by (simp add: char_code_def)

lemma char_code_lower:
  "char_code (char_lower c) =
     (if 65 \<le> char_code c \<and> char_code c \<le> 90 then char_code c + 32 else char_code c)"
  by (simp add: char_lower_def char_code_char_of)

lemma char_lower_idem [simp]: "char_lower (char_lower c) = char_lower c"
  by (simp add: char_code_inject [symmetric] char_code_lower del: char_code_inject)

text \<open>\<^verbatim>\<open>util::inp_strlower\<close>\<close>

definition str_lower :: "string \<Rightarrow> string" where
  "str_lower s = map char_lower s"

lemma str_lower_idem [simp]: "str_lower (str_lower s) = str_lower s"
  by (simp add: str_lower_def)

lemma length_str_lower [simp]: "length (str_lower s) = length s"
  by (simp add: str_lower_def)

section \<open>Decimal numbers\<close>

definition digit_char :: "nat \<Rightarrow> char" where
  "digit_char d = char_of (d mod 10 + 48)"

text \<open>\<^verbatim>\<open>std::to_string\<close> and \<^verbatim>\<open>util::utos\<close> on an unsigned number.\<close>

fun utos :: "nat \<Rightarrow> string" where
  "utos n = (if n < 10 then [digit_char n] else utos (n div 10) @ [digit_char (n mod 10)])"

declare utos.simps [simp del]

lemma utos_small: "n < 10 \<Longrightarrow> utos n = [digit_char n]"
  by (simp add: utos.simps)

lemma utos_nonempty [simp]: "utos n \<noteq> []"
  by (subst utos.simps) simp

definition is_digit :: "char \<Rightarrow> bool" where
  "is_digit c \<longleftrightarrow> 48 \<le> char_code c \<and> char_code c \<le> 57"

definition digit_val :: "char \<Rightarrow> nat" where
  "digit_val c = char_code c - 48"

lemma char_code_digit_char [simp]: "char_code (digit_char d) = d mod 10 + 48"
proof -
  have "d mod 10 < 10" by simp
  then show ?thesis unfolding digit_char_def by (intro char_code_char_of) linarith
qed

lemma digit_val_digit_char [simp]: "digit_val (digit_char d) = d mod 10"
  by (simp add: digit_val_def)

lemma is_digit_digit_char [simp]: "is_digit (digit_char d)"
proof -
  have "d mod 10 < 10" by simp
  then show ?thesis unfolding is_digit_def char_code_digit_char by linarith
qed

definition digits_val :: "string \<Rightarrow> nat" where
  "digits_val s = foldl (\<lambda>n c. 10 * n + digit_val c) 0 s"

lemma digits_val_snoc [simp]: "digits_val (s @ [c]) = 10 * digits_val s + digit_val c"
  by (simp add: digits_val_def)

lemma digits_val_utos [simp]: "digits_val (utos n) = n"
proof (induction n rule: utos.induct)
  case (1 n)
  show ?case
  proof (cases "n < 10")
    case True
    then show ?thesis by (simp add: utos_small digits_val_def)
  next
    case False
    with 1 show ?thesis by (subst utos.simps) simp
  qed
qed

lemma utos_digits: "list_all is_digit (utos n)"
proof (induction n rule: utos.induct)
  case (1 n)
  then show ?case by (subst utos.simps) simp
qed

lemma utos_inject [simp]: "utos m = utos n \<longleftrightarrow> m = n"
  by (metis digits_val_utos)

lemma length_utos_mono: "m \<le> n \<Longrightarrow> length (utos m) \<le> length (utos n)"
proof (induction n arbitrary: m rule: utos.induct)
  case (1 n)
  show ?case
  proof (cases "m < 10")
    case True
    then show ?thesis by (simp add: utos_small Suc_le_eq)
  next
    case False
    then have n: "\<not> n < 10" and "m div 10 \<le> n div 10" using 1 by (auto simp: div_le_mono)
    with 1 have "length (utos (m div 10)) \<le> length (utos (n div 10))" by simp
    with False n show ?thesis by (simp add: utos.simps [of m] utos.simps [of n])
  qed
qed

section \<open>Machine integers\<close>

text \<open>
  \<^verbatim>\<open>uint64_t\<close> and \<^verbatim>\<open>size_t\<close> values are natural numbers below \<open>2 ^ 64\<close>; where an operation
  of the code can wrap around, it is written with the operations below.
\<close>

definition u64 :: "nat \<Rightarrow> nat" where
  "u64 n = n mod 2 ^ 64"

definition add64 :: "nat \<Rightarrow> nat \<Rightarrow> nat" where
  "add64 a b = u64 (a + b)"

definition sub64 :: "nat \<Rightarrow> nat \<Rightarrow> nat" where
  "sub64 a b = u64 (a + (2 ^ 64 - u64 b))"

definition mul64 :: "nat \<Rightarrow> nat \<Rightarrow> nat" where
  "mul64 a b = u64 (a * b)"

lemma u64_lt [simp]: "u64 n < 2 ^ 64"
  by (simp add: u64_def)

lemma u64_id: "n < 2 ^ 64 \<Longrightarrow> u64 n = n"
  by (simp add: u64_def)

lemma add64_id: "a + b < 2 ^ 64 \<Longrightarrow> add64 a b = a + b"
  by (simp add: add64_def u64_id)

lemma mul64_id: "a * b < 2 ^ 64 \<Longrightarrow> mul64 a b = a * b"
  by (simp add: mul64_def u64_id)

lemma sub64_id: "b \<le> a \<Longrightarrow> a < 2 ^ 64 \<Longrightarrow> sub64 a b = a - b"
proof -
  assume ba: "b \<le> a" and a: "a < 2 ^ 64"
  then have "u64 b = b" by (simp add: u64_id)
  with ba have "a + (2 ^ 64 - u64 b) = (a - b) + 2 ^ 64"
    using a by simp
  then have "sub64 a b = (a - b) mod 2 ^ 64" by (simp add: sub64_def u64_def)
  with a show ?thesis by simp
qed

lemma sub64_1: "0 < n \<Longrightarrow> n < 2 ^ 64 \<Longrightarrow> sub64 n 1 = n - 1"
  by (rule sub64_id) simp_all

end
