(* ===== verification/Tokens.thy ===== *)
theory Tokens
  imports Prelude
begin

text \<open>
  \<^verbatim>\<open>tokenize_string\<close> of \<^verbatim>\<open>H2Server_Response.h\<close>, the splitter that cookies, authorities,
  variable templates, JSON pointers and CSV lines all go through: its token list joined
  with the delimiter is the input again, no token contains the delimiter, and for a
  delimiter that does not overlap itself the splitter inverts the join.
\<close>

section \<open>The splitter\<close>

text \<open>
  The while loop from position \<open>start\<close>. An empty delimiter, for which the loop would not
  advance, never reaches it: \<open>tokenize_string\<close> tests for it first.
\<close>

function tokenize_from :: "string \<Rightarrow> string \<Rightarrow> nat \<Rightarrow> string list" where
  "tokenize_from source delimeter start =
     (if delimeter = [] then [source]
      else case str_find source delimeter start of
        None \<Rightarrow> [substr_from source start]
      | Some pos \<Rightarrow>
          substr source start (pos - start) #
          tokenize_from source delimeter (pos + length delimeter))"
  by pat_completeness auto
termination
proof (relation "measure (\<lambda>(source, delimeter, start). Suc (length source) - start)")
  fix source delimeter :: string and start pos :: nat
  assume "delimeter \<noteq> []" and "str_find source delimeter start = Some pos"
  with str_find_SomeD(1,3) [of source delimeter start pos]
  show "((source, delimeter, pos + length delimeter), source, delimeter, start)
      \<in> measure (\<lambda>(source, delimeter, start). Suc (length source) - start)"
    by (cases delimeter) auto
qed simp

declare tokenize_from.simps [simp del]

definition tokenize_string :: "string \<Rightarrow> string \<Rightarrow> string list" where
  "tokenize_string source delimeter =
     (if delimeter \<noteq> [] then tokenize_from source delimeter 0 else [source])"

section \<open>Joining\<close>

text \<open>The inverse operation, as the code writes it where it builds a list: a delimiter
  before every element but the first.\<close>

fun join :: "string \<Rightarrow> string list \<Rightarrow> string" where
  "join d [] = []"
| "join d [x] = x"
| "join d (x # y # xs) = x @ d @ join d (y # xs)"

lemma join_Cons: "xs \<noteq> [] \<Longrightarrow> join d (x # xs) = x @ d @ join d xs"
  by (cases xs) auto

lemma join_snoc: "xs \<noteq> [] \<Longrightarrow> join d (xs @ [x]) = join d xs @ d @ x"
proof (induction xs)
  case (Cons y xs)
  show ?case by (cases "xs = []") (auto simp: join_Cons Cons.IH)
qed simp

lemma tokenize_from_nonempty [simp]: "tokenize_from s d n \<noteq> []"
  by (subst tokenize_from.simps) (auto split: option.split)

lemma tokenize_nonempty [simp]: "tokenize_string s d \<noteq> []"
  by (simp add: tokenize_string_def)

lemma length_tokenize_pos [simp]: "0 < length (tokenize_string s d)"
  by simp

text \<open>A search from a position is a search in the rest of the string, so the loop can be
  read as a recursion on the rest.\<close>

lemma str_find_append:
  "str_find (p @ s) d (length p + k) = map_option ((+) (length p)) (str_find s d k)"
  by (cases "find_list d (drop k s)") (simp_all add: str_find_def)

lemma tokenize_from_append:
  "d \<noteq> [] \<Longrightarrow> tokenize_from (p @ s) d (length p + k) = tokenize_from s d k"
proof (induction s d k rule: tokenize_from.induct)
  case (1 s d k)
  show ?case
  proof (cases "str_find s d k")
    case None
    with 1 show ?thesis
      by (simp add: tokenize_from.simps [of "p @ s"] tokenize_from.simps [of s] str_find_append
          substr_from_def)
  next
    case (Some pos)
    with 1 have "tokenize_from (p @ s) d (length p + (pos + length d))
        = tokenize_from s d (pos + length d)" by blast
    with 1 Some show ?thesis
      by (simp add: tokenize_from.simps [of "p @ s"] tokenize_from.simps [of s d k] str_find_append
          substr_def add.assoc)
  qed
qed

lemma tokenize_rec:
  assumes "d \<noteq> []"
  shows "tokenize_string s d = (case find_list d s of
      None \<Rightarrow> [s]
    | Some i \<Rightarrow> take i s # tokenize_string (drop (i + length d) s) d)"
proof (cases "find_list d s")
  case None
  with assms show ?thesis
    by (simp add: tokenize_string_def tokenize_from.simps [of s] substr_from_def)
next
  case (Some i)
  then have "i + length d \<le> length s"
    using str_find_SomeD(3) [of s d 0 i] by simp
  then have "tokenize_from s d (i + length d) = tokenize_from (drop (i + length d) s) d 0"
    using tokenize_from_append [OF assms, of "take (i + length d) s" "drop (i + length d) s" 0]
    by simp
  with Some assms show ?thesis
    by (simp add: tokenize_string_def tokenize_from.simps [of s d 0] substr_def)
qed

lemma tokenize_induct [consumes 1, case_names absent found]:
  fixes d s :: string
  assumes "d \<noteq> []"
    and "\<And>s. find_list d s = None \<Longrightarrow> P s"
    and "\<And>s i. find_list d s = Some i \<Longrightarrow> P (drop (i + length d) s) \<Longrightarrow> P s"
  shows "P s"
proof (induction s rule: length_induct)
  case (1 s)
  show ?case
  proof (cases "find_list d s")
    case None
    then show ?thesis by (rule assms(2))
  next
    case (Some i)
    then have "i + length d \<le> length s" using str_find_SomeD(3) [of s d 0 i] by simp
    moreover from assms(1) have "0 < length d" by simp
    ultimately have "length (drop (i + length d) s) < length s" by (simp only: length_drop)
    with 1 have "P (drop (i + length d) s)" by blast
    with Some show ?thesis by (rule assms(3))
  qed
qed

section \<open>Round trips\<close>

lemma join_tokenize: "join d (tokenize_string s d) = s"
proof (cases "d = []")
  case True
  then show ?thesis by (simp add: tokenize_string_def)
next
  case False
  then show ?thesis
  proof (induction s rule: tokenize_induct)
    case (absent s)
    with False show ?case by (simp add: tokenize_rec)
  next
    case (found s i)
    then have "occurs_at d s i" by (simp add: find_list_Some)
    then have "s = take i s @ d @ drop (i + length d) s"
      by (metis append_take_drop_id drop_drop occurs_at_def add.commute)
    with found False show ?case
      by (simp add: tokenize_rec [of d s] join_Cons)
  qed
qed

lemma occurs_at_take: "occurs_at d (take i s) j \<Longrightarrow> occurs_at d s j"
proof -
  assume "occurs_at d (take i s) j"
  then obtain ys zs where "take i s = ys @ d @ zs" "length ys = j"
    by (auto simp: occurs_at_split)
  then have "s = ys @ d @ zs @ drop i s" by (metis append.assoc append_take_drop_id)
  with \<open>length ys = j\<close> show ?thesis by (auto simp: occurs_at_split)
qed

lemma tokens_delimiter_free:
  assumes d: "d \<noteq> []" and "t \<in> set (tokenize_string s d)"
  shows "find_list d t = None"
  using assms
proof (induction s rule: tokenize_induct)
  case (absent s)
  with d show ?case by (simp add: tokenize_rec)
next
  case (found s i)
  have "find_list d (take i s) = None"
  proof -
    have "\<not> occurs_at d (take i s) j" for j
    proof
      assume occ: "occurs_at d (take i s) j"
      with occurs_at_bound [OF occ] d have "j < i" by (cases d) auto
      with found(1) occurs_at_take [OF occ] show False by (auto simp: find_list_Some)
    qed
    then show ?thesis by (simp add: find_list_None)
  qed
  with found d show ?case by (auto simp: tokenize_rec [of d s])
qed

lemma tokenize_single: "d \<noteq> [] \<Longrightarrow> find_list d s = None \<Longrightarrow> tokenize_string s d = [s]"
  by (simp add: tokenize_rec)

text \<open>A delimiter overlaps itself when a proper non-empty suffix of it is also a prefix.\<close>

definition unbordered :: "string \<Rightarrow> bool" where
  "unbordered d \<longleftrightarrow> d \<noteq> [] \<and> (\<forall>n < length d. 0 < n \<longrightarrow> take n d \<noteq> drop (length d - n) d)"

lemma find_list_append:
  assumes d: "unbordered d" and x: "find_list d x = None"
  shows "find_list d (x @ d @ z) = Some (length x)"
proof -
  have "\<not> occurs_at d (x @ d @ z) j" if "j < length x" for j
  proof
    assume occ: "occurs_at d (x @ d @ z) j"
    have no: "\<not> occurs_at d x j" using x by (simp add: find_list_None)
    show False
    proof (cases "j + length d \<le> length x")
      case True
      then have "take (length d) (drop j (x @ d @ z)) = take (length d) (drop j x)"
        using that by simp
      with occ no that show False by (simp add: occurs_at_def)
    next
      case False
      define n where "n = j + length d - length x"
      from False that have n: "0 < n" "n < length d" by (auto simp: n_def)
      from occ have eq: "take (length d) (drop j x @ d @ z) = d"
        using that by (simp add: occurs_at_def)
      have len: "length d - length (drop j x) = n" "length d - n = length (drop j x)"
        using that False by (auto simp: n_def)
      have "drop (length d - n) d = drop (length (drop j x)) (take (length d) (drop j x @ d @ z))"
        using eq len by simp
      also have "\<dots> = take n (d @ z)"
        using len by (simp add: drop_take)
      also have "\<dots> = take n d" using n by simp
      finally show False using d n by (auto simp: unbordered_def)
    qed
  qed
  then show ?thesis by (auto simp: find_list_Some occurs_at_def)
qed

lemma tokenize_join:
  assumes "unbordered d" "xs \<noteq> []" "\<forall>x \<in> set xs. find_list d x = None"
  shows "tokenize_string (join d xs) d = xs"
  using assms(2,3)
proof (induction xs)
  case (Cons x xs)
  have d: "d \<noteq> []" using assms(1) by (simp add: unbordered_def)
  show ?case
  proof (cases "xs = []")
    case True
    with Cons d show ?thesis by (simp add: tokenize_single)
  next
    case False
    with Cons have "find_list d (join d (x # xs)) = Some (length x)"
      by (simp add: join_Cons find_list_append [OF assms(1)])
    with Cons d False show ?thesis
      by (simp add: tokenize_rec [of d "join d (x # xs)"]) (simp add: join_Cons)
  qed
qed simp

lemma unbordered_single: "unbordered [c]"
  by (auto simp: unbordered_def)

lemma find_list_single: "find_list [c] s = None \<longleftrightarrow> c \<notin> set s"
  by (induction s) auto

text \<open>The first token of a two-token string.\<close>

lemma tokenize_pair:
  assumes "unbordered d" "find_list d a = None" "find_list d b = None"
  shows "tokenize_string (a @ d @ b) d = [a, b]"
  using tokenize_join [OF assms(1), of "[a, b]"] assms by simp

section \<open>Filling in\<close>

text \<open>Segments and what stands between them, in turn.\<close>

fun weave :: "string list \<Rightarrow> string list \<Rightarrow> string" where
  "weave [] vs = concat vs"
| "weave (s # ss) [] = s @ concat ss"
| "weave (s # ss) (v # vs) = s @ v @ weave ss vs"

lemma join_weave: "xs \<noteq> [] \<Longrightarrow> join d xs = weave xs (replicate (length xs - 1) d)"
proof (induction xs)
  case (Cons x xs)
  show ?case
  proof (cases xs)
    case (Cons y ys)
    with Cons.IH show ?thesis by simp
  qed simp
qed simp

end
