(* ===== verification/Ordered_Map.thy ===== *)
theory Ordered_Map
  imports Prelude
begin

text \<open>
  The ordered containers of the C++ library the sources keep their state in:
  \<^verbatim>\<open>std::map<K, V, Compare>\<close> (and \<^verbatim>\<open>std::set\<close>, with unit values) as an association
  list in the order of its comparator, and \<^verbatim>\<open>std::multimap\<close> as a list that may hold
  equivalent keys. The requirement of the library on a comparator is the locale
  \<open>comparator\<close>; the laws of the containers are proved in it once and reach the
  components through the interpretations for the comparators the code uses
  (\<^verbatim>\<open>std::less<std::string>\<close>, \<^verbatim>\<open>std::greater<std::string>\<close>, \<^verbatim>\<open>ci_less\<close>
  and numbers).
\<close>

section \<open>Operations\<close>

definition equiv_by :: "('k \<Rightarrow> 'k \<Rightarrow> bool) \<Rightarrow> 'k \<Rightarrow> 'k \<Rightarrow> bool" where
  "equiv_by lt a b \<longleftrightarrow> \<not> lt a b \<and> \<not> lt b a"

definition omap_ok :: "('k \<Rightarrow> 'k \<Rightarrow> bool) \<Rightarrow> ('k \<times> 'v) list \<Rightarrow> bool" where
  "omap_ok lt m \<longleftrightarrow> sorted_wrt lt (map fst m)"

text \<open>\<^verbatim>\<open>m.find(k)\<close>\<close>

fun omap_find :: "('k \<Rightarrow> 'k \<Rightarrow> bool) \<Rightarrow> ('k \<times> 'v) list \<Rightarrow> 'k \<Rightarrow> 'v option" where
  "omap_find lt [] k = None"
| "omap_find lt ((a, b) # m) k =
     (if lt a k then omap_find lt m k else if lt k a then None else Some b)"

text \<open>\<^verbatim>\<open>m[k] = v\<close>: an existing node keeps its key.\<close>

fun omap_set :: "('k \<Rightarrow> 'k \<Rightarrow> bool) \<Rightarrow> ('k \<times> 'v) list \<Rightarrow> 'k \<Rightarrow> 'v \<Rightarrow> ('k \<times> 'v) list" where
  "omap_set lt [] k v = [(k, v)]"
| "omap_set lt ((a, b) # m) k v =
     (if lt a k then (a, b) # omap_set lt m k v
      else if lt k a then (k, v) # (a, b) # m
      else (a, v) # m)"

text \<open>\<^verbatim>\<open>m.insert\<close>, \<^verbatim>\<open>m.emplace\<close>: an existing node is left as it is.\<close>

fun omap_insert :: "('k \<Rightarrow> 'k \<Rightarrow> bool) \<Rightarrow> ('k \<times> 'v) list \<Rightarrow> 'k \<Rightarrow> 'v \<Rightarrow> ('k \<times> 'v) list" where
  "omap_insert lt [] k v = [(k, v)]"
| "omap_insert lt ((a, b) # m) k v =
     (if lt a k then (a, b) # omap_insert lt m k v
      else if lt k a then (k, v) # (a, b) # m
      else (a, b) # m)"

text \<open>\<^verbatim>\<open>m.erase(k)\<close>\<close>

fun omap_erase :: "('k \<Rightarrow> 'k \<Rightarrow> bool) \<Rightarrow> ('k \<times> 'v) list \<Rightarrow> 'k \<Rightarrow> ('k \<times> 'v) list" where
  "omap_erase lt [] k = []"
| "omap_erase lt ((a, b) # m) k =
     (if lt a k then (a, b) # omap_erase lt m k
      else if lt k a then (a, b) # m
      else m)"

text \<open>\<^verbatim>\<open>m.upper_bound(k)\<close>: the first entry with a key after \<open>k\<close>.\<close>

fun omap_upper_bound :: "('k \<Rightarrow> 'k \<Rightarrow> bool) \<Rightarrow> ('k \<times> 'v) list \<Rightarrow> 'k \<Rightarrow> ('k \<times> 'v) option" where
  "omap_upper_bound lt [] k = None"
| "omap_upper_bound lt ((a, b) # m) k =
     (if lt k a then Some (a, b) else omap_upper_bound lt m k)"

text \<open>\<^verbatim>\<open>std::multimap::insert\<close>: after the entries with an equivalent key.\<close>

fun mmap_insert :: "('k \<Rightarrow> 'k \<Rightarrow> bool) \<Rightarrow> ('k \<times> 'v) list \<Rightarrow> 'k \<Rightarrow> 'v \<Rightarrow> ('k \<times> 'v) list" where
  "mmap_insert lt [] k v = [(k, v)]"
| "mmap_insert lt ((a, b) # m) k v =
     (if lt k a then (k, v) # (a, b) # m else (a, b) # mmap_insert lt m k v)"

lemma set_mmap_insert [simp]: "set (mmap_insert lt m k v) = insert (k, v) (set m)"
  by (induction m) (auto split: if_splits)

lemma length_mmap_insert [simp]: "length (mmap_insert lt m k v) = Suc (length m)"
  by (induction m) (auto split: if_splits)

text \<open>\<^verbatim>\<open>std::lexicographical_compare\<close>\<close>

fun lexless :: "('a \<Rightarrow> 'a \<Rightarrow> bool) \<Rightarrow> 'a list \<Rightarrow> 'a list \<Rightarrow> bool" where
  "lexless lt xs [] = False"
| "lexless lt [] (y # ys) = True"
| "lexless lt (x # xs) (y # ys) = (lt x y \<or> (\<not> lt y x \<and> lexless lt xs ys))"

section \<open>The comparator contract\<close>

locale comparator =
  fixes lt :: "'k \<Rightarrow> 'k \<Rightarrow> bool"
  assumes lt_irrefl: "\<not> lt a a"
    and lt_trans: "lt a b \<Longrightarrow> lt b c \<Longrightarrow> lt a c"
    and incomparable_trans: "equiv_by lt a b \<Longrightarrow> equiv_by lt b c \<Longrightarrow> equiv_by lt a c"
begin

lemma eqv_refl: "equiv_by lt a a"
  by (simp add: equiv_by_def lt_irrefl)

lemma eqv_sym: "equiv_by lt a b \<Longrightarrow> equiv_by lt b a"
  by (auto simp: equiv_by_def)

lemma lt_asym: "lt a b \<Longrightarrow> \<not> lt b a"
  using lt_irrefl [of a] lt_trans [of a b a] by blast

lemma lt_eqv_right: "lt a b \<Longrightarrow> equiv_by lt b c \<Longrightarrow> lt a c"
  using incomparable_trans [of b c a] lt_trans [of c a b] by (auto simp: equiv_by_def)

lemma lt_eqv_left: "equiv_by lt a b \<Longrightarrow> lt b c \<Longrightarrow> lt a c"
  using incomparable_trans [of c a b] lt_trans [of b c a] by (auto simp: equiv_by_def)

lemma find_beyond: "\<forall>(a, b) \<in> set m. lt k a \<Longrightarrow> omap_find lt m k = None"
  by (cases m) (auto dest: lt_asym)

lemma keys_omap_set:
  "fst ` set (omap_set lt m k v) \<subseteq> insert k (fst ` set m)"
  by (induction m) (force split: if_splits)+

lemma omap_ok_Cons:
  "omap_ok lt ((a, b) # m) \<longleftrightarrow> (\<forall>x \<in> fst ` set m. lt a x) \<and> omap_ok lt m"
  by (auto simp: omap_ok_def)

lemma omap_ok_set: "omap_ok lt m \<Longrightarrow> omap_ok lt (omap_set lt m k v)"
proof (induction m)
  case Nil
  then show ?case by (simp add: omap_ok_def)
next
  case (Cons p m)
  obtain a b where p: "p = (a, b)" by force
  show ?case
  proof (cases "lt a k")
    case True
    then have "\<forall>x \<in> insert k (fst ` set m). lt a x"
      using Cons.prems by (auto simp: p omap_ok_Cons)
    then have "\<forall>x \<in> fst ` set (omap_set lt m k v). lt a x"
      using keys_omap_set [of m k v] by (meson subsetD)
    with True Cons show ?thesis by (simp add: p omap_ok_Cons)
  next
    case False
    have "lt k x" if "lt k a" "x \<in> fst ` set m" for x
      using that Cons.prems lt_trans [of k a x] by (auto simp: p omap_ok_Cons)
    with False Cons.prems show ?thesis by (auto simp: p omap_ok_Cons)
  qed
qed

lemma find_set:
  assumes "omap_ok lt m"
  shows "omap_find lt (omap_set lt m k v) k' =
    (if equiv_by lt k k' then Some v else omap_find lt m k')"
  using assms
proof (induction m)
  case Nil
  show ?case by (auto simp: equiv_by_def)
next
  case (Cons p m)
  obtain a b where p: "p = (a, b)" by force
  from Cons.prems have ok: "omap_ok lt m" and beyond: "\<forall>(x, y) \<in> set m. lt a x"
    by (auto simp: p omap_ok_Cons)
  consider "lt a k" | "lt k a" | "equiv_by lt a k" by (auto simp: equiv_by_def)
  then show ?case
  proof cases
    case 1
    then have "lt a k'" if "equiv_by lt k k'" using that by (rule lt_eqv_right)
    with 1 Cons.IH [OF ok] show ?thesis by (auto simp: p)
  next
    case 2
    then have "lt k' a \<and> \<not> lt a k'" if "lt k' k"
      using that lt_trans [of k' k a] lt_asym [of k' a] by blast
    with 2 lt_asym [OF 2] show ?thesis by (auto simp: p equiv_by_def)
  next
    case 3
    then have "equiv_by lt k k' \<longleftrightarrow> equiv_by lt a k'"
      using incomparable_trans [of k a k'] incomparable_trans [of a k k'] eqv_sym by blast
    with 3 show ?thesis by (auto simp: p equiv_by_def)
  qed
qed

lemma insert_eq: "omap_insert lt m k v = (if omap_find lt m k = None then omap_set lt m k v else m)"
  by (induction m) (auto split: if_splits dest: lt_asym)

lemma omap_ok_insert: "omap_ok lt m \<Longrightarrow> omap_ok lt (omap_insert lt m k v)"
  by (simp add: insert_eq omap_ok_set)

lemma find_eqv: "omap_ok lt m \<Longrightarrow> equiv_by lt k k' \<Longrightarrow> omap_find lt m k = omap_find lt m k'"
proof (induction m)
  case (Cons p m)
  obtain a b where p: "p = (a, b)" by force
  from Cons.prems(2) have "lt a k \<longleftrightarrow> lt a k'" "lt k a \<longleftrightarrow> lt k' a"
    using lt_eqv_right [of a k k'] lt_eqv_right [of a k' k] lt_eqv_left [of k k' a]
      lt_eqv_left [of k' k a] eqv_sym [of k k'] by blast+
  with Cons show ?case by (simp add: p omap_ok_Cons)
qed simp

lemma find_insert:
  assumes "omap_ok lt m"
  shows "omap_find lt (omap_insert lt m k v) k' =
    (if equiv_by lt k k' \<and> omap_find lt m k = None then Some v else omap_find lt m k')"
  by (simp add: insert_eq find_set [OF assms])

lemma keys_omap_insert: "set (omap_insert lt m k v) \<subseteq> insert (k, v) (set m)"
  by (induction m) (auto split: if_splits)

lemma insert_has: "\<exists>k' w. (k', w) \<in> set (omap_insert lt m k v) \<and> equiv_by lt k' k"
proof (induction m)
  case Nil
  show ?case by (simp add: eqv_refl)
next
  case (Cons p m)
  obtain a b where p: "p = (a, b)" by force
  consider "lt a k" | "lt k a" "\<not> lt a k" | "equiv_by lt a k" by (auto simp: equiv_by_def)
  then show ?case
    using Cons.IH eqv_refl [of k] by cases (auto simp: p equiv_by_def)
qed

lemma insert_keeps: "set m \<subseteq> set (omap_insert lt m k v)"
  by (induction m) (auto split: if_splits)

lemma insert_last: "\<forall>(a, b) \<in> set m. lt a k \<Longrightarrow> omap_insert lt m k v = m @ [(k, v)]"
  by (induction m) auto

lemma insert_all:
  "set (foldl (\<lambda>s r. omap_insert lt s r ()) m rs) \<subseteq> set m \<union> (\<lambda>r. (r, ())) ` set rs"
  "set m \<subseteq> set (foldl (\<lambda>s r. omap_insert lt s r ()) m rs)"
  "r \<in> set rs \<Longrightarrow> \<exists>a. (a, ()) \<in> set (foldl (\<lambda>s r. omap_insert lt s r ()) m rs) \<and> equiv_by lt a r"
  "omap_ok lt m \<Longrightarrow> omap_ok lt (foldl (\<lambda>s r. omap_insert lt s r ()) m rs)"
proof -
  show "set (foldl (\<lambda>s r. omap_insert lt s r ()) m rs) \<subseteq> set m \<union> (\<lambda>r. (r, ())) ` set rs"
  proof (induction rs arbitrary: m)
    case (Cons x rs)
    show ?case using Cons [of "omap_insert lt m x ()"] keys_omap_insert [of m x "()"] by auto
  qed simp
  show keep: "set m \<subseteq> set (foldl (\<lambda>s r. omap_insert lt s r ()) m rs)" for m rs
  proof (induction rs arbitrary: m)
    case (Cons x rs)
    show ?case using Cons [of "omap_insert lt m x ()"] insert_keeps [of m x "()"] by auto
  qed simp
  show "\<exists>a. (a, ()) \<in> set (foldl (\<lambda>s r. omap_insert lt s r ()) m rs) \<and> equiv_by lt a r"
    if "r \<in> set rs"
    using that
  proof (induction rs arbitrary: m)
    case (Cons x rs)
    show ?case
    proof (cases "r = x")
      case True
      with insert_has [of m x "()"] keep [of "omap_insert lt m x ()" rs] show ?thesis by auto
    next
      case False
      with Cons show ?thesis by simp
    qed
  qed simp
  show "omap_ok lt m \<Longrightarrow> omap_ok lt (foldl (\<lambda>s r. omap_insert lt s r ()) m rs)"
    by (induction rs arbitrary: m) (simp_all add: omap_ok_insert)
qed

text \<open>The position of a key among the entries of a set.\<close>

lemma position:
  assumes "omap_ok lt m" "(a, u) \<in> set m" "equiv_by lt a r"
  shows "length (takeWhile (\<lambda>(x, _). lt x r) m) < length m \<and>
    equiv_by lt (fst (m ! length (takeWhile (\<lambda>(x, _). lt x r) m))) r"
  using assms
proof (induction m)
  case (Cons p m)
  obtain b w where p: "p = (b, w)" by force
  show ?case
  proof (cases "lt b r")
    case True
    then have "(a, u) \<in> set m" using Cons.prems(2,3) by (auto simp: p equiv_by_def)
    with True Cons show ?thesis by (simp add: p omap_ok_Cons)
  next
    case False
    have "b = a \<or> lt b a" using Cons.prems(1,2) by (auto simp: p omap_ok_Cons)
    then have "equiv_by lt b r"
      using False Cons.prems(3) lt_eqv_right [of b a r] by auto
    with False show ?thesis by (simp add: p)
  qed
qed simp

lemma set_omap_erase: "set (omap_erase lt m k) \<subseteq> set m"
  by (induction m) (auto split: if_splits)

lemma omap_ok_erase: "omap_ok lt m \<Longrightarrow> omap_ok lt (omap_erase lt m k)"
proof (induction m)
  case (Cons p m)
  then show ?case
    using set_omap_erase [of m k] by (cases p) (fastforce simp: omap_ok_Cons)
qed (simp add: omap_ok_def)

lemma find_erase:
  assumes "omap_ok lt m"
  shows "omap_find lt (omap_erase lt m k) k' =
    (if equiv_by lt k k' then None else omap_find lt m k')"
  using assms
proof (induction m)
  case (Cons p m)
  obtain a b where p: "p = (a, b)" by force
  from Cons.prems have ok: "omap_ok lt m" and beyond: "\<forall>(x, y) \<in> set m. lt a x"
    by (auto simp: p omap_ok_Cons)
  consider "lt a k" | "lt k a" | "equiv_by lt a k" by (auto simp: equiv_by_def)
  then show ?case
  proof cases
    case 1
    then have "lt a k'" if "equiv_by lt k k'" using that by (rule lt_eqv_right)
    with 1 Cons.IH [OF ok] show ?thesis by (auto simp: p)
  next
    case 2
    then have "lt k' a" if "equiv_by lt k k'" 
      using that lt_eqv_left [of k' k a] eqv_sym by simp
    with 2 lt_asym [of k a] show ?thesis by (auto simp: p dest: lt_asym)
  next
    case 3
    then have same: "equiv_by lt k k' \<longleftrightarrow> equiv_by lt a k'"
      using incomparable_trans [of k a k'] incomparable_trans [of a k k'] eqv_sym by blast
    have "omap_find lt m k' = None" if "\<not> lt a k'"
    proof -
      from that have "lt k' a \<or> equiv_by lt k' a" by (auto simp: equiv_by_def)
      then have "\<forall>(x, y) \<in> set m. lt k' x"
        using beyond lt_trans [of k' a] lt_eqv_left [of k' a] by blast
      then show ?thesis by (rule find_beyond)
    qed
    with 3 same show ?thesis by (auto simp: p equiv_by_def)
  qed
qed simp

lemma find_SomeD: "omap_find lt m k = Some v \<Longrightarrow> \<exists>k'. (k', v) \<in> set m \<and> equiv_by lt k k'"
  by (induction m) (auto simp: equiv_by_def split: if_splits)

lemma find_mem:
  "omap_ok lt m \<Longrightarrow> (k', v) \<in> set m \<Longrightarrow> equiv_by lt k k' \<Longrightarrow> omap_find lt m k = Some v"
proof (induction m)
  case (Cons p m)
  obtain a b where p: "p = (a, b)" by force
  show ?case
  proof (cases "(k', v) = (a, b)")
    case True
    with Cons.prems show ?thesis by (simp add: p equiv_by_def)
  next
    case False
    with Cons.prems have "(k', v) \<in> set m" "lt a k'" by (auto simp: p omap_ok_Cons)
    with Cons.prems have "lt a k" using lt_eqv_right [of a k' k] eqv_sym by blast
    with Cons False show ?thesis by (auto simp: p omap_ok_Cons)
  qed
qed simp

lemma find_None_iff:
  "omap_ok lt m \<Longrightarrow> omap_find lt m k = None \<longleftrightarrow> (\<forall>(k', v) \<in> set m. \<not> equiv_by lt k k')"
proof
  assume "omap_ok lt m" "omap_find lt m k = None"
  then show "\<forall>(k', v) \<in> set m. \<not> equiv_by lt k k'" using find_mem [of m _ _ k] by auto
next
  assume "\<forall>(k', v) \<in> set m. \<not> equiv_by lt k k'"
  then show "omap_find lt m k = None" using find_SomeD [of m k] by (cases "omap_find lt m k") auto
qed

lemma set_omap_set: "set (omap_set lt m k v) \<subseteq> {(k', w). (k', w) \<in> set m \<or> (w = v \<and> equiv_by lt k k')}"
  by (induction m) (auto simp: eqv_refl equiv_by_def lt_irrefl split: if_splits)

lemma upper_bound_Some:
  "omap_upper_bound lt m k = Some (a, b) \<Longrightarrow> (a, b) \<in> set m \<and> lt k a"
  by (induction m) (auto split: if_splits)

lemma upper_bound_least:
  "omap_ok lt m \<Longrightarrow> omap_upper_bound lt m k = Some (a, b) \<Longrightarrow> (x, y) \<in> set m \<Longrightarrow> lt k x \<Longrightarrow>
    (x, y) = (a, b) \<or> lt a x"
  by (induction m) (force simp: omap_ok_Cons split: if_splits)+

lemma upper_bound_None: "omap_upper_bound lt m k = None \<longleftrightarrow> (\<forall>(x, y) \<in> set m. \<not> lt k x)"
  by (induction m) (auto split: if_splits)

end

section \<open>Comparators of the program\<close>

lemma comparator_lexless:
  assumes "comparator lt"
  shows "comparator (lexless lt)"
proof -
  note c = assms
  have irr: "\<not> lexless lt a a" for a
    by (induction a) (auto simp: comparator.lt_irrefl [OF c])
  have eq_iff: "equiv_by (lexless lt) a b \<longleftrightarrow> list_all2 (equiv_by lt) a b" for a b
  proof (induction a arbitrary: b)
    case Nil
    show ?case by (cases b) (auto simp: equiv_by_def)
  next
    case (Cons x a)
    show ?case
      using Cons.IH by (cases b) (auto simp: equiv_by_def)
  qed
  have tr: "lexless lt a b \<Longrightarrow> lexless lt b d \<Longrightarrow> lexless lt a d" for a b d
  proof (induction a arbitrary: b d)
    case Nil
    then show ?case by (cases d; cases b) auto
  next
    case (Cons x a)
    then obtain y b' where b: "b = y # b'" by (cases b) auto
    with Cons.prems obtain z d' where d: "d = z # d'" by (cases d) auto
    from Cons.prems(1) have 1: "lt x y \<or> equiv_by lt x y \<and> lexless lt a b'"
      by (auto simp: b equiv_by_def)
    from Cons.prems(2) have 2: "lt y z \<or> equiv_by lt y z \<and> lexless lt b' d'"
      by (auto simp: b d equiv_by_def)
    have "lt x z \<or> equiv_by lt x z \<and> lexless lt a d'"
      using 1 2 Cons.IH [of b' d'] comparator.lt_trans [OF c, of x y z]
        comparator.lt_eqv_right [OF c, of x y z] comparator.lt_eqv_left [OF c, of x y z]
        comparator.incomparable_trans [OF c, of x y z]
      by blast
    then show ?case by (auto simp: d equiv_by_def dest: comparator.lt_asym [OF c])
  qed
  show ?thesis
  proof
    show "\<not> lexless lt a a" for a by (rule irr)
    show "lexless lt a b \<Longrightarrow> lexless lt b d \<Longrightarrow> lexless lt a d" for a b d by (rule tr)
    show "equiv_by (lexless lt) a b \<Longrightarrow> equiv_by (lexless lt) b d \<Longrightarrow> equiv_by (lexless lt) a d"
      for a b d
      unfolding eq_iff
      by (rule list_all2_trans [of "equiv_by lt" "equiv_by lt" "equiv_by lt"])
        (auto intro: comparator.incomparable_trans [OF c])
  qed
qed

lemma comparator_key: "comparator (\<lambda>a b. (f a :: nat) < f b)"
  by unfold_locales (auto simp: equiv_by_def)

lemma comparator_converse:
  assumes "comparator lt"
  shows "comparator (\<lambda>a b. lt b a)"
proof -
  have eq: "equiv_by (\<lambda>a b. lt b a) = equiv_by lt" by (auto simp: equiv_by_def fun_eq_iff)
  show ?thesis
  proof
    show "\<not> lt a a" for a by (rule comparator.lt_irrefl [OF assms])
    show "lt b a \<Longrightarrow> lt c b \<Longrightarrow> lt c a" for a b c by (rule comparator.lt_trans [OF assms])
  qed (unfold eq, rule comparator.incomparable_trans [OF assms])
qed

lemma comparator_on:
  assumes "comparator lt"
  shows "comparator (\<lambda>a b. lt (f a) (f b))"
proof -
  have eq: "equiv_by (\<lambda>a b. lt (f a) (f b)) = (\<lambda>a b. equiv_by lt (f a) (f b))"
    by (simp add: equiv_by_def fun_eq_iff)
  show ?thesis
  proof
    show "\<not> lt (f a) (f a)" for a by (rule comparator.lt_irrefl [OF assms])
    show "lt (f a) (f b) \<Longrightarrow> lt (f b) (f c) \<Longrightarrow> lt (f a) (f c)" for a b c
      by (rule comparator.lt_trans [OF assms])
  qed (unfold eq, rule comparator.incomparable_trans [OF assms])
qed

lemma equiv_lexless: "comparator lt \<Longrightarrow> equiv_by (lexless lt) a b \<longleftrightarrow> list_all2 (equiv_by lt) a b"
proof (induction a arbitrary: b)
  case Nil
  show ?case by (cases b) (auto simp: equiv_by_def)
next
  case (Cons x a)
  then show ?case by (cases b) (auto simp: equiv_by_def)
qed

text \<open>\<^verbatim>\<open>operator<\<close> on strings compares characters as unsigned bytes.\<close>

definition str_less :: "string \<Rightarrow> string \<Rightarrow> bool" where
  "str_less = lexless (\<lambda>a b. char_code a < char_code b)"

definition str_greater :: "string \<Rightarrow> string \<Rightarrow> bool" where
  "str_greater a b = str_less b a"

text \<open>\<^verbatim>\<open>ci_less\<close>: case-independent comparison of header names.\<close>

definition nocase_compare :: "char \<Rightarrow> char \<Rightarrow> bool" where
  "nocase_compare c1 c2 \<longleftrightarrow> char_code (char_lower c1) < char_code (char_lower c2)"

definition ci_less :: "string \<Rightarrow> string \<Rightarrow> bool" where
  "ci_less s1 s2 = lexless nocase_compare s1 s2"

definition nat_less :: "nat \<Rightarrow> nat \<Rightarrow> bool" where
  "nat_less a b \<longleftrightarrow> a < b"

definition int_less :: "int \<Rightarrow> int \<Rightarrow> bool" where
  "int_less a b \<longleftrightarrow> a < b"

interpretation str: comparator str_less
  unfolding str_less_def by (rule comparator_lexless [OF comparator_key])

interpretation str_gt: comparator str_greater
  unfolding str_greater_def [abs_def] by (rule comparator_converse [OF str.comparator_axioms])

interpretation ci: comparator ci_less
proof -
  have "comparator nocase_compare"
    using comparator_key [of "\<lambda>c. char_code (char_lower c)"] by (simp add: nocase_compare_def [abs_def])
  then show "comparator ci_less" unfolding ci_less_def [abs_def] by (rule comparator_lexless)
qed

interpretation num: comparator nat_less
  unfolding nat_less_def [abs_def] by (rule comparator_key)

interpretation sid: comparator int_less
  by unfold_locales (auto simp: int_less_def equiv_by_def)

lemma equiv_str_less [simp]: "equiv_by str_less a b \<longleftrightarrow> a = b"
proof -
  have "equiv_by (\<lambda>a b. char_code a < char_code b) = (=)"
    by (auto simp: equiv_by_def fun_eq_iff not_less order_eq_iff [symmetric])
  then show ?thesis
    by (simp add: str_less_def equiv_lexless comparator_key list_all2_eq)
qed

lemma equiv_str_greater [simp]: "equiv_by str_greater a b \<longleftrightarrow> a = b"
  using equiv_str_less [of b a] by (auto simp: equiv_by_def str_greater_def)

lemma equiv_nat_less [simp]: "equiv_by nat_less a b \<longleftrightarrow> a = b"
  by (auto simp: equiv_by_def nat_less_def)

lemma equiv_int_less [simp]: "equiv_by int_less a b \<longleftrightarrow> a = b"
  by (auto simp: equiv_by_def int_less_def)

lemma equiv_ci_less [simp]: "equiv_by ci_less a b \<longleftrightarrow> str_lower a = str_lower b"
proof -
  have "equiv_by nocase_compare = (\<lambda>a b. char_lower a = char_lower b)"
    by (auto simp: equiv_by_def nocase_compare_def fun_eq_iff not_less order_eq_iff [symmetric])
  then have "equiv_by ci_less a b \<longleftrightarrow> list_all2 (\<lambda>a b. char_lower a = char_lower b) a b"
    using equiv_lexless [of nocase_compare a b]
      comparator_key [of "\<lambda>c. char_code (char_lower c)"]
    by (simp add: ci_less_def [abs_def] nocase_compare_def [abs_def])
  also have "\<dots> \<longleftrightarrow> str_lower a = str_lower b"
    by (auto simp: str_lower_def list_all2_conv_all_nth list_eq_iff_nth_eq)
  finally show ?thesis .
qed

end
