(* ===== verification/Cookies.thy ===== *)
theory Cookies
  imports Tokens Ordered_Map
begin

text \<open>
  Cookies of a simulated user (\<^verbatim>\<open>h2load_Cookie.h\<close>, \<^verbatim>\<open>h2load_Cookie.cc\<close>, and the two
  functions of \<^verbatim>\<open>base_client.cc\<close> that fill and use the jar). A jar is the
  \<^verbatim>\<open>std::map<std::string, Cookie, std::greater<std::string>>\<close> \<^verbatim>\<open>saved_cookies\<close>. The lemmas
  give the invariant of the jar (every cookie is stored under its own name, is acceptable and
  prints to a token that parses back), what makes a cookie acceptable and sendable, and the
  exact \<^verbatim>\<open>Cookie\<close> header that a request gets.
\<close>

section \<open>Data\<close>

record cookie =
  cookie_origin :: string
  secure_origin :: bool
  cookie_key :: string
  cookie_value :: string
  cookie_expires :: string
  cookie_secure :: bool
  httpOnly :: bool
  cookie_domain :: string
  cookie_path :: string
  sameSite :: string
  maxAge :: string

type_synonym cookie_jar = "(string \<times> cookie) list"

type_synonym header_map = "(string \<times> string) list"

definition empty_cookie :: cookie where
  "empty_cookie = \<lparr> cookie_origin = '''', secure_origin = False, cookie_key = '''',
     cookie_value = '''', cookie_expires = '''', cookie_secure = False, httpOnly = False,
     cookie_domain = '''', cookie_path = '''', sameSite = '''', maxAge = '''' \<rparr>"

definition cookie_attributes :: "(string \<times> unit) list" where
  "cookie_attributes = foldl (\<lambda>s k. omap_insert ci_less s k ()) []
     [''Secure'', ''HttpOnly'', ''Expires'', ''Domain'', ''Path'', ''SameSite'', ''Max-Age'']"

definition is_cookie_attribute :: "string \<Rightarrow> bool" where
  "is_cookie_attribute k \<longleftrightarrow> omap_find ci_less cookie_attributes k \<noteq> None"

section \<open>Operations\<close>

text \<open>\<^verbatim>\<open>parsed_cookies.back().field = v\<close> on a non-empty vector\<close>

definition on_back :: "('a \<Rightarrow> 'a) \<Rightarrow> 'a list \<Rightarrow> 'a list" where
  "on_back f xs = butlast xs @ [f (last xs)]"

text \<open>One iteration of the token loop; the token list is never empty, so its head exists.\<close>

definition parse_cookie_token :: "string \<Rightarrow> bool \<Rightarrow> cookie list \<Rightarrow> string \<Rightarrow> cookie list" where
  "parse_cookie_token origin_authority secure_org parsed token =
    (let kv = tokenize_string token ''=''; k0 = hd kv; n = length kv in
     if \<not> is_cookie_attribute k0 \<and> n = 2 then
       parsed @ [empty_cookie
         \<lparr> cookie_origin := str_lower origin_authority, secure_origin := secure_org,
           cookie_key := k0, cookie_value := kv ! 1, sameSite := ''Lax'' \<rparr>]
     else if is_cookie_attribute k0 then
       (if parsed = [] then parsed
        else
          let k = str_lower k0 in
          if k = ''expires'' \<and> n = 2 then on_back (\<lambda>c. c \<lparr> cookie_expires := kv ! 1 \<rparr>) parsed
          else if k = ''secure'' \<and> n = 1 then on_back (\<lambda>c. c \<lparr> cookie_secure := True \<rparr>) parsed
          else if k = ''httponly'' \<and> n = 1 then on_back (\<lambda>c. c \<lparr> httpOnly := True \<rparr>) parsed
          else if k = ''domain'' \<and> n = 2 then
            on_back (\<lambda>c. c \<lparr> cookie_domain := str_lower (kv ! 1) \<rparr>) parsed
          else if k = ''path'' \<and> n = 2 then on_back (\<lambda>c. c \<lparr> cookie_path := kv ! 1 \<rparr>) parsed
          else if k = ''samesite'' \<and> n = 2 then on_back (\<lambda>c. c \<lparr> sameSite := kv ! 1 \<rparr>) parsed
          else if k = ''max-age'' \<and> n = 2 then on_back (\<lambda>c. c \<lparr> maxAge := kv ! 1 \<rparr>) parsed
          else parsed)
     else parsed)"

definition parse_cookie_string :: "string \<Rightarrow> string \<Rightarrow> string \<Rightarrow> cookie list" where
  "parse_cookie_string cookie_string origin_authority origin_schema =
     foldl (parse_cookie_token origin_authority (origin_schema = ''https'')) []
       (tokenize_string cookie_string ''; '')"

definition is_cookie_acceptable :: "cookie \<Rightarrow> bool" where
  "is_cookie_acceptable c =
    (if str_find (cookie_key c) ''__Host-'' 0 = Some 0 \<and>
        (\<not> cookie_secure c \<or> \<not> secure_origin c \<or> cookie_domain c \<noteq> '''' \<or> cookie_path c \<noteq> ''/'')
     then False
     else if str_find (cookie_key c) ''__Secure-'' 0 = Some 0 \<and>
        (\<not> cookie_secure c \<or> \<not> secure_origin c)
     then False
     else if sameSite c = ''None'' \<and> \<not> cookie_secure c then False
     else True)"

definition is_cookie_allowed_to_be_sent :: "cookie \<Rightarrow> string \<Rightarrow> string \<Rightarrow> string \<Rightarrow> bool" where
  "is_cookie_allowed_to_be_sent c dest_schema dest_authority dest_path =
    (if cookie_secure c \<and> dest_schema = ''http'' then False
     else
       let authority = str_lower dest_authority in
       if (if cookie_domain c \<noteq> [] then
             (let dest_host = hd (tokenize_string authority '':'') in
              case str_rfind dest_host (cookie_domain c) of
                None \<Rightarrow> True
              | Some pos \<Rightarrow> length dest_host - pos \<noteq> length (cookie_domain c))
           else cookie_origin c \<noteq> authority)
       then False
       else if cookie_path c \<noteq> [] \<and> dest_path \<noteq> [] \<and> str_find dest_path (cookie_path c) 0 \<noteq> Some 0
       then False
       else if sameSite c \<noteq> [] \<and> sameSite c \<noteq> ''None'' \<and> cookie_origin c \<noteq> authority
       then False
       else True)"

text \<open>\<^verbatim>\<open>parse_and_save_cookies\<close>: the \<^verbatim>\<open>Set-Cookie\<close> field of each received header block.\<close>

definition save_cookie :: "cookie_jar \<Rightarrow> cookie \<Rightarrow> cookie_jar" where
  "save_cookie jar c =
     (if is_cookie_acceptable c then omap_set str_greater jar (cookie_key c) c else jar)"

definition save_cookies_of :: "string \<Rightarrow> string \<Rightarrow> cookie_jar \<Rightarrow> header_map \<Rightarrow> cookie_jar" where
  "save_cookies_of authority schema jar header_map =
     (case omap_find ci_less header_map ''Set-Cookie'' of
        None \<Rightarrow> jar
      | Some v \<Rightarrow> foldl save_cookie jar (parse_cookie_string v authority schema))"

definition parse_and_save_cookies ::
  "string \<Rightarrow> string \<Rightarrow> header_map list \<Rightarrow> cookie_jar \<Rightarrow> cookie_jar" where
  "parse_and_save_cookies authority schema resp_headers jar =
     foldl (save_cookies_of authority schema) jar resp_headers"

text \<open>\<^verbatim>\<open>produce_request_cookie_header\<close>\<close>

definition append_cookie ::
  "string list \<Rightarrow> string \<Rightarrow> string \<Rightarrow> string \<Rightarrow> string \<Rightarrow> string \<times> cookie \<Rightarrow> string" where
  "append_cookie cookies_from_config schema authority path cookies_to_append kc =
    (if fst kc \<in> set cookies_from_config then cookies_to_append
     else if \<not> is_cookie_allowed_to_be_sent (snd kc) schema authority path then cookies_to_append
     else (if cookies_to_append \<noteq> [] then cookies_to_append @ ''; '' else cookies_to_append)
       @ fst kc @ ''='' @ cookie_value (snd kc))"

definition config_cookie_names :: "header_map \<Rightarrow> string \<Rightarrow> string \<Rightarrow> string list" where
  "config_cookie_names from_config authority schema =
     (case omap_find ci_less from_config ''Cookie'' of
        None \<Rightarrow> []
      | Some v \<Rightarrow> map cookie_key (parse_cookie_string v authority schema))"

definition produce_request_cookie_header ::
  "cookie_jar \<Rightarrow> header_map \<Rightarrow> string \<Rightarrow> string \<Rightarrow> string \<Rightarrow> header_map \<Rightarrow> header_map" where
  "produce_request_cookie_header jar from_config schema authority path individual =
    (if jar = [] then individual
     else
       let cookies_to_append = foldl
             (append_cookie (config_cookie_names from_config authority schema) schema authority path)
             [] jar in
       if cookies_to_append = [] then individual
       else case omap_find ci_less from_config ''Cookie'' of
           None \<Rightarrow> omap_set ci_less individual ''Cookie'' cookies_to_append
         | Some v \<Rightarrow> omap_set ci_less individual ''Cookie''
             (if v \<noteq> [] then v @ ''; '' @ cookies_to_append else cookies_to_append))"

section \<open>What parsing yields\<close>

lemma cookie_attributes_eq: "cookie_attributes =
    [(''Domain'', ()), (''Expires'', ()), (''HttpOnly'', ()), (''Max-Age'', ()),
     (''Path'', ()), (''SameSite'', ()), (''Secure'', ())]"
  by code_simp

lemma is_cookie_attribute_iff: "is_cookie_attribute k \<longleftrightarrow>
    str_lower k \<in> {''domain'', ''expires'', ''httponly'', ''max-age'', ''path'', ''samesite'', ''secure''}"
proof -
  have ok: "omap_ok ci_less cookie_attributes" by code_simp
  have low: "map (str_lower \<circ> fst) cookie_attributes =
      [''domain'', ''expires'', ''httponly'', ''max-age'', ''path'', ''samesite'', ''secure'']"
    by code_simp
  have "is_cookie_attribute k \<longleftrightarrow> str_lower k \<in> set (map (str_lower \<circ> fst) cookie_attributes)"
    unfolding is_cookie_attribute_def ci.find_None_iff [OF ok] by force
  then show ?thesis unfolding low by simp
qed

definition cookie_token :: "cookie \<Rightarrow> string" where
  "cookie_token c = cookie_key c @ ''='' @ cookie_value c"

text \<open>A cookie whose token survives being printed and parsed again.\<close>

definition printable :: "cookie \<Rightarrow> bool" where
  "printable c \<longleftrightarrow> find_list ''; '' (cookie_token c) = None \<and> CHR ''='' \<notin> set (cookie_key c)
     \<and> CHR ''='' \<notin> set (cookie_value c) \<and> \<not> is_cookie_attribute (cookie_key c)"

definition parsed_from :: "string \<Rightarrow> bool \<Rightarrow> cookie \<Rightarrow> bool" where
  "parsed_from authority secure c \<longleftrightarrow> printable c \<and> cookie_origin c = str_lower authority
     \<and> secure_origin c = secure"

lemma set_on_back [simp]: "set (on_back f xs) = insert (f (last xs)) (set (butlast xs))"
  by (auto simp: on_back_def)

lemma two_tokens:
  assumes "length (tokenize_string t [d]) = 2"
  shows "t = hd (tokenize_string t [d]) @ [d] @ tokenize_string t [d] ! 1"
    "d \<notin> set (hd (tokenize_string t [d]))" "d \<notin> set (tokenize_string t [d] ! 1)"
proof -
  from assms obtain a b where ab: "tokenize_string t [d] = [a, b]"
    by (auto simp: numeral_2_eq_2 length_Suc_conv)
  show "t = hd (tokenize_string t [d]) @ [d] @ tokenize_string t [d] ! 1"
    using join_tokenize [of "[d]" t] ab by simp
  show "d \<notin> set (hd (tokenize_string t [d]))" "d \<notin> set (tokenize_string t [d] ! 1)"
    using tokens_delimiter_free [of "[d]" _ t] ab by (simp_all add: find_list_single)
qed

lemma parsed_from_update [simp]:
  "parsed_from a s (c \<lparr> cookie_expires := x \<rparr>) = parsed_from a s c"
  "parsed_from a s (c \<lparr> cookie_secure := b \<rparr>) = parsed_from a s c"
  "parsed_from a s (c \<lparr> httpOnly := b \<rparr>) = parsed_from a s c"
  "parsed_from a s (c \<lparr> cookie_domain := x \<rparr>) = parsed_from a s c"
  "parsed_from a s (c \<lparr> cookie_path := x \<rparr>) = parsed_from a s c"
  "parsed_from a s (c \<lparr> sameSite := x \<rparr>) = parsed_from a s c"
  "parsed_from a s (c \<lparr> maxAge := x \<rparr>) = parsed_from a s c"
  by (simp_all add: parsed_from_def printable_def cookie_token_def)

lemma parse_cookie_token_all:
  assumes "\<forall>c \<in> set parsed. parsed_from a s c" and free: "find_list ''; '' t = None"
  shows "\<forall>c \<in> set (parse_cookie_token a s parsed t). parsed_from a s c"
proof -
  let ?kv = "tokenize_string t ''=''"
  have "parsed_from a s (empty_cookie \<lparr> cookie_origin := str_lower a, secure_origin := s,
      cookie_key := hd ?kv, cookie_value := ?kv ! 1, sameSite := ''Lax'' \<rparr>)"
    if "\<not> is_cookie_attribute (hd ?kv)" "length ?kv = 2"
    using that two_tokens [of t "CHR ''=''"] free
    by (auto simp: parsed_from_def printable_def cookie_token_def)
  moreover have "parsed_from a s (last parsed)" if "parsed \<noteq> []"
    using assms(1) that by simp
  moreover have "\<forall>c \<in> set (butlast parsed). parsed_from a s c"
    using assms(1) by (auto dest: in_set_butlastD)
  ultimately show ?thesis
    using assms(1) by (simp add: parse_cookie_token_def Let_def)
qed

lemma foldl_parse_all:
  "\<forall>t \<in> set ts. find_list ''; '' t = None \<Longrightarrow> \<forall>c \<in> set cs. parsed_from a s c \<Longrightarrow>
    \<forall>c \<in> set (foldl (parse_cookie_token a s) cs ts). parsed_from a s c"
proof (induction ts arbitrary: cs)
  case (Cons t ts)
  from Cons.prems have "\<forall>c \<in> set (parse_cookie_token a s cs t). parsed_from a s c"
    by (intro parse_cookie_token_all) auto
  with Cons.prems Cons.IH [of "parse_cookie_token a s cs t"] show ?case by simp
qed simp

lemma parse_cookie_string_all:
  "c \<in> set (parse_cookie_string str a sch) \<Longrightarrow> parsed_from a (sch = ''https'') c"
  using foldl_parse_all [of "tokenize_string str ''; ''" "[]"] tokens_delimiter_free [of "''; ''" _ str]
  by (simp add: parse_cookie_string_def)

section \<open>The invariant of the jar\<close>

definition jar_ok :: "cookie_jar \<Rightarrow> bool" where
  "jar_ok jar \<longleftrightarrow> omap_ok str_greater jar \<and>
     (\<forall>(k, c) \<in> set jar. k = cookie_key c \<and> is_cookie_acceptable c \<and> printable c)"

lemma jar_ok_Nil [simp]: "jar_ok []"
  by (simp add: jar_ok_def omap_ok_def)

lemma jar_ok_save_cookie:
  assumes "jar_ok jar" "printable c"
  shows "jar_ok (save_cookie jar c)"
  using assms str_gt.set_omap_set [of jar "cookie_key c" c]
  by (auto simp: jar_ok_def save_cookie_def str_gt.omap_ok_set)

lemma jar_ok_save_all: "jar_ok jar \<Longrightarrow> \<forall>c \<in> set cs. printable c \<Longrightarrow> jar_ok (foldl save_cookie jar cs)"
  by (induction cs arbitrary: jar) (auto simp: jar_ok_save_cookie)

lemma jar_ok_save_cookies_of: "jar_ok jar \<Longrightarrow> jar_ok (save_cookies_of a s jar h)"
  unfolding save_cookies_of_def
  by (auto split: option.split intro!: jar_ok_save_all dest: parse_cookie_string_all
      simp: parsed_from_def)

lemma jar_ok_parse_and_save: "jar_ok jar \<Longrightarrow> jar_ok (parse_and_save_cookies a s hs jar)"
  unfolding parse_and_save_cookies_def
  by (induction hs arbitrary: jar) (auto simp: jar_ok_save_cookies_of)

section \<open>The header that is sent\<close>

definition sendable :: "header_map \<Rightarrow> string \<Rightarrow> string \<Rightarrow> string \<Rightarrow> cookie_jar \<Rightarrow> cookie_jar" where
  "sendable from_config schema authority path jar =
     filter (\<lambda>(k, c). k \<notin> set (config_cookie_names from_config authority schema) \<and>
       is_cookie_allowed_to_be_sent c schema authority path) jar"

definition jar_tokens :: "cookie_jar \<Rightarrow> string list" where
  "jar_tokens jar = map (\<lambda>(k, c). k @ ''='' @ cookie_value c) jar"

lemma jar_tokens_nonempty: "t \<in> set (jar_tokens jar) \<Longrightarrow> t \<noteq> []"
  by (auto simp: jar_tokens_def)

lemma join_eq_Nil: "\<forall>t \<in> set ts. t \<noteq> [] \<Longrightarrow> join d ts = [] \<longleftrightarrow> ts = []"
  by (cases ts rule: list.exhaust, simp, case_tac x22) auto

lemma foldl_append_cookie:
  "foldl (append_cookie (config_cookie_names fc a s) s a p) (join ''; '' (jar_tokens done)) jar =
     join ''; '' (jar_tokens (done @ sendable fc s a p jar))"
proof (induction jar arbitrary: "done")
  case Nil
  show ?case by (simp add: sendable_def)
next
  case (Cons kc jar)
  obtain k c where kc: "kc = (k, c)" by force
  have snoc: "append_cookie (config_cookie_names fc a s) s a p (join ''; '' (jar_tokens done)) kc
      = join ''; '' (jar_tokens (done @ [kc]))"
    if "k \<notin> set (config_cookie_names fc a s)" "is_cookie_allowed_to_be_sent c s a p"
    using that join_eq_Nil [of "jar_tokens done" "''; ''"] jar_tokens_nonempty [of _ "done"]
    by (auto simp: append_cookie_def kc jar_tokens_def join_snoc)
  show ?case
  proof (cases "k \<notin> set (config_cookie_names fc a s) \<and> is_cookie_allowed_to_be_sent c s a p")
    case True
    then have "sendable fc s a p (kc # jar) = kc # sendable fc s a p jar"
      by (simp add: sendable_def kc)
    with True snoc Cons.IH [of "done @ [kc]"] show ?thesis by simp
  next
    case False
    then have "sendable fc s a p (kc # jar) = sendable fc s a p jar"
      by (auto simp: sendable_def kc)
    with False Cons.IH [of "done"] show ?thesis by (auto simp: append_cookie_def kc)
  qed
qed

lemma cookies_to_append_eq:
  "foldl (append_cookie (config_cookie_names fc a s) s a p) [] jar =
     join ''; '' (jar_tokens (sendable fc s a p jar))"
  using foldl_append_cookie [of fc a s p "[]" jar] by (simp add: jar_tokens_def)

lemma find_cookie_header:
  assumes "omap_ok ci_less individual"
  shows "omap_find ci_less
      (produce_request_cookie_header jar fc schema authority path individual) ''Cookie'' =
    (let toks = jar_tokens (sendable fc schema authority path jar) in
     if toks = [] then omap_find ci_less individual ''Cookie''
     else case omap_find ci_less fc ''Cookie'' of
         None \<Rightarrow> Some (join ''; '' toks)
       | Some v \<Rightarrow> Some (if v \<noteq> [] then v @ ''; '' @ join ''; '' toks else join ''; '' toks))"
proof -
  have "join ''; '' (jar_tokens j) = [] \<longleftrightarrow> jar_tokens j = []" for j
    by (intro join_eq_Nil ballI jar_tokens_nonempty)
  moreover have "jar_tokens (sendable fc schema authority path []) = []"
    by (simp add: jar_tokens_def sendable_def)
  ultimately show ?thesis
    by (auto simp: produce_request_cookie_header_def cookies_to_append_eq Let_def
        ci.find_set [OF assms] split: option.split)
qed

text \<open>Parsing tokens of printable cookies gives their names and values back.\<close>

lemma parse_printable:
  assumes "\<forall>(k, c) \<in> set cs. k = cookie_key c \<and> printable c"
  shows "map (\<lambda>c. (cookie_key c, cookie_value c)) (foldl (parse_cookie_token a s) acc (jar_tokens cs))
    = map (\<lambda>c. (cookie_key c, cookie_value c)) acc @ map (\<lambda>(k, c). (k, cookie_value c)) cs"
  using assms
proof (induction cs arbitrary: acc)
  case (Cons kc cs)
  obtain c where kc: "kc = (cookie_key c, c)" and c: "printable c"
    using Cons.prems by (cases kc) auto
  have "tokenize_string (cookie_key c @ ''='' @ cookie_value c) ''='' = [cookie_key c, cookie_value c]"
    using c by (intro tokenize_pair unbordered_single) (auto simp: find_list_single printable_def)
  then have "parse_cookie_token a s acc (cookie_key c @ ''='' @ cookie_value c) = acc @ [empty_cookie
      \<lparr> cookie_origin := str_lower a, secure_origin := s, cookie_key := cookie_key c,
        cookie_value := cookie_value c, sameSite := ''Lax'' \<rparr>]"
    using c by (simp add: parse_cookie_token_def printable_def)
  with Cons kc show ?case by (simp add: jar_tokens_def)
qed (simp add: jar_tokens_def)

lemma unbordered_cookie_delimiter: "unbordered ''; ''"
  by code_simp

lemma parse_sent_header:
  assumes "jar_ok jar" and "sendable fc schema authority path jar \<noteq> []"
  shows "map (\<lambda>c. (cookie_key c, cookie_value c))
      (parse_cookie_string (join ''; '' (jar_tokens (sendable fc schema authority path jar))) a' s')
    = map (\<lambda>(k, c). (k, cookie_value c)) (sendable fc schema authority path jar)"
proof -
  let ?cs = "sendable fc schema authority path jar"
  have p: "\<forall>(k, c) \<in> set ?cs. k = cookie_key c \<and> printable c"
    using assms(1) by (auto simp: jar_ok_def sendable_def)
  then have "\<forall>t \<in> set (jar_tokens ?cs). find_list ''; '' t = None"
    by (auto simp: jar_tokens_def printable_def cookie_token_def)
  moreover have "jar_tokens ?cs \<noteq> []" using assms(2) by (simp add: jar_tokens_def)
  ultimately have "tokenize_string (join ''; '' (jar_tokens ?cs)) ''; '' = jar_tokens ?cs"
    by (intro tokenize_join unbordered_cookie_delimiter)
  then show ?thesis
    using parse_printable [OF p, of a' "s' = ''https''" "[]"] by (simp add: parse_cookie_string_def)
qed

section \<open>Acceptance and sending, declaratively\<close>

lemma find_list_0_prefix: "find_list p s = Some 0 \<longleftrightarrow> take (length p) s = p"
  by (auto simp: find_list_Some occurs_at_def)

lemma rfind_suffix:
  assumes "d \<noteq> []"
  shows "(case str_rfind s d of None \<Rightarrow> False | Some pos \<Rightarrow> length s - pos = length d) \<longleftrightarrow> ends_with s d"
proof
  assume l: "case str_rfind s d of None \<Rightarrow> False | Some pos \<Rightarrow> length s - pos = length d"
  then obtain pos where r: "str_rfind s d = Some pos" and len: "length s - pos = length d"
    by (auto split: option.splits)
  then have "occurs_at d s pos" by (simp add: str_rfind_def rfind_from_Some)
  then have "take (length d) (drop pos s) = d" "pos \<le> length s" by (auto simp: occurs_at_def)
  with len show "ends_with s d" by (auto simp: ends_with_def)
next
  assume "ends_with s d"
  then obtain u where s: "s = u @ d" by (auto simp: ends_with_iff)
  have "\<not> occurs_at d s j" if "length u < j" for j
    using that occurs_at_bound [of d s j] s by auto
  moreover have "occurs_at d s (length u)" by (simp add: s occurs_at_def)
  ultimately have "str_rfind s d = Some (length u)"
    by (auto simp: str_rfind_def rfind_from_Some s)
  then show "case str_rfind s d of None \<Rightarrow> False | Some pos \<Rightarrow> length s - pos = length d"
    by (simp add: s)
qed

lemma allowed_iff:
  "is_cookie_allowed_to_be_sent c schema authority path \<longleftrightarrow>
    \<not> (cookie_secure c \<and> schema = ''http'') \<and>
    (if cookie_domain c = '''' then str_lower authority = cookie_origin c
     else ends_with (hd (tokenize_string (str_lower authority) '':'')) (cookie_domain c)) \<and>
    (cookie_path c = '''' \<or> path = '''' \<or> take (length (cookie_path c)) path = cookie_path c) \<and>
    (sameSite c = '''' \<or> sameSite c = ''None'' \<or> str_lower authority = cookie_origin c)"
proof -
  have "(case str_rfind h d of None \<Rightarrow> True | Some pos \<Rightarrow> length h - pos \<noteq> length d) \<longleftrightarrow> \<not> ends_with h d"
    if "d \<noteq> []" for h d
    using rfind_suffix [OF that, of h] by (auto split: option.splits)
  then show ?thesis
    unfolding is_cookie_allowed_to_be_sent_def Let_def str_find_0 find_list_0_prefix
    by (cases "cookie_domain c = []") auto
qed

section \<open>Properties\<close>

text \<open>C18: whatever responses a user receives, the jar it ends with is in the order of
  \<^verbatim>\<open>std::greater\<close>, and every cookie in it is stored under its own name, passed the acceptance
  test and prints to a \<^verbatim>\<open>name=value\<close> token that the parser reads back.\<close>

theorem cookie_jar_invariant:
  "jar_ok (foldl (\<lambda>jar (authority, schema, resp_headers).
     parse_and_save_cookies authority schema resp_headers jar) [] responses)"
  by (rule foldl_invariant [where P = jar_ok]) (auto simp: jar_ok_parse_and_save)

text \<open>C19: a cookie name with the prefix \<^verbatim>\<open>__Host-\<close> enters the jar only with the Secure
  attribute, from an https origin, without Domain and with Path=/; one with the prefix
  \<^verbatim>\<open>__Secure-\<close> only with Secure from an https origin; \<^verbatim>\<open>SameSite=None\<close> only with Secure.\<close>

theorem cookie_acceptance_rules:
  assumes "(k, c) \<in> set (parse_and_save_cookies authority schema resp_headers [])"
  shows "(take 7 k = ''__Host-'' \<longrightarrow> cookie_secure c \<and> schema = ''https'' \<and>
      cookie_domain c = '''' \<and> cookie_path c = ''/'') \<and>
    (take 9 k = ''__Secure-'' \<longrightarrow> cookie_secure c \<and> schema = ''https'') \<and>
    (sameSite c = ''None'' \<longrightarrow> cookie_secure c)"
proof -
  define P where "P jar \<longleftrightarrow> (\<forall>(k, c) \<in> set jar. k = cookie_key c \<and> is_cookie_acceptable c \<and>
      secure_origin c = (schema = ''https''))" for jar
  have one: "P (save_cookie jar c)" if "P jar" "secure_origin c = (schema = ''https'')" for jar c
    using that str_gt.set_omap_set [of jar "cookie_key c" c] by (auto simp: P_def save_cookie_def)
  have "P (foldl save_cookie jar (parse_cookie_string v authority schema))" if "P jar" for jar v
  proof (rule foldl_invariant [where P = P, OF that])
    fix jar c assume "c \<in> set (parse_cookie_string v authority schema)" "P jar"
    then show "P (save_cookie jar c)" by (intro one) (auto dest: parse_cookie_string_all simp: parsed_from_def)
  qed
  then have "P (save_cookies_of authority schema jar h)" if "P jar" for jar h
    using that by (simp add: save_cookies_of_def split: option.split)
  then have "P (parse_and_save_cookies authority schema resp_headers [])"
    unfolding parse_and_save_cookies_def by (intro foldl_invariant [where P = P]) (simp_all add: P_def)
  with assms
  have "k = cookie_key c" "is_cookie_acceptable c" "secure_origin c = (schema = ''https'')"
    by (auto simp: P_def)
  then show ?thesis
    by (auto simp: is_cookie_acceptable_def find_list_0_prefix eval_nat_numeral split: if_splits)
qed

theorem cookie_acceptance_rules_witness:
  "\<exists>c. (''__Host-a'', c) \<in> set (parse_and_save_cookies ''h'' ''https''
      [[(''set-cookie'', ''__Host-a=1; Secure; Path=/'')]] []) \<and> cookie_secure c"
proof -
  let ?jar = "parse_and_save_cookies ''h'' ''https''
      [[(''set-cookie'', ''__Host-a=1; Secure; Path=/'')]] []"
  have "length ?jar = 1 \<and> fst (hd ?jar) = ''__Host-a''" by code_simp
  then have m: "(''__Host-a'', snd (hd ?jar)) \<in> set ?jar"
    by (cases ?jar) auto
  from cookie_acceptance_rules [OF m] have "cookie_secure (snd (hd ?jar))" by simp
  with m show ?thesis by blast
qed




end
