(* ===== verification/Variables.thy ===== *)
theory Variables
  imports Tokens Ordered_Map
begin

text \<open>
  User variables (\<^verbatim>\<open>config_schema.h\<close>, \<^verbatim>\<open>h2load.h\<close>, \<^verbatim>\<open>h2load_utils.cc\<close> and
  \<^verbatim>\<open>base_client.cc\<close>): the variables of a scenario and their manager, templates with
  \<^verbatim>\<open>${name}\<close> references and their instantiation, the cursors that walk through the values of
  a client's users, and the CSV loader. The lemmas give the manager's invariant, that splitting
  a template loses nothing and that assembling it substitutes exactly the references, the
  order in which a cursor visits its range, and when the CSV loader works.
\<close>

section \<open>Generic variables\<close>

record generic_variable =
  var_name :: string
  range_start :: nat
  range_end :: nat
  var_value_list :: "string list list"
  full_range_len :: nat

text \<open>\<^verbatim>\<open>std::max_element(...)->size()\<close>: dereferences \<^verbatim>\<open>end()\<close> on an empty list.\<close>

fun max_size :: "string list list \<Rightarrow> nat result" where
  "max_size [] = Inl Null_Dereference"
| "max_size (x # xs) = Inr (foldl (\<lambda>m y. max m (length y)) (length x) xs)"

definition generic_variable_of_list :: "string \<Rightarrow> string list list \<Rightarrow> generic_variable result" where
  "generic_variable_of_list name value_list =
     andthen (max_size value_list) (\<lambda>m. Inr
       \<lparr> var_name = name, range_start = 0, range_end = m, var_value_list = value_list,
         full_range_len = 0 \<rparr>)"

definition generic_variable_of_range :: "string \<Rightarrow> nat \<Rightarrow> nat \<Rightarrow> generic_variable result" where
  "generic_variable_of_range name start end1 =
     (if end1 \<noteq> 0 \<and> end1 \<le> start then Inl Exit_Failure
      else Inr \<lparr> var_name = name, range_start = start, range_end = end1, var_value_list = [],
        full_range_len = length (utos end1) \<rparr>)"

text \<open>\<^verbatim>\<open>Generic_Variable::produce_value\<close>: a padding length below zero would wrap around and
  make the string constructor throw.\<close>

definition produce_value :: "generic_variable \<Rightarrow> nat \<Rightarrow> nat \<Rightarrow> string result" where
  "produce_value v col user_id =
    (if var_value_list v \<noteq> [] then
       (let colume = var_value_list v ! (col mod length (var_value_list v)) in
        if colume \<noteq> [] then Inr (colume ! (user_id mod length colume)) else Inr '''')
     else if range_start v < range_end v then
       (let s = utos user_id in
        if full_range_len v < length s then Inl Abort
        else Inr (replicate (full_range_len v - length s) (CHR ''0'') @ s))
     else Inr '''')"

definition estimate_value_size :: "generic_variable \<Rightarrow> nat \<Rightarrow> nat \<Rightarrow> nat" where
  "estimate_value_size v col user_id =
    (if var_value_list v \<noteq> [] then
       (let colume = var_value_list v ! (col mod length (var_value_list v)) in
        if colume \<noteq> [] then length (colume ! (user_id mod length colume)) else 0)
     else if range_start v < range_end v then full_range_len v
     else 0)"

section \<open>The variable manager\<close>

record variable_manager =
  generic_variables :: "generic_variable list"
  var_name_to_id :: "(string \<times> nat) list"

definition empty_variable_manager :: variable_manager where
  "empty_variable_manager = \<lparr> generic_variables = [], var_name_to_id = [] \<rparr>"

definition vm_insert :: "variable_manager \<Rightarrow> generic_variable \<Rightarrow> variable_manager" where
  "vm_insert vm v =
    (if omap_find str_less (var_name_to_id vm) (var_name v) = None then
       \<lparr> generic_variables = generic_variables vm @ [v],
         var_name_to_id =
           omap_set str_less (var_name_to_id vm) (var_name v) (length (var_name_to_id vm)) \<rparr>
     else vm)"

definition get_gen_var_id :: "variable_manager \<Rightarrow> string \<Rightarrow> nat option" where
  "get_gen_var_id vm name = omap_find str_less (var_name_to_id vm) name"

definition vm_produce_value :: "variable_manager \<Rightarrow> nat \<Rightarrow> nat \<Rightarrow> nat \<Rightarrow> string result" where
  "vm_produce_value vm var_id req_id user_id =
     andthen (vec_at (generic_variables vm) var_id) (\<lambda>v. produce_value v req_id user_id)"

definition vm_estimate_value_size :: "variable_manager \<Rightarrow> nat \<Rightarrow> nat \<Rightarrow> nat \<Rightarrow> nat result" where
  "vm_estimate_value_size vm var_id req_id user_id =
     andthen (vec_at (generic_variables vm) var_id)
       (\<lambda>v. Inr (estimate_value_size v req_id user_id))"

definition get_number_of_generic_variables :: "variable_manager \<Rightarrow> nat" where
  "get_number_of_generic_variables vm = length (var_name_to_id vm)"

definition var_range_start :: "variable_manager \<Rightarrow> nat \<Rightarrow> nat result" where
  "var_range_start vm var_id = andthen (vec_at (generic_variables vm) var_id) (\<lambda>v. Inr (range_start v))"

definition var_range_end :: "variable_manager \<Rightarrow> nat \<Rightarrow> nat result" where
  "var_range_end vm var_id = andthen (vec_at (generic_variables vm) var_id) (\<lambda>v. Inr (range_end v))"

definition get_var_name :: "variable_manager \<Rightarrow> nat \<Rightarrow> string result" where
  "get_var_name vm var_id = andthen (vec_at (generic_variables vm) var_id) (\<lambda>v. Inr (var_name v))"

section \<open>Templates\<close>

record string_with_variables =
  string_segments :: "string list"
  variable_ids_in_between :: "nat list"

definition empty_string_with_variables :: string_with_variables where
  "empty_string_with_variables = \<lparr> string_segments = [], variable_ids_in_between = [] \<rparr>"

text \<open>\<^verbatim>\<open>variable_present\<close>: the positions of the next \<^verbatim>\<open>${\<close> and of the closing brace.\<close>

definition variable_present :: "string \<Rightarrow> nat \<Rightarrow> (nat \<times> nat) option" where
  "variable_present source start_offset =
    (if sub64 (length source) 1 \<le> start_offset then None
     else case str_find source ''${'' start_offset of
         None \<Rightarrow> None
       | Some var_start \<Rightarrow>
           (case str_find source ''}'' var_start of
              None \<Rightarrow> None
            | Some var_end \<Rightarrow> if var_end < var_start then None else Some (var_start, var_end)))"

lemma variable_present_SomeD:
  assumes "variable_present source off = Some (s, e)"
  shows "off \<le> s" "s + 2 \<le> e" "e < length source" "occurs_at ''${'' source s" "occurs_at ''}'' source e"
    "\<And>j. s \<le> j \<Longrightarrow> j < e \<Longrightarrow> \<not> occurs_at ''}'' source j"
proof -
  from assms have s: "str_find source ''${'' off = Some s" and e: "str_find source ''}'' s = Some e"
    by (auto simp: variable_present_def split: if_splits option.splits)
  note sd = str_find_SomeD [OF s] and ed = str_find_SomeD [OF e]
  show "off \<le> s" "occurs_at ''${'' source s" "occurs_at ''}'' source e"
    using sd ed by auto
  show "e < length source" using ed(3) by simp
  show "\<And>j. s \<le> j \<Longrightarrow> j < e \<Longrightarrow> \<not> occurs_at ''}'' source j" by (rule ed(4))
  from sd(2) obtain ys zs where src: "source = ys @ ''${'' @ zs" "length ys = s"
    by (auto simp: occurs_at_split)
  have "e \<noteq> s" "e \<noteq> Suc s" using ed(2) src by (auto simp: occurs_at_def)
  with ed(1) show "s + 2 \<le> e" by simp
qed

lemma variable_present_progress:
  "variable_present source off = Some (s, e) \<Longrightarrow> length source - Suc e < length source - off"
  using variable_present_SomeD(1-3) [of source off s e] by linarith

text \<open>The loop of \<^verbatim>\<open>split_string_and_var\<close> from \<open>offset\<close>.\<close>

function split_from :: "(string \<Rightarrow> nat result) \<Rightarrow> string \<Rightarrow> nat \<Rightarrow> string_with_variables
    \<Rightarrow> string_with_variables result" where
  "split_from lookup source offset result =
    (case variable_present source offset of
       None \<Rightarrow> Inr (result \<lparr> string_segments := string_segments result @ [substr_from source offset] \<rparr>)
     | Some (var_start, var_end) \<Rightarrow>
         (let segment = substr source offset (var_start - offset);
              name = substr source (var_start + 2) (var_end - (var_start + 2)) in
          case lookup name of
            Inl e \<Rightarrow> Inl e
          | Inr var_unique_id \<Rightarrow>
              split_from lookup source (var_end + 1)
                \<lparr> string_segments = string_segments result @ [segment],
                  variable_ids_in_between = variable_ids_in_between result @ [var_unique_id] \<rparr>))"
  by pat_completeness auto
termination
  by (relation "measure (\<lambda>(lookup, source, offset, result). length source - offset)")
    (auto intro: variable_present_progress)

declare split_from.simps [simp del]

definition split_string_and_var :: "string \<Rightarrow> variable_manager \<Rightarrow> string_with_variables
    \<Rightarrow> string_with_variables result" where
  "split_string_and_var source vm result =
     split_from (\<lambda>name. case get_gen_var_id vm name of None \<Rightarrow> Inl Exit_Failure | Some i \<Rightarrow> Inr i)
       source 0 result"

text \<open>\<^verbatim>\<open>split_string\<close>, the variant of the mock server, asserts that the name is known.\<close>

definition split_string :: "string \<Rightarrow> (string \<times> nat) list \<Rightarrow> string_with_variables
    \<Rightarrow> string_with_variables result" where
  "split_string source var_id_map result =
     split_from (\<lambda>name. case omap_find str_less var_id_map name of None \<Rightarrow> Inl Assertion | Some i \<Rightarrow> Inr i)
       source 0 result"

text \<open>\<^verbatim>\<open>base_client::assemble_string\<close>: \<open>npick\<close> is \<^verbatim>\<open>number_of_variables_from_value_pickers\<close>,
  the last two arguments the values and the ids of the user.\<close>

definition value_of_var :: "variable_manager \<Rightarrow> nat \<Rightarrow> nat \<Rightarrow> string list \<Rightarrow> nat list \<Rightarrow> nat \<Rightarrow> string result" where
  "value_of_var vm npick req_index variable_index_to_value user_ids var_id =
     (if var_id < npick then vec_at variable_index_to_value var_id
      else andthen (vec_at user_ids var_id) (\<lambda>u. vm_produce_value vm var_id req_index u))"

fun append_segments :: "(nat \<Rightarrow> string result) \<Rightarrow> string list \<Rightarrow> nat list \<Rightarrow> string \<Rightarrow> string result" where
  "append_segments value_of segments [] acc = Inr acc"
| "append_segments value_of [] (v # vs) acc = Inl Out_Of_Range"
| "append_segments value_of (s # ss) (v # vs) acc =
     andthen (value_of v) (\<lambda>x. append_segments value_of ss vs (acc @ s @ x))"

definition assemble_string :: "variable_manager \<Rightarrow> nat \<Rightarrow> string_with_variables \<Rightarrow> nat \<Rightarrow>
    string list \<Rightarrow> nat list \<Rightarrow> string result" where
  "assemble_string vm npick source req_index variable_index_to_value user_ids =
     andthen (append_segments (value_of_var vm npick req_index variable_index_to_value user_ids)
         (string_segments source) (variable_ids_in_between source) [])
       (\<lambda>acc. if string_segments source = [] then Inl Null_Dereference
              else Inr (acc @ last (string_segments source)))"

section \<open>Cursors over the values\<close>

record scenario_data_per_client =
  req_variable_values_start :: "nat list"
  req_variable_values_end :: "nat list"
  curr_req_variable_values :: "nat list"

definition inc_one :: "nat \<Rightarrow> nat \<Rightarrow> nat \<Rightarrow> nat" where
  "inc_one start end1 cur =
    (if end1 \<le> start then cur
     else let cur' = add64 cur 1 in if end1 \<le> cur' then start else cur')"

text \<open>\<^verbatim>\<open>inc_var\<close> on the three vectors, which have one entry per variable.\<close>

fun inc_vars :: "nat list \<Rightarrow> nat list \<Rightarrow> nat list \<Rightarrow> nat list result" where
  "inc_vars [] es cs = Inr cs"
| "inc_vars (s # ss) (e # es) (c # cs) =
     andthen (inc_vars ss es cs) (\<lambda>r. Inr (inc_one s e c # r))"
| "inc_vars (s # ss) es cs = Inl Out_Of_Range"

definition inc_var :: "scenario_data_per_client \<Rightarrow> scenario_data_per_client result" where
  "inc_var d =
     andthen (inc_vars (req_variable_values_start d) (req_variable_values_end d)
         (curr_req_variable_values d))
       (\<lambda>r. Inr (d \<lparr> curr_req_variable_values := r \<rparr>))"

definition get_curr_vars :: "scenario_data_per_client \<Rightarrow> nat list" where
  "get_curr_vars d = curr_req_variable_values d"

section \<open>Reading CSV files\<close>

text \<open>\<^verbatim>\<open>std::getline(stream, cell, sep)\<close> until it fails: a separator at the very end
  opens no further cell.\<close>

fun cells_from :: "char \<Rightarrow> string \<Rightarrow> string \<Rightarrow> string list" where
  "cells_from sep acc [] = (if acc = [] then [] else [acc])"
| "cells_from sep acc (c # s) =
     (if c = sep then acc # cells_from sep [] s else cells_from sep (acc @ [c]) s)"

definition getlines :: "char \<Rightarrow> string \<Rightarrow> string list" where
  "getlines sep s = cells_from sep [] s"

definition strip_cr :: "string \<Rightarrow> string" where
  "strip_cr line = (if line \<noteq> [] \<and> last line = CHR 0x0D then butlast line else line)"

text \<open>\<^verbatim>\<open>read_csv_file\<close>: \<open>content\<close> is \<open>None\<close> when the file cannot be opened; the first line is
  dropped.\<close>

definition read_csv_file :: "string option \<Rightarrow> string list list" where
  "read_csv_file content =
    (case content of None \<Rightarrow> []
     | Some text \<Rightarrow> map (\<lambda>line. getlines (CHR '','') (strip_cr line)) (tl (getlines (CHR 0x0A) text)))"

text \<open>The two loops that are meant to bring a row to \<open>n\<close> cells; both re-evaluate
  \<^verbatim>\<open>row.size()\<close> in their condition.\<close>

function pad_row :: "nat \<Rightarrow> nat \<Rightarrow> string list \<Rightarrow> string list" where
  "pad_row i n row = (if i < n - length row then pad_row (i + 1) n (row @ ['''']) else row)"
  by pat_completeness auto
termination by (relation "measure (\<lambda>(i, n, row). n - length row - i)") auto

function pop_row :: "nat \<Rightarrow> nat \<Rightarrow> string list \<Rightarrow> string list" where
  "pop_row i n row = (if i < length row - n then pop_row (i + 1) n (butlast row) else row)"
  by pat_completeness auto
termination by (relation "measure (\<lambda>(i, n, row). length row)") auto

declare pad_row.simps [simp del] pop_row.simps [simp del]

definition fit_row :: "nat \<Rightarrow> string list \<Rightarrow> string list" where
  "fit_row n row = (if length row < n then pad_row 0 n row else pop_row 0 n row)"

definition utf8_bom :: string where
  "utf8_bom = [CHR 0xEF, CHR 0xBB, CHR 0xBF]"

fun column :: "nat \<Rightarrow> string list list \<Rightarrow> string list result" where
  "column index [] = Inr []"
| "column index (row # rows) =
     andthen (vec_at row index) (\<lambda>c. andthen (column index rows) (\<lambda>cs. Inr (c # cs)))"

fun insert_columns :: "string list list \<Rightarrow> nat \<Rightarrow> string list \<Rightarrow> variable_manager
    \<Rightarrow> variable_manager result" where
  "insert_columns rows index [] vm = Inr vm"
| "insert_columns rows index (name # names) vm =
     andthen (column index rows) (\<lambda>c.
     andthen (generic_variable_of_list name [c]) (\<lambda>v.
       insert_columns rows (index + 1) names (vm_insert vm v)))"

text \<open>\<^verbatim>\<open>load_generic_variables_from_csv_file\<close>; \<open>trim\<close> is \<^verbatim>\<open>boost::trim\<close>. A file without any line
  leaves \<^verbatim>\<open>line\<close> empty.\<close>

definition load_generic_variables_from_csv_file ::
  "(string \<Rightarrow> string) \<Rightarrow> string option \<Rightarrow> variable_manager \<Rightarrow> variable_manager result" where
  "load_generic_variables_from_csv_file trim content vm =
    (case content of None \<Rightarrow> Inr vm
     | Some text \<Rightarrow>
         (let ls = getlines (CHR 0x0A) text;
              line = (if ls = [] then [] else hd ls);
              line = (if str_find line utf8_bom 0 = Some 0 then substr_from line (length utf8_bom) else line);
              variable_names = map trim (getlines (CHR '','') line);
              rows = map (\<lambda>l. fit_row (length variable_names) (getlines (CHR '','') (strip_cr l))) (tl ls) in
          insert_columns rows 0 variable_names vm))"

section \<open>The manager's invariant\<close>

definition gv_ok :: "generic_variable \<Rightarrow> bool" where
  "gv_ok v \<longleftrightarrow> (var_value_list v = [] \<longrightarrow> full_range_len v = length (utos (range_end v)))"

definition vm_ok :: "variable_manager \<Rightarrow> bool" where
  "vm_ok vm \<longleftrightarrow> omap_ok str_less (var_name_to_id vm) \<and>
     length (var_name_to_id vm) = length (generic_variables vm) \<and>
     (\<forall>(n, i) \<in> set (var_name_to_id vm). i < length (generic_variables vm) \<and>
        var_name (generic_variables vm ! i) = n) \<and>
     (\<forall>v \<in> set (generic_variables vm). gv_ok v)"

lemma vm_ok_empty [simp]: "vm_ok empty_variable_manager"
  by (simp add: vm_ok_def empty_variable_manager_def omap_ok_def)

lemma length_omap_set_new:
  "omap_find lt m k = None \<Longrightarrow> omap_ok lt m \<Longrightarrow> length (omap_set lt m k v) = Suc (length m)"
  by (induction m) (auto simp: omap_ok_def split: if_splits)

lemma vm_ok_insert:
  assumes "vm_ok vm" "gv_ok v"
  shows "vm_ok (vm_insert vm v)"
proof (cases "omap_find str_less (var_name_to_id vm) (var_name v)")
  case None
  let ?m = "omap_set str_less (var_name_to_id vm) (var_name v) (length (var_name_to_id vm))"
  have "set ?m \<subseteq> insert (var_name v, length (generic_variables vm)) (set (var_name_to_id vm))"
    using assms(1) str.set_omap_set [of "var_name_to_id vm" "var_name v" "length (var_name_to_id vm)"]
    by (auto simp: vm_ok_def)
  moreover have "length ?m = Suc (length (generic_variables vm))"
    using assms(1) None by (simp add: vm_ok_def length_omap_set_new)
  ultimately show ?thesis
    using assms None by (fastforce simp: vm_ok_def vm_insert_def str.omap_ok_set nth_append)
next
  case (Some i)
  with assms show ?thesis by (simp add: vm_insert_def)
qed

lemma get_gen_var_id_Some:
  assumes "vm_ok vm" "get_gen_var_id vm n = Some i"
  shows "i < length (generic_variables vm)" "var_name (generic_variables vm ! i) = n"
  using assms str.find_SomeD [of "var_name_to_id vm" n i]
  by (auto simp: get_gen_var_id_def vm_ok_def)

lemma get_gen_var_id_insert:
  assumes "vm_ok vm"
  shows "get_gen_var_id (vm_insert vm v) n =
    (case get_gen_var_id vm n of
       Some i \<Rightarrow> Some i
     | None \<Rightarrow> if n = var_name v then Some (length (generic_variables vm)) else None)"
  using assms by (auto simp: get_gen_var_id_def vm_insert_def vm_ok_def str.find_set
      split: option.split if_splits)

lemma gv_ok_of_list: "generic_variable_of_list n vl = Inr v \<Longrightarrow> gv_ok v"
  by (cases vl) (auto simp: generic_variable_of_list_def gv_ok_def)

lemma gv_ok_of_range: "generic_variable_of_range n s e = Inr v \<Longrightarrow> gv_ok v"
  by (auto simp: generic_variable_of_range_def gv_ok_def split: if_splits)

lemma var_name_of_list: "generic_variable_of_list n vl = Inr v \<Longrightarrow> var_name v = n"
  by (auto simp: generic_variable_of_list_def)

lemma vm_ok_insert_columns:
  "insert_columns rows i names vm = Inr vm' \<Longrightarrow> vm_ok vm \<Longrightarrow> vm_ok vm'"
  by (induction names arbitrary: i vm) (auto simp: vm_ok_insert gv_ok_of_list)

section \<open>Splitting and assembling\<close>

definition var_ref :: "string \<Rightarrow> string" where
  "var_ref n = ''${'' @ n @ ''}''"

lemma drop_split_reference:
  assumes "variable_present source off = Some (s, e)"
  shows "drop off source = substr source off (s - off) @
    var_ref (substr source (s + 2) (e - (s + 2))) @ drop (e + 1) source"
proof -
  note vp = variable_present_SomeD [OF assms]
  have d0: "drop off source = substr source off (s - off) @ drop s source"
    using vp(1) by (simp add: substr_def) (metis append_take_drop_id drop_drop le_add_diff_inverse2)
  from vp(4) have d1: "drop s source = ''${'' @ drop (s + 2) source"
    by (metis (no_types, lifting) append_take_drop_id drop_drop occurs_at_def
        length_Cons list.size(3) numeral_2_eq_2 add.commute)
  have d2: "drop (s + 2) source = substr source (s + 2) (e - (s + 2)) @ drop e source"
    using vp(2) by (simp add: substr_def) (metis append_take_drop_id drop_drop le_add_diff_inverse2)
  from vp(5) have d3: "drop e source = ''}'' @ drop (e + 1) source"
    by (metis (no_types, lifting) append_take_drop_id drop_drop occurs_at_def
        length_Cons list.size(3) One_nat_def add.commute)
  show ?thesis
    unfolding var_ref_def using d0 d1 d2 d3 by (metis append.assoc)
qed

lemma split_from_spec:
  "split_from lookup source off res = Inr sw \<Longrightarrow> off \<le> length source \<Longrightarrow>
   \<exists>segs names ids.
     sw = res \<lparr> string_segments := string_segments res @ segs,
                variable_ids_in_between := variable_ids_in_between res @ ids \<rparr> \<and>
     length segs = Suc (length names) \<and> list_all2 (\<lambda>n i. lookup n = Inr i) names ids \<and>
     weave segs (map var_ref names) = drop off source"
proof (induction lookup source off res rule: split_from.induct)
  case (1 lookup source off res)
  show ?case
  proof (cases "variable_present source off")
    case None
    with 1 have "sw = res \<lparr> string_segments := string_segments res @ [substr_from source off] \<rparr>"
      by (simp add: split_from.simps)
    then show ?thesis
      by (intro exI [of _ "[substr_from source off]"] exI [of _ "[]"]) (simp add: substr_from_def)
  next
    case (Some se)
    obtain s e where se: "se = (s, e)" by force
    let ?seg = "substr source off (s - off)" and ?name = "substr source (s + 2) (e - (s + 2))"
    from 1 Some se obtain i where i: "lookup ?name = Inr i"
      and rec: "split_from lookup source (e + 1)
        \<lparr> string_segments = string_segments res @ [?seg],
          variable_ids_in_between = variable_ids_in_between res @ [i] \<rparr> = Inr sw"
      by (auto simp: split_from.simps [of lookup source off] Let_def split: sum.splits)
    have le: "e + 1 \<le> length source" using variable_present_SomeD(3) [of source off s e] Some se by simp
    from 1(1) [OF Some se [symmetric] refl refl i rec le] obtain segs names ids where
      sw: "sw = \<lparr> string_segments = (string_segments res @ [?seg]) @ segs,
          variable_ids_in_between = (variable_ids_in_between res @ [i]) @ ids \<rparr>"
      and len: "length segs = Suc (length names)"
      and all: "list_all2 (\<lambda>n i. lookup n = Inr i) names ids"
      and w: "weave segs (map var_ref names) = drop (e + 1) source"
      by auto
    show ?thesis
      using sw len all w i drop_split_reference [of source off s e] Some se
      by (intro exI [of _ "?seg # segs"] exI [of _ "?name # names"] exI [of _ "i # ids"]) simp
  qed
qed

lemma append_segments_weave:
  "length segs = Suc (length ids) \<Longrightarrow> list_all2 (\<lambda>i v. value_of i = Inr v) ids vals \<Longrightarrow>
    andthen (append_segments value_of segs ids acc) (\<lambda>a. Inr (a @ last segs)) =
      Inr (acc @ weave segs vals)"
proof (induction ids arbitrary: segs vals acc)
  case Nil
  then show ?case by (cases segs) auto
next
  case (Cons i ids)
  from Cons.prems(2) obtain v vs where "vals = v # vs" "value_of i = Inr v"
    "list_all2 (\<lambda>i v. value_of i = Inr v) ids vs"
    by (auto simp: list_all2_Cons1)
  moreover from Cons.prems(1) obtain s ss where "segs = s # ss" "length ss = Suc (length ids)"
    by (cases segs) auto
  ultimately show ?case using Cons.IH [of ss vs "acc @ s @ v"] by (cases ss) auto
qed

lemma assemble_weave:
  assumes "length (string_segments sw) = Suc (length (variable_ids_in_between sw))"
    and "list_all2 (\<lambda>i v. value_of_var vm npick req vals uids i = Inr v)
      (variable_ids_in_between sw) vs"
  shows "assemble_string vm npick sw req vals uids = Inr (weave (string_segments sw) vs)"
  using append_segments_weave [OF assms, of "[]"] assms(1)
  by (cases "string_segments sw = []") (auto simp: assemble_string_def andthen_eq_Inr)

section \<open>Values\<close>

lemma produce_value_padded:
  assumes "gv_ok v" "var_value_list v = []" "range_start v < range_end v" "user_id \<le> range_end v"
  shows "\<exists>s. produce_value v col user_id = Inr s \<and> length s = full_range_len v \<and>
    list_all is_digit s \<and> digits_val s = user_id"
proof -
  have le: "length (utos user_id) \<le> full_range_len v"
    using assms length_utos_mono by (auto simp: gv_ok_def)
  have zeros: "digits_val (replicate n (CHR ''0'') @ s) = digits_val s" for n s
  proof (induction n)
    case (Suc n)
    have "digit_val (CHR ''0'') = 0" by code_simp
    with Suc show ?case by (simp add: digits_val_def)
  qed simp
  let ?s = "replicate (full_range_len v - length (utos user_id)) (CHR ''0'') @ utos user_id"
  have "is_digit (CHR ''0'')" by code_simp
  then have "list_all is_digit ?s" using utos_digits [of user_id] by (auto simp: list_all_iff)
  moreover have "produce_value v col user_id = Inr ?s"
    using assms le by (simp add: produce_value_def Let_def)
  moreover have "digits_val ?s = user_id" using zeros by simp
  moreover have "length ?s = full_range_len v" using le by simp
  ultimately show ?thesis by blast
qed

lemma produce_value_ok:
  assumes "gv_ok v" "var_value_list v = [] \<Longrightarrow> range_start v < range_end v \<Longrightarrow> user_id \<le> range_end v"
  shows "ok (produce_value v col user_id)"
proof (cases "var_value_list v = [] \<and> range_start v < range_end v")
  case True
  with assms produce_value_padded [of v user_id col] show ?thesis by (auto simp: ok_iff)
next
  case False
  then show ?thesis by (auto simp: produce_value_def Let_def)
qed

text \<open>The data of a user fits the variables: one value and one id per variable, and the id of
  a range variable within its range.\<close>

definition user_fits :: "variable_manager \<Rightarrow> string list \<Rightarrow> nat list \<Rightarrow> bool" where
  "user_fits vm vals uids \<longleftrightarrow>
     length vals = length (generic_variables vm) \<and> length uids = length (generic_variables vm) \<and>
     (\<forall>i < length uids. range_start (generic_variables vm ! i) < range_end (generic_variables vm ! i)
        \<longrightarrow> uids ! i \<le> range_end (generic_variables vm ! i))"

lemma value_of_var_ok:
  assumes "vm_ok vm" "user_fits vm vals uids" "i < length (generic_variables vm)"
  shows "ok (value_of_var vm npick req vals uids i)"
proof -
  have "gv_ok (generic_variables vm ! i)" using assms by (auto simp: vm_ok_def)
  with assms have "ok (produce_value (generic_variables vm ! i) req (uids ! i))"
    by (intro produce_value_ok) (auto simp: user_fits_def)
  with assms show ?thesis
    by (auto simp: value_of_var_def vm_produce_value_def user_fits_def vec_at_lt)
qed

section \<open>Cursors\<close>

definition cursor_ok :: "scenario_data_per_client \<Rightarrow> bool" where
  "cursor_ok d \<longleftrightarrow>
     length (req_variable_values_end d) = length (req_variable_values_start d) \<and>
     length (curr_req_variable_values d) = length (req_variable_values_start d) \<and>
     (\<forall>i < length (req_variable_values_start d).
        req_variable_values_end d ! i < 2 ^ 64 \<and>
        (req_variable_values_start d ! i < req_variable_values_end d ! i \<longrightarrow>
           req_variable_values_start d ! i \<le> curr_req_variable_values d ! i \<and>
           curr_req_variable_values d ! i < req_variable_values_end d ! i))"

lemma inc_vars_eq:
  "length es = length ss \<Longrightarrow> length cs = length ss \<Longrightarrow>
    inc_vars ss es cs = Inr (map (\<lambda>i. inc_one (ss ! i) (es ! i) (cs ! i)) [0..<length ss])"
proof (induction ss es cs rule: inc_vars.induct)
  case (2 s ss e es c cs)
  then show ?case by (simp add: upt_conv_Cons map_Suc_upt [symmetric] del: upt_Suc)
qed auto

lemma inc_one_step:
  assumes "s \<le> c" "c < e" "e < 2 ^ 64"
  shows "inc_one s e c = s + (c - s + 1) mod (e - s)"
proof -
  have a: "add64 c 1 = c + 1" using assms by (intro add64_id) simp
  show ?thesis
  proof (cases "c + 1 = e")
    case True
    with assms a have "c - s + 1 = e - s" "inc_one s e c = s" by (auto simp: inc_one_def)
    then show ?thesis by simp
  next
    case False
    with assms have "c - s + 1 < e - s" by linarith
    with assms a False show ?thesis by (auto simp: inc_one_def)
  qed
qed

lemma inc_one_iterate:
  assumes "s \<le> c" "c < e" "e < 2 ^ 64"
  shows "(inc_one s e ^^ n) c = s + (c - s + n) mod (e - s)"
proof (induction n)
  case 0
  with assms show ?case by simp
next
  case (Suc n)
  have pos: "0 < e - s" using assms by simp
  let ?d = "s + (c - s + n) mod (e - s)"
  have "?d < e" using pos assms by (metis le_add_diff_inverse less_imp_le_nat mod_less_divisor
        nat_add_left_cancel_less order_le_less_trans)
  then have "inc_one s e ?d = s + (?d - s + 1) mod (e - s)"
    using assms by (intro inc_one_step) auto
  with Suc show ?case by (simp add: mod_simps)
qed

lemma inc_var_ok:
  assumes "cursor_ok d"
  shows "\<exists>d'. inc_var d = Inr d' \<and> cursor_ok d'"
proof -
  let ?f = "\<lambda>i. inc_one (req_variable_values_start d ! i) (req_variable_values_end d ! i)
      (curr_req_variable_values d ! i)"
  have "inc_var d = Inr (d \<lparr> curr_req_variable_values :=
      map ?f [0..<length (req_variable_values_start d)] \<rparr>)"
    using assms by (simp add: inc_var_def cursor_ok_def inc_vars_eq)
  moreover have "s \<le> inc_one s e c \<and> inc_one s e c < e" if "s < e" "s \<le> c" "c < e" "e < 2 ^ 64" for s c e
    using that inc_one_step [of s c e] mod_less_divisor [of "e - s" "c - s + 1"] by linarith
  ultimately show ?thesis using assms by (simp add: cursor_ok_def)
qed

section \<open>CSV rows\<close>

lemma length_pad_row:
  "length row + i \<le> n \<Longrightarrow> length (pad_row i n row) = length row + (n - length row - i + 1) div 2"
proof (induction i n row rule: pad_row.induct)
  case (1 i n row)
  show ?case
  proof (cases "i < n - length row")
    case True
    show ?thesis
    proof (cases "length row + i + 1 = n")
      case last: True
      then have "\<not> i + 1 < n - length (row @ [''''])" by simp
      then have "pad_row i n row = row @ ['''']"
        using True by (simp add: pad_row.simps [of i] pad_row.simps [of "Suc i"])
      moreover have "n - length row - i + 1 = 2" using last by linarith
      ultimately show ?thesis by simp
    next
      case False
      with True have "length (row @ ['''']) + (i + 1) \<le> n" by simp
      with 1 True have "length (pad_row (i + 1) n (row @ [''''])) =
          length (row @ ['''']) + (n - length (row @ ['''']) - (i + 1) + 1) div 2"
        by blast
      moreover have "n - length row - i + 1 = (n - length (row @ ['''']) - (i + 1) + 1) + 2"
        using False True by simp
      ultimately show ?thesis using True by (simp add: pad_row.simps [of i])
    qed
  next
    case False
    with 1 show ?thesis by (simp add: pad_row.simps)
  qed
qed

lemma length_pop_row:
  "n \<le> length row \<Longrightarrow> i \<le> length row - n \<Longrightarrow>
    n \<le> length (pop_row i n row)"
proof (induction i n row rule: pop_row.induct)
  case (1 i n row)
  show ?case
  proof (cases "i < length row - n")
    case True
    then have "n \<le> length (butlast row)" by simp
    show ?thesis
    proof (cases "i + 1 \<le> length (butlast row) - n")
      case le: True
      with 1 True \<open>n \<le> length (butlast row)\<close> show ?thesis by (simp add: pop_row.simps [of i])
    next
      case False
      then have "pop_row (i + 1) n (butlast row) = butlast row" by (simp add: pop_row.simps)
      with True \<open>n \<le> length (butlast row)\<close> show ?thesis by (simp add: pop_row.simps [of i])
    qed
  next
    case False
    with 1 show ?thesis by (simp add: pop_row.simps)
  qed
qed

lemma fit_row_length:
  "n \<le> length (fit_row n row) \<longleftrightarrow> n \<le> length row + 1"
proof (cases "length row < n")
  case True
  then have "length (fit_row n row) = length row + (n - length row + 1) div 2"
    by (simp add: fit_row_def length_pad_row)
  with True show ?thesis by (simp, presburger)
next
  case False
  then show ?thesis using length_pop_row [of n row 0] by (simp add: fit_row_def)
qed

lemma ok_column: "ok (column i rows) \<longleftrightarrow> (\<forall>row \<in> set rows. i < length row)"
  by (induction rows) (auto simp: ok_andthen ok_iff vec_at_def)

lemma ok_insert_columns:
  "ok (insert_columns rows i names vm) \<longleftrightarrow>
    names = [] \<or> (\<forall>row \<in> set rows. i + length names \<le> length row)"
proof (induction names arbitrary: i vm)
  case (Cons name names)
  have "ok (insert_columns rows i (name # names) vm) \<longleftrightarrow> ok (column i rows) \<and>
      (names = [] \<or> (\<forall>row \<in> set rows. i + 1 + length names \<le> length row))"
    using Cons.IH [of "i + 1"]
    by (cases "column i rows") (auto simp: ok_andthen generic_variable_of_list_def)
  then show ?case by (cases names) (auto simp: ok_column Suc_le_eq)
qed simp

section \<open>Properties\<close>



text \<open>C22: the loaded value of a range variable always has the width of the range's end, consists
  of digits and reads back as the user's id.\<close>

theorem range_value_roundtrip:
  assumes "generic_variable_of_range name start end1 = Inr v" and "start < end1" and "user_id \<le> end1"
  shows "\<exists>s. produce_value v col user_id = Inr s \<and> length s = estimate_value_size v col user_id \<and>
    length s = length (utos end1) \<and> list_all is_digit s \<and> digits_val s = user_id"
proof -
  from assms have v: "gv_ok v" "var_value_list v = []" "range_start v = start" "range_end v = end1"
    "full_range_len v = length (utos end1)"
    by (auto simp: generic_variable_of_range_def gv_ok_def split: if_splits)
  with assms produce_value_padded [of v user_id col] show ?thesis
    by (auto simp: estimate_value_size_def)
qed

theorem range_value_roundtrip_witness:
  "\<exists>v s. generic_variable_of_range ''id'' 5 120 = Inr v \<and> produce_value v 0 7 = Inr s \<and>
     length s = 3 \<and> digits_val s = 7"
proof -
  obtain v where v: "generic_variable_of_range ''id'' 5 120 = Inr v"
    by (simp add: generic_variable_of_range_def)
  have "length (utos 120) = 3" by code_simp
  with v range_value_roundtrip [OF v, of 7 0] show ?thesis by auto
qed

text \<open>C21: after \<open>n\<close> users have been started, each variable of a client stands \<open>n\<close> places further
  in its range, cyclically: every value of the range is used before one is used again.\<close>

theorem cursor_cycles:
  assumes "cursor_ok d" and "i < length (req_variable_values_start d)"
    and "req_variable_values_start d ! i < req_variable_values_end d ! i"
  shows "\<exists>d'. ((\<lambda>r. andthen r inc_var) ^^ n) (Inr d) = Inr d' \<and> cursor_ok d' \<and>
    get_curr_vars d' ! i = req_variable_values_start d ! i +
      (get_curr_vars d ! i - req_variable_values_start d ! i + n)
        mod (req_variable_values_end d ! i - req_variable_values_start d ! i)"
proof -
  let ?s = "req_variable_values_start d" and ?e = "req_variable_values_end d"
  have "\<exists>d'. ((\<lambda>r. andthen r inc_var) ^^ n) (Inr d) = Inr d' \<and> cursor_ok d' \<and>
      req_variable_values_start d' = ?s \<and> req_variable_values_end d' = ?e \<and>
      curr_req_variable_values d' ! i = (inc_one (?s ! i) (?e ! i) ^^ n) (curr_req_variable_values d ! i)"
  proof (induction n)
    case 0
    with assms show ?case by simp
  next
    case (Suc n)
    then obtain d1 where d1: "((\<lambda>r. andthen r inc_var) ^^ n) (Inr d) = Inr d1" "cursor_ok d1"
      "req_variable_values_start d1 = ?s" "req_variable_values_end d1 = ?e"
      "curr_req_variable_values d1 ! i = (inc_one (?s ! i) (?e ! i) ^^ n) (curr_req_variable_values d ! i)"
      by blast
    moreover obtain d2 where d2: "inc_var d1 = Inr d2" "cursor_ok d2"
      using inc_var_ok [OF d1(2)] by blast
    moreover have "inc_vars ?s ?e (curr_req_variable_values d1) =
        Inr (map (\<lambda>i. inc_one (?s ! i) (?e ! i) (curr_req_variable_values d1 ! i)) [0..<length ?s])"
      using d1 by (intro inc_vars_eq) (auto simp: cursor_ok_def)
    ultimately have "d2 = d1 \<lparr> curr_req_variable_values := map (\<lambda>i. inc_one (?s ! i) (?e ! i)
        (curr_req_variable_values d1 ! i)) [0..<length ?s] \<rparr>"
      by (simp add: inc_var_def)
    with d1 d2 assms(2) show ?case by (intro exI [of _ d2]) simp
  qed
  moreover have "(inc_one (?s ! i) (?e ! i) ^^ n) (curr_req_variable_values d ! i) =
      ?s ! i + (curr_req_variable_values d ! i - ?s ! i + n) mod (?e ! i - ?s ! i)"
    using assms by (intro inc_one_iterate) (auto simp: cursor_ok_def)
  ultimately show ?thesis by (auto simp: get_curr_vars_def)
qed

theorem cursor_cycles_witness:
  "\<exists>d'. ((\<lambda>r. andthen r inc_var) ^^ 4) (Inr \<lparr> req_variable_values_start = [3],
      req_variable_values_end = [6], curr_req_variable_values = [4] \<rparr>) = Inr d' \<and>
    get_curr_vars d' ! 0 = 5"
proof -
  let ?d = "\<lparr> req_variable_values_start = [3], req_variable_values_end = [6],
      curr_req_variable_values = [4] \<rparr>"
  have "cursor_ok ?d" by (simp add: cursor_ok_def)
  from cursor_cycles [OF this, of 0 4] show ?thesis by (auto simp: get_curr_vars_def)
qed

text \<open>C23: the CSV loader reads a file exactly when no data row lacks more than one of the
  columns named in the first line; with two cells missing it reads past the end of the row,
  because the padding loop re-evaluates the shrinking difference it counts up to.\<close>

theorem csv_loads_iff:
  "ok (load_generic_variables_from_csv_file trim (Some text) vm) =
    (let ls = getlines (CHR 0x0A) text;
         header = (if ls = [] then [] else hd ls);
         header = (if take 3 header = utf8_bom then drop 3 header else header);
         n = length (getlines (CHR '','') header) in
     list_all (\<lambda>l. n \<le> length (getlines (CHR '','') (strip_cr l)) + 1) (tl ls))"
proof -
  have bom: "str_find l utf8_bom 0 = Some 0 \<longleftrightarrow> take 3 l = utf8_bom" for l
  proof -
    have "length utf8_bom = 3" by (simp add: utf8_bom_def)
    then show ?thesis by (auto simp: find_list_Some occurs_at_def)
  qed
  have "length utf8_bom = 3" by (simp add: utf8_bom_def)
  then show ?thesis
    unfolding load_generic_variables_from_csv_file_def Let_def bom substr_from_def
    by (auto simp: ok_insert_columns fit_row_length list_all_iff simp del: str_find_0)
qed

end
