(* ===== verification/Schedule.thy ===== *)
theory Schedule
  imports Ordered_Map
begin

text \<open>
  Choice of the next scenario (\<^verbatim>\<open>find_common_multiple\<close> and \<^verbatim>\<open>process_delayed_scenario\<close> of
  \<^verbatim>\<open>h2load_utils.cc\<close>, \<^verbatim>\<open>get_index_of_next_scenario_to_run\<close> of \<^verbatim>\<open>base_client.cc\<close>). A scenario
  is a pair of its weight and its number of requests. The draw of a random number is a
  parameter. The lemmas show that the schedule gives every scenario a share of the numbers
  that makes the requests it issues proportional to its weight.
\<close>

section \<open>A common multiple\<close>

definition unique_values :: "nat list \<Rightarrow> nat list" where
  "unique_values input = map fst (foldl (\<lambda>s v. omap_insert nat_less s v ()) [] input)"

text \<open>\<^verbatim>\<open>find_multiple\<close> over \<^verbatim>\<open>final_set\<close>: divides by \<open>val\<close> as soon as the set has an element.\<close>

definition has_multiple :: "nat list \<Rightarrow> nat \<Rightarrow> bool result" where
  "has_multiple final_set val =
    (if final_set = [] then Inr False
     else if val = 0 then Inl Division_By_Zero
     else Inr (list_ex (\<lambda>x. 1 \<le> x div val \<and> x mod val = 0) final_set))"

fun reduce_multiples :: "nat list \<Rightarrow> nat list \<Rightarrow> nat list result" where
  "reduce_multiples final_set [] = Inr final_set"
| "reduce_multiples final_set (val # vals) =
     andthen (has_multiple final_set val) (\<lambda>b.
       reduce_multiples (if b then final_set else insort val final_set) vals)"

definition find_common_multiple :: "nat list \<Rightarrow> nat result" where
  "find_common_multiple input =
     andthen (reduce_multiples [] (rev (unique_values input)))
       (\<lambda>final_set. Inr (foldl mul64 1 final_set))"

section \<open>The schedule\<close>

type_synonym schedule = "(nat \<times> nat) list"

fun init_schedule_from :: "nat \<Rightarrow> nat \<Rightarrow> (nat \<times> nat) list \<Rightarrow> nat \<Rightarrow> schedule \<Rightarrow> schedule result" where
  "init_schedule_from common_multiple scenario_index [] totalWeight schedule_map =
     (if schedule_map = [] then Inl Exit_Failure else Inr schedule_map)"
| "init_schedule_from common_multiple scenario_index ((weight, nreq) # scenarios) totalWeight schedule_map =
     (if 0 < weight then
        (if nreq = 0 then Inl Division_By_Zero
         else
           let totalWeight = add64 totalWeight (mul64 weight common_multiple div nreq) in
           init_schedule_from common_multiple (scenario_index + 1) scenarios totalWeight
             (omap_set nat_less schedule_map totalWeight scenario_index))
      else init_schedule_from common_multiple (scenario_index + 1) scenarios totalWeight schedule_map)"

definition init_schedule_map :: "(nat \<times> nat) list \<Rightarrow> schedule result" where
  "init_schedule_map scenarios =
     andthen (find_common_multiple (map snd scenarios))
       (\<lambda>m. init_schedule_from m 0 scenarios 0 [])"

text \<open>The \<^verbatim>\<open>thread_local\<close> variables of the function.\<close>

record scheduler =
  seq_no :: nat
  schedule_map :: schedule
  total_weight :: nat

definition init_scheduler :: "(nat \<times> nat) list \<Rightarrow> nat \<Rightarrow> scheduler result" where
  "init_scheduler scenarios config_update_sequence_number =
     andthen (init_schedule_map scenarios) (\<lambda>m.
       Inr \<lparr> seq_no = config_update_sequence_number, schedule_map = m,
         total_weight = fst (last m) \<rparr>)"

text \<open>Conversion of a \<^verbatim>\<open>uint64_t\<close> to the \<^verbatim>\<open>int\<close> of \<^verbatim>\<open>uniform_int_distribution<int>\<close>, and back.\<close>

definition int_of_u64 :: "nat \<Rightarrow> int" where
  "int_of_u64 n = (let m = int (n mod 2 ^ 32) in if m < 2 ^ 31 then m else m - 2 ^ 32)"

definition u64_of_int :: "int \<Rightarrow> nat" where
  "u64_of_int i = nat (i mod 2 ^ 64)"

definition scenario_at :: "schedule \<Rightarrow> nat \<Rightarrow> nat" where
  "scenario_at m randomNumber =
     (case omap_upper_bound nat_less m randomNumber of None \<Rightarrow> 0 | Some (_, i) \<Rightarrow> i)"

text \<open>\<open>distr a b\<close> is the number drawn from the closed interval; the scheduler is built at the first
  call and again when the sequence number of the configuration has moved.\<close>

definition get_index_of_next_scenario_to_run ::
  "(int \<Rightarrow> int \<Rightarrow> int) \<Rightarrow> (nat \<times> nat) list \<Rightarrow> nat \<Rightarrow> scheduler option \<Rightarrow> (nat \<times> scheduler option) result" where
  "get_index_of_next_scenario_to_run distr scenarios sequence_number st =
    (if length scenarios \<le> 1 then Inr (0, st)
     else
       andthen (case st of
           None \<Rightarrow> init_scheduler scenarios sequence_number
         | Some s \<Rightarrow> if seq_no s \<noteq> sequence_number then init_scheduler scenarios sequence_number else Inr s)
         (\<lambda>s.
           let randomNumber = u64_of_int (distr 0 (int_of_u64 (sub64 (total_weight s) 1))) in
           Inr (scenario_at (schedule_map s) randomNumber, Some s)))"

section \<open>Delayed scenarios\<close>

text \<open>\<^verbatim>\<open>process_delayed_scenario\<close>: \<open>intervals\<close> is \<^verbatim>\<open>interval_to_wait_before_start\<close> per scenario.
  A delayed scenario gets weight 0 and its own weight is remembered.\<close>

definition delayed_scenarios :: "nat list \<Rightarrow> nat list \<Rightarrow> (nat \<times> nat \<times> nat) list" where
  "delayed_scenarios intervals weights =
     map (\<lambda>i. (i, intervals ! i, weights ! i)) (filter (\<lambda>i. intervals ! i \<noteq> 0) [0..<length weights])"

definition suspend_delayed :: "nat list \<Rightarrow> nat list \<Rightarrow> nat list" where
  "suspend_delayed intervals weights =
     map (\<lambda>i. if intervals ! i \<noteq> 0 then 0 else weights ! i) [0..<length weights]"

text \<open>\<^verbatim>\<open>update_scenario\<close> at \<open>ms_since_start\<close>: the rest of the map, the weights and the number.\<close>

fun update_scenario :: "nat \<Rightarrow> (nat \<times> nat \<times> nat) list \<Rightarrow> nat list \<Rightarrow> nat
    \<Rightarrow> (nat \<times> nat \<times> nat) list \<times> nat list \<times> nat" where
  "update_scenario ms [] weights seq = ([], weights, seq)"
| "update_scenario ms ((i, t, w) # sce) weights seq =
     (if t \<le> ms then update_scenario ms sce (weights[i := w]) (seq + 1)
      else case update_scenario ms sce weights seq of
          (rest, weights', seq') \<Rightarrow> ((i, t, w) # rest, weights', seq'))"

section \<open>The common multiple is one\<close>

lemma unique_values_set: "set (unique_values input) = set input"
proof -
  have ins: "fst ` set (omap_insert nat_less m v ()) = insert v (fst ` set m)" for m v
  proof (induction m)
    case (Cons p m)
    obtain a where p: "p = (a, ())" by (cases p) auto
    consider "a < v" | "v < a" | "a = v" by linarith
    then show ?case using Cons by cases (simp_all add: p nat_less_def insert_commute)
  qed simp
  have "fst ` set (foldl (\<lambda>s v. omap_insert nat_less s v ()) m input) = fst ` set m \<union> set input" for m
    by (induction input arbitrary: m) (auto simp: ins)
  then show ?thesis by (simp add: unique_values_def)
qed

lemma reduce_multiples_dvd:
  "\<forall>v \<in> set vals. 0 < v \<Longrightarrow> \<exists>fs. reduce_multiples acc vals = Inr fs \<and> set acc \<subseteq> set fs \<and>
     set fs \<subseteq> set acc \<union> set vals \<and> (\<forall>v \<in> set vals. \<exists>x \<in> set fs. v dvd x)"
proof (induction vals arbitrary: acc)
  case (Cons v vals)
  define b where "b = list_ex (\<lambda>x. 1 \<le> x div v \<and> x mod v = 0) acc"
  have hm: "has_multiple acc v = Inr b" using Cons.prems by (auto simp: has_multiple_def b_def)
  obtain fs where fs: "reduce_multiples (if b then acc else insort v acc) vals = Inr fs"
    "set (if b then acc else insort v acc) \<subseteq> set fs"
    "set fs \<subseteq> set (if b then acc else insort v acc) \<union> set vals"
    "\<forall>v \<in> set vals. \<exists>x \<in> set fs. v dvd x"
    using Cons.IH [of "if b then acc else insort v acc"] Cons.prems by fastforce
  have "\<exists>x \<in> set fs. v dvd x"
  proof (cases b)
    case True
    then show ?thesis using fs(2) by (auto simp: b_def list_ex_iff mod_eq_0_iff_dvd)
  next
    case False
    then show ?thesis using fs(2) by (auto simp: set_insort_key intro: bexI [of _ v])
  qed
  with fs hm show ?case by (auto simp: set_insort_key split: if_splits)
qed simp

lemma foldl_mul64: "a < 2 ^ 64 \<Longrightarrow> foldl mul64 a xs = u64 (a * prod_list xs)"
proof (induction xs arbitrary: a)
  case (Cons x xs)
  have "mul64 a x < 2 ^ 64" by (simp only: mul64_def u64_lt)
  then have "foldl mul64 (mul64 a x) xs = u64 (mul64 a x * prod_list xs)" by (rule Cons.IH)
  moreover have "u64 (mul64 a x * prod_list xs) = u64 (a * prod_list (x # xs))"
    by (simp add: mul64_def u64_def mod_mult_left_eq mult.assoc)
  ultimately show ?case by simp
qed (simp add: u64_id)

text \<open>The values that are multiplied: the sizes that divide no larger one kept before.\<close>

definition kept_values :: "nat list \<Rightarrow> nat list" where
  "kept_values input = projr (reduce_multiples [] (rev (unique_values input)))"

lemma find_common_multiple_spec:
  assumes "\<forall>v \<in> set input. 0 < v" and "prod_list (kept_values input) < 2 ^ 64"
  shows "find_common_multiple input = Inr (prod_list (kept_values input))"
    "0 < prod_list (kept_values input)" "\<forall>v \<in> set input. v dvd prod_list (kept_values input)"
proof -
  obtain fs where fs: "reduce_multiples [] (rev (unique_values input)) = Inr fs"
    "set fs \<subseteq> set input" "\<forall>v \<in> set input. \<exists>x \<in> set fs. v dvd x"
    using reduce_multiples_dvd [of "rev (unique_values input)" "[]"] assms(1)
    by (auto simp: unique_values_set)
  then have k: "kept_values input = fs" by (simp add: kept_values_def)
  show "find_common_multiple input = Inr (prod_list (kept_values input))"
    using fs assms(2) k by (simp add: find_common_multiple_def foldl_mul64 u64_id)
  have "0 \<notin> set fs" using fs(2) assms(1) by auto
  then have "prod_list fs \<noteq> 0" by (simp add: prod_list_zero_iff)
  then show "0 < prod_list (kept_values input)" by (simp add: k)
  show "\<forall>v \<in> set input. v dvd prod_list (kept_values input)"
    using fs(3) k prod_list_dvd dvd_trans by blast
qed

section \<open>The shares of the schedule\<close>

definition share :: "nat \<Rightarrow> nat \<times> nat \<Rightarrow> nat" where
  "share m wn = (if 0 < fst wn then fst wn * m div snd wn else 0)"

definition total_shares :: "nat \<Rightarrow> (nat \<times> nat) list \<Rightarrow> nat" where
  "total_shares m xs = sum_list (map (share m) xs)"

lemma total_shares_simps [simp]:
  "total_shares m [] = 0"
  "total_shares m (x # xs) = share m x + total_shares m xs"
  by (simp_all add: total_shares_def)

text \<open>The schedule without the wrap-around of the code: one entry per positive weight.\<close>

fun schedule_of :: "nat \<Rightarrow> nat \<Rightarrow> nat \<Rightarrow> (nat \<times> nat) list \<Rightarrow> schedule" where
  "schedule_of m acc i [] = []"
| "schedule_of m acc i (x # xs) =
     (if 0 < fst x then (acc + share m x, i) # schedule_of m (acc + share m x) (i + 1) xs
      else schedule_of m acc (i + 1) xs)"

definition well_sized :: "nat \<Rightarrow> (nat \<times> nat) list \<Rightarrow> bool" where
  "well_sized m xs \<longleftrightarrow> 0 < m \<and> (\<forall>(w, n) \<in> set xs. 0 < n \<and> n dvd m \<and> w * m < 2 ^ 64)"

lemma well_sized_Cons: "well_sized m (x # xs) \<longleftrightarrow>
    0 < snd x \<and> snd x dvd m \<and> fst x * m < 2 ^ 64 \<and> well_sized m xs"
  by (cases x) (auto simp: well_sized_def)

lemma share_pos:
  assumes "well_sized m (x # xs)" "0 < fst x"
  shows "0 < share m x" "share m x * snd x = fst x * m"
proof -
  from assms have n: "0 < snd x" "snd x dvd fst x * m" "0 < fst x * m"
    by (auto simp: well_sized_Cons well_sized_def)
  then show "share m x * snd x = fst x * m" using assms by (simp add: share_def)
  then show "0 < share m x" using n by (metis mult_is_0 not_gr_zero)
qed

lemma omap_set_last: "\<forall>(a, b) \<in> set m. a < k \<Longrightarrow> omap_set nat_less m k v = m @ [(k, v)]"
  by (induction m) (auto simp: nat_less_def)

lemma init_schedule_from_eq:
  assumes "well_sized m xs" "acc + total_shares m xs < 2 ^ 64" "\<forall>(a, b) \<in> set s. a \<le> acc"
    and "s @ schedule_of m acc i xs \<noteq> []"
  shows "init_schedule_from m i xs acc s = Inr (s @ schedule_of m acc i xs)"
  using assms
proof (induction xs arbitrary: i acc s)
  case (Cons x xs)
  obtain w n where x: "x = (w, n)" by force
  show ?case
  proof (cases "0 < w")
    case True
    have n: "0 < n" "w * m < 2 ^ 64" using Cons.prems(1) by (auto simp: x well_sized_Cons)
    have sh: "0 < share m x" using share_pos [OF Cons.prems(1)] True x by simp
    have t: "add64 acc (mul64 w m div n) = acc + share m x"
      using Cons.prems(2) n True by (simp add: mul64_id add64_id share_def x)
    let ?s = "s @ [(acc + share m x, i)]"
    have set: "omap_set nat_less s (acc + share m x) i = ?s"
      using Cons.prems(3) sh by (intro omap_set_last) auto
    have "init_schedule_from m (i + 1) xs (acc + share m x) ?s =
        Inr (?s @ schedule_of m (acc + share m x) (i + 1) xs)"
      using Cons.prems sh by (intro Cons.IH) (auto simp: well_sized_Cons add.assoc)
    with True n t set show ?thesis by (simp add: x Let_def)
  next
    case False
    then have "share m x = 0" by (simp add: share_def x)
    with Cons False show ?thesis by (simp add: x well_sized_Cons)
  qed
qed simp

lemma schedule_of_keys: "(k, j) \<in> set (schedule_of m acc i xs) \<Longrightarrow> acc \<le> k \<and> i \<le> j"
  by (induction xs arbitrary: acc i) (fastforce split: if_splits)+

lemma last_schedule_of:
  "schedule_of m acc i xs \<noteq> [] \<Longrightarrow> fst (last (schedule_of m acc i xs)) = acc + total_shares m xs"
proof (induction xs arbitrary: acc i)
  case (Cons x xs)
  show ?case
  proof (cases "schedule_of m (acc + share m x) (i + 1) xs = []")
    case True
    then have "\<forall>y \<in> set xs. share m y = 0"
    proof (induction xs arbitrary: acc i x)
      case (Cons y ys)
      then have "share m y = 0" by (auto simp: share_def split: if_splits)
      with Cons.prems Cons.IH [of acc x "i + 1"] show ?case by (auto split: if_splits)
    qed simp
    then have "total_shares m xs = 0" by (simp add: total_shares_def)
    with True Cons.prems show ?thesis by (auto simp: share_def split: if_splits)
  next
    case False
    with Cons show ?thesis by (auto simp: share_def)
  qed
qed simp

text \<open>Each number below the total selects one scenario, and scenario \<open>j\<close> is selected by as many
  numbers as it has shares.\<close>

lemma scenario_at_below:
  assumes "r < acc + share m x" "0 < fst x"
  shows "scenario_at (schedule_of m acc i (x # xs)) r = i"
  using assms by (simp add: scenario_at_def nat_less_def)

lemma scenario_at_above:
  assumes "acc + share m x \<le> r"
  shows "scenario_at (schedule_of m acc i (x # xs)) r =
    scenario_at (schedule_of m (acc + share m x) (i + 1) xs) r"
  using assms by (cases "0 < fst x") (simp_all add: scenario_at_def nat_less_def share_def)

lemma scenario_at_ge:
  assumes "r < acc + total_shares m xs" "acc \<le> r"
  shows "i \<le> scenario_at (schedule_of m acc i xs) r"
  using assms
proof (induction xs arbitrary: acc i)
  case (Cons x xs)
  show ?case
  proof (cases "r < acc + share m x")
    case True
    with Cons.prems have "0 < fst x" by (auto simp: share_def split: if_splits)
    with True show ?thesis by (simp only: scenario_at_below)
  next
    case False
    then show ?thesis
      using Cons.IH [of "acc + share m x" "i + 1"] Cons.prems
        scenario_at_above [of acc m x r i xs] by simp
  qed
qed simp

lemma card_scenario_at:
  "j < length xs \<Longrightarrow>
    card {r. acc \<le> r \<and> r < acc + total_shares m xs \<and> scenario_at (schedule_of m acc i xs) r = i + j}
      = share m (xs ! j)"
proof (induction xs arbitrary: acc i j)
  case (Cons x xs)
  let ?acc = "acc + share m x"
  let ?all = "{r. acc \<le> r \<and> r < acc + total_shares m (x # xs) \<and>
      scenario_at (schedule_of m acc i (x # xs)) r = i + j}"
  let ?rest = "{r. ?acc \<le> r \<and> r < ?acc + total_shares m xs \<and>
      scenario_at (schedule_of m ?acc (i + 1) xs) r = i + j}"
  have low: "scenario_at (schedule_of m acc i (x # xs)) r = i" if "acc \<le> r" "r < ?acc" for r
    using that by (intro scenario_at_below) (auto simp: share_def split: if_splits)
  have all: "?all = (if j = 0 then {acc..<?acc} else {}) \<union> ?rest"
  proof (intro set_eqI)
    fix r
    show "r \<in> ?all \<longleftrightarrow> r \<in> (if j = 0 then {acc..<?acc} else {}) \<union> ?rest"
    proof (cases "r < ?acc")
      case True
      then show ?thesis using low [of r] by (auto simp del: schedule_of.simps)
    next
      case False
      then have "acc + share m x \<le> r" by simp
      from scenario_at_above [OF this, of i xs] this show ?thesis
        by (auto simp del: schedule_of.simps)
    qed
  qed
  show ?case
  proof (cases j)
    case 0
    then have "?rest = {}" using scenario_at_ge [of _ ?acc m xs "i + 1"] by fastforce
    with 0 have "?all = {acc..<?acc}" using all by (simp only: if_True Un_empty_right simp_thms)
    then show ?thesis by (simp only: 0 nth_Cons_0 card_atLeastLessThan add_diff_cancel_left')
  next
    case (Suc k)
    with Cons.prems Cons.IH [of k ?acc "i + 1"] all show ?thesis by simp
  qed
qed simp

section \<open>The contract of a weighted choice\<close>

text \<open>Choosing an index by a number below the sum of the weights, as many numbers per index as
  its weight; the scenario schedule and the response groups of the mock server both promise it.\<close>

locale weighted_choice =
  fixes weights :: "nat list" and pick :: "nat \<Rightarrow> nat"
  assumes count: "j < length weights \<Longrightarrow>
    card {r. r < sum_list weights \<and> pick r = j} = weights ! j"
begin

lemma chosen: "j < length weights \<Longrightarrow> 0 < weights ! j \<Longrightarrow> \<exists>r < sum_list weights. pick r = j"
  using count [of j] by (metis (mono_tags, lifting) card.empty empty_Collect_eq less_irrefl)

lemma never_chosen: "j < length weights \<Longrightarrow> weights ! j = 0 \<Longrightarrow> r < sum_list weights \<Longrightarrow> pick r \<noteq> j"
proof
  assume j: "j < length weights" "weights ! j = 0" and r: "r < sum_list weights" "pick r = j"
  have "finite {r. r < sum_list weights \<and> pick r = j}" by simp
  with count [OF j(1)] j(2) have "{r. r < sum_list weights \<and> pick r = j} = {}" by simp
  with r show False by blast
qed

lemma pick_in_range: "r < sum_list weights \<Longrightarrow> pick r < length weights"
proof (rule ccontr)
  assume r: "r < sum_list weights" and out: "\<not> pick r < length weights"
  let ?A = "\<lambda>j. {r. r < sum_list weights \<and> pick r = j}"
  have "card (\<Union>j < length weights. ?A j) = (\<Sum>j < length weights. card (?A j))"
    by (rule card_UN_disjoint) auto
  also have "\<dots> = (\<Sum>j < length weights. weights ! j)"
    by (rule sum.cong) (simp_all add: count)
  also have "\<dots> = sum_list weights"
    by (simp add: sum_list_sum_nth atLeast0LessThan)
  finally have "card (\<Union>j < length weights. ?A j) = card {..<sum_list weights}" by simp
  moreover have "(\<Union>j < length weights. ?A j) \<subseteq> {..<sum_list weights}" by auto
  ultimately have "(\<Union>j < length weights. ?A j) = {..<sum_list weights}"
    by (intro card_subset_eq) auto
  with r out show False by blast
qed

end

interpretation scenarios: weighted_choice "map (share m) xs" "scenario_at (schedule_of m 0 0 xs)" for m xs
proof
  fix j assume "j < length (map (share m) xs)"
  then show "card {r. r < sum_list (map (share m) xs) \<and> scenario_at (schedule_of m 0 0 xs) r = j} =
      map (share m) xs ! j"
    using card_scenario_at [of j xs 0 m 0] by (simp add: total_shares_def)
qed

section \<open>Delayed scenarios\<close>

lemma update_scenario_all:
  assumes "\<forall>(i, t, w) \<in> set sce. t \<le> ms"
  shows "update_scenario ms sce weights seq =
    ([], foldl (\<lambda>ws (i, t, w). ws[i := w]) weights sce, seq + length sce)"
  using assms by (induction sce arbitrary: weights seq) auto

lemma nth_foldl_update:
  "distinct (map fst sce) \<Longrightarrow> j < length weights \<Longrightarrow>
    foldl (\<lambda>ws (i, t, w). ws[i := w]) weights sce ! j =
      (case map_of sce j of None \<Rightarrow> weights ! j | Some (t, w) \<Rightarrow> w)"
proof (induction sce arbitrary: weights)
  case (Cons p sce)
  obtain i t w where p: "p = (i, t, w)" by (cases p) auto
  show ?case
  proof (cases "i = j")
    case True
    then have "map_of sce j = None" using Cons.prems by (auto simp: p map_of_eq_None_iff)
    with True Cons show ?thesis by (simp add: p)
  next
    case False
    with Cons show ?thesis by (auto simp: p split: option.split)
  qed
qed simp

lemma length_foldl_update: "length (foldl (\<lambda>ws (i, t, w). ws[i := w]) weights sce) = length weights"
  by (induction sce arbitrary: weights) auto

lemma delayed_restores:
  assumes "length intervals = length weights"
  shows "foldl (\<lambda>ws (i, t, w). ws[i := w]) (suspend_delayed intervals weights)
    (delayed_scenarios intervals weights) = weights"
proof (rule nth_equalityI)
  show "length (foldl (\<lambda>ws (i, t, w). ws[i := w]) (suspend_delayed intervals weights)
      (delayed_scenarios intervals weights)) = length weights"
    by (simp add: length_foldl_update suspend_delayed_def)
  fix j assume "j < length (foldl (\<lambda>ws (i, t, w). ws[i := w]) (suspend_delayed intervals weights)
      (delayed_scenarios intervals weights))"
  then have j: "j < length weights" by (simp add: length_foldl_update suspend_delayed_def)
  have d: "distinct (map fst (delayed_scenarios intervals weights))"
    by (simp add: delayed_scenarios_def o_def)
  have m: "map_of (delayed_scenarios intervals weights) j =
      (if intervals ! j \<noteq> 0 then Some (intervals ! j, weights ! j) else None)"
  proof (cases "intervals ! j \<noteq> 0")
    case True
    then have "(j, intervals ! j, weights ! j) \<in> set (delayed_scenarios intervals weights)"
      using j by (auto simp: delayed_scenarios_def)
    with d True show ?thesis by simp
  next
    case False
    then show ?thesis by (auto simp: map_of_eq_None_iff delayed_scenarios_def)
  qed
  show "foldl (\<lambda>ws (i, t, w). ws[i := w]) (suspend_delayed intervals weights)
      (delayed_scenarios intervals weights) ! j = weights ! j"
    using j d m by (simp add: nth_foldl_update suspend_delayed_def)
qed

section \<open>Properties\<close>

text \<open>C24: with positive sizes whose kept values multiply below the 64 bit limit,
  \<^verbatim>\<open>find_common_multiple\<close> returns a positive number that every size divides.\<close>

theorem common_multiple:
  assumes "\<forall>v \<in> set input. 0 < v" and "prod_list (kept_values input) < 2 ^ 64"
  shows "\<exists>m. find_common_multiple input = Inr m \<and> 0 < m \<and> (\<forall>v \<in> set input. v dvd m)"
  using find_common_multiple_spec [OF assms] by blast

theorem common_multiple_witness:
  "\<exists>m. find_common_multiple [4, 6, 2, 3] = Inr m \<and> 0 < m \<and> (\<forall>v \<in> set [4, 6, 2, 3]. v dvd m)"
proof (rule common_multiple)
  show "\<forall>v \<in> set [4, 6, 2, 3 :: nat]. 0 < v" by simp
  show "prod_list (kept_values [4, 6, 2, 3]) < 2 ^ 64" by code_simp
qed





end
