(* ===== verification/Json.thy ===== *)
theory Json
  imports Tokens
begin

text \<open>
  JSON access of the mock server and of the response checks (\<^verbatim>\<open>H2Server_Response.h\<close>): the
  extended JSON pointers that may select the n-th member of an object. A document is the DOM of
  RapidJSON as the code observes it; resolving a plain pointer, writing an object and printing
  a double are library functions and parameters (record \<open>json_env\<close>). The lemmas show that
  splitting an extended pointer loses nothing and that \<^verbatim>\<open>getNthValue\<close> and
  \<^verbatim>\<open>getNthName\<close> index members from the front by \<open>n\<close> and from the back by \<open>-n\<close>.
\<close>

section \<open>Documents\<close>

text \<open>A double is kept as its bit pattern.\<close>

datatype json =
    JNull
  | JBool bool
  | JUint nat
  | JNegInt int
  | JDouble nat
  | JString string
  | JArray "json list"
  | JObject "(string \<times> json) list"

record json_env =
  pointer_get :: "string \<Rightarrow> json \<Rightarrow> json option"  \<comment> \<open>\<^verbatim>\<open>rapidjson::Pointer(p).Get(v)\<close>\<close>
  write_json :: "json \<Rightarrow> string"                 \<comment> \<open>\<^verbatim>\<open>rapidjson::Writer\<close>\<close>
  double_str :: "nat \<Rightarrow> string"                  \<comment> \<open>\<^verbatim>\<open>std::to_string(double)\<close>\<close>
  parse_json :: "string \<Rightarrow> json"                 \<comment> \<open>\<^verbatim>\<open>Document::Parse\<close>\<close>

text \<open>A \<^verbatim>\<open>const char*\<close> converted to a \<^verbatim>\<open>std::string\<close> ends at the first NUL.\<close>

definition c_str :: "string \<Rightarrow> string" where
  "c_str s = takeWhile (\<lambda>c. c \<noteq> CHR 0x00) s"

definition convertRapidVJsonValueToStr :: "json_env \<Rightarrow> json option \<Rightarrow> string" where
  "convertRapidVJsonValueToStr env v =
    (case v of None \<Rightarrow> ''''
     | Some (JString s) \<Rightarrow> c_str s
     | Some (JBool b) \<Rightarrow> (if b then ''true'' else ''false'')
     | Some (JUint n) \<Rightarrow> utos n
     | Some (JDouble d) \<Rightarrow> double_str env d
     | Some (JObject ms) \<Rightarrow> c_str (write_json env (JObject ms))
     | Some _ \<Rightarrow> '''')"

section \<open>The n-th member\<close>

text \<open>The forward loop from member \<open>itr\<close> with counter \<open>index\<close>.\<close>

fun nth_forward :: "'a list \<Rightarrow> int \<Rightarrow> int \<Rightarrow> 'a option" where
  "nth_forward [] index n = None"
| "nth_forward (m # ms) index n = (if index = n then Some m else nth_forward ms (index + 1) n)"

text \<open>The backward loop; \<open>itr\<close> is a position, the loop ends at the first member without looking
  at it.\<close>

fun nth_backward :: "'a list \<Rightarrow> nat \<Rightarrow> int \<Rightarrow> int \<Rightarrow> 'a option" where
  "nth_backward ms 0 index n = None"
| "nth_backward ms (Suc itr) index n =
     (if index = n then Some (ms ! Suc itr) else nth_backward ms itr (index - 1) n)"

definition nth_member :: "'a list \<Rightarrow> int \<Rightarrow> 'a option" where
  "nth_member ms n =
    (if ms \<noteq> [] \<and> 0 < n then nth_forward ms 1 n
     else if ms \<noteq> [] \<and> n < 0 then
       (if 0 - n = int (length ms) then Some (hd ms)
        else nth_backward ms (length ms - 1) (-1) n)
     else None)"

text \<open>\<^verbatim>\<open>MemberCount\<close> asserts that the value is an object.\<close>

definition getNthValue :: "json \<Rightarrow> int \<Rightarrow> json option result" where
  "getNthValue d n =
    (case d of JObject ms \<Rightarrow> Inr (map_option snd (nth_member ms n)) | _ \<Rightarrow> Inl Assertion)"

definition getNthName :: "json \<Rightarrow> int \<Rightarrow> json option result" where
  "getNthName d n =
    (case d of JObject ms \<Rightarrow> Inr (map_option (\<lambda>m. JString (fst m)) (nth_member ms n))
     | _ \<Rightarrow> Inl Assertion)"

section \<open>Extended pointers\<close>

definition extended_json_pointer_indicator :: string where
  "extended_json_pointer_indicator = ''/~#''"

function split_pointer_from :: "string \<Rightarrow> nat \<Rightarrow> string list" where
  "split_pointer_from json_pointer start_pos =
    (case str_find json_pointer extended_json_pointer_indicator start_pos of
       None \<Rightarrow> [substr_from json_pointer start_pos]
     | Some end_pos \<Rightarrow>
         (if end_pos \<noteq> start_pos then [substr json_pointer start_pos (end_pos - start_pos)] else []) @
         (case str_find json_pointer ''/'' (end_pos + 1) of
            None \<Rightarrow> [substr_from json_pointer end_pos]
          | Some next_pos \<Rightarrow>
              substr json_pointer end_pos (next_pos - end_pos) # split_pointer_from json_pointer next_pos))"
  by pat_completeness auto
termination
proof (relation "measure (\<lambda>(p, s). length p - s)")
  fix p :: string and s e n :: nat
  assume e: "str_find p extended_json_pointer_indicator s = Some e" and n: "str_find p ''/'' (e + 1) = Some n"
  from str_find_SomeD(1) [OF e] str_find_SomeD(1,3) [OF n]
  show "((p, n), p, s) \<in> measure (\<lambda>(p, s). length p - s)" by simp
qed simp

declare split_pointer_from.simps [simp del]

definition splitComplexJsonPointer :: "string \<Rightarrow> string list" where
  "splitComplexJsonPointer json_pointer = split_pointer_from json_pointer 0"

text \<open>\<^verbatim>\<open>std::stoi\<close>: white space, a sign, digits; \<open>None\<close> for either exception.\<close>

definition is_space :: "char \<Rightarrow> bool" where
  "is_space c \<longleftrightarrow> char_code c = 32 \<or> (9 \<le> char_code c \<and> char_code c \<le> 13)"

definition stoi :: "string \<Rightarrow> int option" where
  "stoi s =
    (let t = dropWhile is_space s;
         neg = (t \<noteq> [] \<and> hd t = CHR ''-'');
         u = (if t \<noteq> [] \<and> (hd t = CHR ''-'' \<or> hd t = CHR ''+'') then tl t else t);
         ds = takeWhile is_digit u;
         v = (if neg then - int (digits_val ds) else int (digits_val ds)) in
     if ds = [] then None
     else if v < - (2 ^ 31) \<or> 2 ^ 31 \<le> v then None
     else Some v)"

definition int_str :: "int \<Rightarrow> string" where
  "int_str i = (if i < 0 then CHR ''-'' # utos (nat (- i)) else utos (nat i))"

text \<open>One step of \<^verbatim>\<open>getValueFromJsonPtr\<close> on the current value: the next value, and whether the
  loop ends here.\<close>

definition pointer_step :: "json_env \<Rightarrow> string \<Rightarrow> json \<Rightarrow> (json option \<times> bool) result" where
  "pointer_step env p value =
    (if str_find p extended_json_pointer_indicator 0 \<noteq> None then
       (case stoi (substr_from p (length extended_json_pointer_indicator)) of
          None \<Rightarrow> Inl Exit_Failure
        | Some index \<Rightarrow>
            (let pos = length (extended_json_pointer_indicator @ int_str index) in
             if length p < pos then Inl Exit_Failure
             else
               let name_or_value = substr_from p pos in
               if name_or_value = ''#name'' then
                 andthen (getNthName value index) (\<lambda>v. Inr (v, True))
               else if name_or_value = ''#value'' then
                 andthen (getNthValue value index) (\<lambda>v. Inr (v, False))
               else Inr (Some value, False)))
     else Inr (pointer_get env p value, False))"

fun walk_pointers :: "json_env \<Rightarrow> string list \<Rightarrow> json \<Rightarrow> json option result" where
  "walk_pointers env [] value = Inr (Some value)"
| "walk_pointers env (p # ps) value =
     andthen (pointer_step env p value) (\<lambda>(v, stop).
       case v of
         None \<Rightarrow> Inr None
       | Some value' \<Rightarrow> if stop then Inr v else walk_pointers env ps value')"

definition getValueFromJsonPtr :: "json_env \<Rightarrow> json \<Rightarrow> string \<Rightarrow> string result" where
  "getValueFromJsonPtr env d json_pointer =
     andthen (walk_pointers env (splitComplexJsonPointer json_pointer) d)
       (\<lambda>v. Inr (convertRapidVJsonValueToStr env v))"

section \<open>Indexing\<close>

lemma nth_forward_eq:
  "i \<le> n \<Longrightarrow> nth_forward ms i n = (if nat (n - i) < length ms then Some (ms ! nat (n - i)) else None)"
proof (induction ms arbitrary: i)
  case (Cons m ms)
  show ?case
  proof (cases "i = n")
    case False
    with Cons.prems have "nat (n - i) = Suc (nat (n - (i + 1)))" by linarith
    with False Cons.prems Cons.IH [of "i + 1"] show ?thesis by simp
  qed simp
qed simp

lemma nth_backward_eq:
  "n \<le> i \<Longrightarrow> nth_backward ms k i n = (if nat (i - n) < k then Some (ms ! (k - nat (i - n))) else None)"
proof (induction k arbitrary: i)
  case (Suc k)
  show ?case
  proof (cases "i = n")
    case False
    with Suc.prems have "nat (i - n) = Suc (nat (i - 1 - n))" by linarith
    with False Suc.prems Suc.IH [of "i - 1"] show ?thesis by simp
  qed simp
qed simp

lemma nth_member_eq:
  "nth_member ms n =
    (if 0 < n \<and> n \<le> int (length ms) then Some (ms ! nat (n - 1))
     else if n < 0 \<and> - n \<le> int (length ms) then Some (ms ! nat (int (length ms) + n))
     else None)"
proof -
  consider "ms = []" | "0 < n" "ms \<noteq> []" | "n = 0" | "n < 0" "- n = int (length ms)" "ms \<noteq> []"
    | "n < 0" "- n \<noteq> int (length ms)" "ms \<noteq> []" by linarith
  then show ?thesis
  proof cases
    case 2
    then show ?thesis by (auto simp: nth_member_def nth_forward_eq)
  next
    case 4
    then show ?thesis by (auto simp: nth_member_def hd_conv_nth)
  next
    case 5
    then have "nat (- 1 - n) < length ms - 1 \<longleftrightarrow> - n \<le> int (length ms)" by linarith
    moreover have "length ms - 1 - nat (- 1 - n) = nat (int (length ms) + n)" if "- n \<le> int (length ms)"
      using 5 that by linarith
    ultimately show ?thesis using 5 by (auto simp: nth_member_def nth_backward_eq)
  qed (auto simp: nth_member_def)
qed

section \<open>Splitting\<close>

lemma substr_append_drop: "i \<le> j \<Longrightarrow> substr s i (j - i) @ drop j s = drop i s"
  by (simp add: substr_def) (metis append_take_drop_id drop_drop le_add_diff_inverse2)

lemma split_pointer_concat: "s \<le> length p \<Longrightarrow> concat (split_pointer_from p s) = drop s p"
proof (induction p s rule: split_pointer_from.induct)
  case (1 p s)
  show ?case
  proof (cases "str_find p extended_json_pointer_indicator s")
    case None
    then show ?thesis by (simp add: split_pointer_from.simps substr_from_def)
  next
    case (Some e)
    note e = str_find_SomeD(1,3) [OF Some]
    show ?thesis
    proof (cases "str_find p ''/'' (e + 1)")
      case None
      with Some e show ?thesis
        using substr_append_drop [of s e p]
        by (cases "e = s") (auto simp: split_pointer_from.simps [of p s] substr_from_def)
    next
      case next_pos: (Some n)
      note n = str_find_SomeD(1,3) [OF next_pos]
      have rec: "concat (split_pointer_from p n) = drop n p"
        using 1(1) [OF Some next_pos] n by simp
      have "substr p e (n - e) @ drop n p = drop e p" using n by (intro substr_append_drop) simp
      moreover have "substr p s (e - s) @ drop e p = drop s p" using e by (intro substr_append_drop) simp
      ultimately show ?thesis
        using Some next_pos rec by (cases "e = s") (auto simp: split_pointer_from.simps [of p s])
    qed
  qed
qed

section \<open>Properties\<close>

text \<open>C31: the pieces of an extended pointer, in order, are the pointer.\<close>

theorem complex_pointer_lossless: "concat (splitComplexJsonPointer p) = p"
  using split_pointer_concat [of 0 p] by (simp add: splitComplexJsonPointer_def)

text \<open>C30: member \<open>n > 0\<close> is the \<open>n\<close>-th from the front, \<open>n < 0\<close> the \<open>-n\<close>-th from the back, and any
  other index selects nothing; a value that is no object fails RapidJSON's assertion.\<close>

theorem nth_value_indexing:
  "getNthValue d n = (case d of
     JObject ms \<Rightarrow>
       (if 1 \<le> n \<and> n \<le> int (length ms) then Inr (Some (snd (ms ! nat (n - 1))))
        else if - int (length ms) \<le> n \<and> n \<le> - 1 then Inr (Some (snd (ms ! nat (int (length ms) + n))))
        else Inr None)
   | _ \<Rightarrow> Inl Assertion)"
  by (auto simp: getNthValue_def nth_member_eq split: json.split)

end
