(* ===== verification/Matching.thy ===== *)
theory Matching
  imports Json Ordered_Map
begin

text \<open>
  Match rules and request matching of the mock server (\<^verbatim>\<open>H2Server_Request.h\<close>,
  \<^verbatim>\<open>H2Server_Request_Message.h\<close>, \<^verbatim>\<open>H2Server_Config_Schema.h\<close>), also used by the client to check
  responses. A request message caches the result of a rule under the rule's unique id. The
  lemmas show that both \<^verbatim>\<open>operator<\<close> are strict weak orders, as the containers require, and
  that matching with the cache is the conjunction of the rules whenever rules with the same id
  are the same rule.
\<close>

section \<open>Rules\<close>

datatype match_type = EQUALS_TO | START_WITH | END_WITH | CONTAINS | REGEX_MATCH

record schema_header_match =
  hm_matchType :: string
  hm_header :: string
  hm_input :: string

record schema_payload_match =
  pm_matchType :: string
  pm_jsonPointer :: string
  pm_input :: string

record match_rule =
  rule_type :: match_type
  rule_header :: string
  rule_pointer :: string
  rule_object :: string
  unique_id :: nat

text \<open>\<^verbatim>\<open>string_to_match_type[s]\<close>: an unknown key is inserted with the zero value.\<close>

definition string_to_match_type :: "string \<Rightarrow> match_type" where
  "string_to_match_type s =
    (if s = ''StartsWith'' then START_WITH
     else if s = ''EndsWith'' then END_WITH
     else if s = ''Contains'' then CONTAINS
     else if s = ''RegexMatch'' then REGEX_MATCH
     else EQUALS_TO)"

text \<open>The constructors; \<^verbatim>\<open>unique_id\<close> is set later, and its initial value is immaterial.\<close>

definition rule_of_header_match :: "schema_header_match \<Rightarrow> match_rule" where
  "rule_of_header_match m =
     \<lparr> rule_type = string_to_match_type (hm_matchType m), rule_header = hm_header m,
       rule_pointer = '''', rule_object = hm_input m, unique_id = 0 \<rparr>"

definition rule_of_payload_match :: "schema_payload_match \<Rightarrow> match_rule" where
  "rule_of_payload_match m =
     \<lparr> rule_type = string_to_match_type (pm_matchType m), rule_header = '''',
       rule_pointer = pm_jsonPointer m, rule_object = pm_input m, unique_id = 0 \<rparr>"

text \<open>Library functions of the component: regular expressions and JSON.\<close>

record match_env = json_env +
  regex_match :: "string \<Rightarrow> string \<Rightarrow> bool"  \<comment> \<open>\<^verbatim>\<open>std::regex_match(subject, regex)\<close>, regex first\<close>

definition match_string :: "'a match_env_scheme \<Rightarrow> match_type \<Rightarrow> string \<Rightarrow> string \<Rightarrow> bool" where
  "match_string env verb object subject =
    (case verb of
       EQUALS_TO \<Rightarrow> subject = object
     | START_WITH \<Rightarrow> str_find subject object 0 = Some 0
     | END_WITH \<Rightarrow> length object \<le> length subject \<and>
         substr subject (length subject - length object) (length object) = object
     | CONTAINS \<Rightarrow> str_find subject object 0 \<noteq> None
     | REGEX_MATCH \<Rightarrow> regex_match env object subject)"

definition match_subject :: "'a match_env_scheme \<Rightarrow> match_rule \<Rightarrow> string \<Rightarrow> bool" where
  "match_subject env r subject = match_string env (rule_type r) (rule_object r) subject"

definition match_json_doc :: "'a match_env_scheme \<Rightarrow> match_rule \<Rightarrow> json \<Rightarrow> bool result" where
  "match_json_doc env r d =
     andthen (getValueFromJsonPtr (json_env.truncate env) d (rule_pointer r))
       (\<lambda>s. Inr (match_subject env r s))"

section \<open>Request messages\<close>

record request_message =
  msg_headers :: "(string \<times> string) list"
  json_payload :: json
  json_payload_string :: "string option"
  raw_payload :: string
  match_result :: "(nat \<times> bool) list"

text \<open>The constructor, from the parts of the server's request.\<close>

definition request_message_of ::
  "string \<Rightarrow> string \<Rightarrow> string \<Rightarrow> string \<Rightarrow> string \<Rightarrow> (string \<times> string) list \<Rightarrow> string \<Rightarrow> request_message" where
  "request_message_of path raw_query method scheme host header payload =
    (let path = (if raw_query \<noteq> [] then path @ ''?'' @ raw_query else path);
         hs = mmap_insert str_less [] '':path'' path;
         hs = mmap_insert str_less hs '':method'' method;
         hs = mmap_insert str_less hs '':scheme'' scheme;
         hs = mmap_insert str_less hs '':authority'' host;
         hs = foldl (\<lambda>m (k, v). mmap_insert str_less m k v) hs header in
     \<lparr> msg_headers = hs, json_payload = JNull, json_payload_string = Some payload,
       raw_payload = payload, match_result = [] \<rparr>)"

definition decode_json_if_not_yet :: "'a match_env_scheme \<Rightarrow> request_message \<Rightarrow> request_message" where
  "decode_json_if_not_yet env msg =
    (case json_payload_string msg of
       None \<Rightarrow> msg
     | Some s \<Rightarrow> msg \<lparr> json_payload := parse_json env (c_str s), json_payload_string := None \<rparr>)"

text \<open>\<^verbatim>\<open>headers.equal_range(name)\<close>\<close>

definition equal_range :: "(string \<times> string) list \<Rightarrow> string \<Rightarrow> string list" where
  "equal_range hs name = map snd (filter (\<lambda>(k, v). k = name) hs)"

text \<open>\<^verbatim>\<open>Match_Rule::match(H2Server_Request_Message&)\<close>\<close>

definition rule_match :: "'a match_env_scheme \<Rightarrow> match_rule \<Rightarrow> request_message
    \<Rightarrow> (bool \<times> request_message) result" where
  "rule_match env r msg =
    (case omap_find nat_less (match_result msg) (unique_id r) of
       Some b \<Rightarrow> Inr (b, msg)
     | None \<Rightarrow>
         andthen
           (if rule_header r \<noteq> [] then
              Inr (list_ex (match_subject env r) (equal_range (msg_headers msg) (rule_header r)), msg)
            else if rule_pointer r \<noteq> [] then
              (let msg' = decode_json_if_not_yet env msg in
               andthen (match_json_doc env r (json_payload msg')) (\<lambda>b. Inr (b, msg')))
            else Inr (match_subject env r (raw_payload msg), msg))
           (\<lambda>(matched, msg'). Inr (matched,
              msg' \<lparr> match_result := omap_set nat_less (match_result msg') (unique_id r) matched \<rparr>)))"

text \<open>Matching of responses: one header map, a list of header blocks, the body.\<close>

definition match_header_map :: "'a match_env_scheme \<Rightarrow> match_rule \<Rightarrow> (string \<times> string) list \<Rightarrow> bool" where
  "match_header_map env r response_headers =
    (case omap_find ci_less response_headers (rule_header r) of
       Some v \<Rightarrow> match_subject env r v
     | None \<Rightarrow> False)"

fun match_header_blocks :: "'a match_env_scheme \<Rightarrow> match_rule \<Rightarrow> (string \<times> string) list list \<Rightarrow> bool" where
  "match_header_blocks env r [] = False"
| "match_header_blocks env r (b # bs) =
     (case omap_find ci_less b (rule_header r) of
        Some v \<Rightarrow> match_subject env r v
      | None \<Rightarrow> match_header_blocks env r bs)"

definition match_response :: "'a match_env_scheme \<Rightarrow> match_rule \<Rightarrow> (string \<times> string) list list \<Rightarrow> json
    \<Rightarrow> bool result" where
  "match_response env r response_headers d =
    (if rule_header r \<noteq> [] then Inr (match_header_blocks env r response_headers)
     else match_json_doc env r d)"

section \<open>Orders\<close>

definition match_type_number :: "match_type \<Rightarrow> nat" where
  "match_type_number t =
    (case t of EQUALS_TO \<Rightarrow> 0 | START_WITH \<Rightarrow> 1 | END_WITH \<Rightarrow> 2 | CONTAINS \<Rightarrow> 3 | REGEX_MATCH \<Rightarrow> 4)"

definition rule_text :: "match_rule \<Rightarrow> string" where
  "rule_text r = utos (match_type_number (rule_type r)) @ rule_header r @ rule_pointer r @ rule_object r"

text \<open>\<^verbatim>\<open>Match_Rule::operator<\<close>\<close>

definition rule_less :: "match_rule \<Rightarrow> match_rule \<Rightarrow> bool" where
  "rule_less a b =
    (if rule_header a \<noteq> [] \<and> rule_header b = [] then False
     else if rule_header a = [] \<and> rule_header b \<noteq> [] then True
     else if rule_type a = EQUALS_TO \<and> rule_type b \<noteq> EQUALS_TO then False
     else if rule_type b = EQUALS_TO \<and> rule_type a \<noteq> EQUALS_TO then True
     else str_less (rule_text a) (rule_text b))"

text \<open>A request of the configuration: its \<^verbatim>\<open>std::set<Match_Rule>\<close>, name and index.\<close>

record server_request =
  match_rules :: "(match_rule \<times> unit) list"
  request_name :: string
  request_index :: nat

record schema_request_match =
  header_match :: "schema_header_match list"
  payload_match :: "schema_payload_match list"
  schema_request_name :: string

definition server_request_of :: "schema_request_match \<Rightarrow> nat \<Rightarrow> server_request" where
  "server_request_of m index =
     \<lparr> match_rules =
         foldl (\<lambda>s r. omap_insert rule_less s r ()) []
           (map rule_of_header_match (header_match m) @ map rule_of_payload_match (payload_match m)),
       request_name = schema_request_name m, request_index = index \<rparr>"

definition rules_of :: "server_request \<Rightarrow> match_rule list" where
  "rules_of q = map fst (match_rules q)"

text \<open>The loop of \<^verbatim>\<open>H2Server_Request::match\<close> over the rules from the last to the first.\<close>

fun match_all :: "'a match_env_scheme \<Rightarrow> match_rule list \<Rightarrow> request_message
    \<Rightarrow> (bool \<times> request_message) result" where
  "match_all env [] msg = Inr (True, msg)"
| "match_all env (r # rs) msg =
     andthen (rule_match env r msg) (\<lambda>(b, msg'). if \<not> b then Inr (False, msg') else match_all env rs msg')"

definition request_match :: "'a match_env_scheme \<Rightarrow> server_request \<Rightarrow> request_message
    \<Rightarrow> (bool \<times> request_message) result" where
  "request_match env q msg = match_all env (rev (rules_of q)) msg"

text \<open>\<^verbatim>\<open>H2Server_Request::operator<\<close>\<close>

fun rules_less :: "match_rule list \<Rightarrow> match_rule list \<Rightarrow> bool" where
  "rules_less (a # as) (b # bs) =
     (if rule_less a b then True else if rule_less b a then False else rules_less as bs)"
| "rules_less _ _ = False"

definition request_less :: "server_request \<Rightarrow> server_request \<Rightarrow> bool" where
  "request_less p q =
    (if length (match_rules p) < length (match_rules q) then True
     else if length (match_rules q) < length (match_rules p) then False
     else rules_less (rev (rules_of p)) (rev (rules_of q)))"

section \<open>The orders are strict weak orders\<close>

definition rule_key :: "match_rule \<Rightarrow> nat list" where
  "rule_key r = (if rule_header r = [] then 0 else 1) # (if rule_type r = EQUALS_TO then 1 else 0) #
     map char_code (rule_text r)"

lemma lexless_map: "lexless lt (map f a) (map f b) \<longleftrightarrow> lexless (\<lambda>x y. lt (f x) (f y)) a b"
proof (induction a arbitrary: b)
  case Nil
  show ?case by (cases b) auto
next
  case (Cons x a)
  then show ?case by (cases b) auto
qed

lemma rule_less_key: "rule_less a b \<longleftrightarrow> lexless nat_less (rule_key a) (rule_key b)"
  by (auto simp: rule_less_def rule_key_def str_less_def lexless_map nat_less_def)

interpretation rule: comparator rule_less
  unfolding rule_less_key [abs_def]
  by (rule comparator_on [OF comparator_lexless [OF num.comparator_axioms]])

lemma equiv_rule_less: "equiv_by rule_less a b \<longleftrightarrow> rule_key a = rule_key b"
proof -
  have "equiv_by rule_less a b \<longleftrightarrow> equiv_by (lexless nat_less) (rule_key a) (rule_key b)"
    by (simp add: equiv_by_def rule_less_key)
  also have "\<dots> \<longleftrightarrow> list_all2 (equiv_by nat_less) (rule_key a) (rule_key b)"
    by (rule equiv_lexless [OF num.comparator_axioms])
  also have "\<dots> \<longleftrightarrow> rule_key a = rule_key b"
    by (simp add: list_all2_conv_all_nth list_eq_iff_nth_eq)
  finally show ?thesis .
qed

lemma comparator_then:
  assumes "comparator lt"
  shows "comparator (\<lambda>a b. (f a :: nat) < f b \<or> (f a = f b \<and> lt a b))"
proof
  let ?lt = "\<lambda>a b. (f a :: nat) < f b \<or> (f a = f b \<and> lt a b)"
  have eq: "equiv_by ?lt a b \<longleftrightarrow> f a = f b \<and> equiv_by lt a b" for a b
    by (auto simp: equiv_by_def)
  show "\<not> ?lt a a" for a by (simp add: comparator.lt_irrefl [OF assms])
  show "?lt a b \<Longrightarrow> ?lt b c \<Longrightarrow> ?lt a c" for a b c
    using comparator.lt_trans [OF assms, of a b c] by auto
  show "equiv_by ?lt a b \<Longrightarrow> equiv_by ?lt b c \<Longrightarrow> equiv_by ?lt a c" for a b c
    unfolding eq using comparator.incomparable_trans [OF assms, of a b c] by auto
qed

lemma rules_less_lexless: "length a = length b \<Longrightarrow> rules_less a b \<longleftrightarrow> lexless rule_less a b"
  by (induction a b rule: rules_less.induct) (auto dest: rule.lt_asym)

interpretation request: comparator request_less
proof -
  have "request_less = (\<lambda>p q. length (match_rules p) < length (match_rules q) \<or>
      (length (match_rules p) = length (match_rules q) \<and>
       lexless rule_less (rev (rules_of p)) (rev (rules_of q))))"
    by (auto simp: request_less_def fun_eq_iff rules_less_lexless rules_of_def)
  moreover have "comparator (\<lambda>p q. lexless rule_less (rev (rules_of p)) (rev (rules_of q)))"
    by (rule comparator_on [OF comparator_lexless [OF rule.comparator_axioms]])
  ultimately show "comparator request_less"
    using comparator_then [of "\<lambda>p q. lexless rule_less (rev (rules_of p)) (rev (rules_of q))"
        "\<lambda>p. length (match_rules p)"] by simp
qed

section \<open>Matching with the cache\<close>

text \<open>What a rule says of a request, without the cache.\<close>

definition rule_holds :: "'a match_env_scheme \<Rightarrow> match_rule \<Rightarrow> request_message \<Rightarrow> bool result" where
  "rule_holds env r msg =
    (if rule_header r \<noteq> [] then
       Inr (list_ex (match_subject env r) (equal_range (msg_headers msg) (rule_header r)))
     else if rule_pointer r \<noteq> [] then match_json_doc env r (json_payload (decode_json_if_not_yet env msg))
     else Inr (match_subject env r (raw_payload msg)))"

definition same_content :: "'a match_env_scheme \<Rightarrow> request_message \<Rightarrow> request_message \<Rightarrow> bool" where
  "same_content env m m' \<longleftrightarrow> msg_headers m = msg_headers m' \<and> raw_payload m = raw_payload m' \<and>
     json_payload (decode_json_if_not_yet env m) = json_payload (decode_json_if_not_yet env m')"

definition same_rule :: "match_rule \<Rightarrow> match_rule \<Rightarrow> bool" where
  "same_rule r r' \<longleftrightarrow> rule_type r = rule_type r' \<and> rule_header r = rule_header r' \<and>
     rule_pointer r = rule_pointer r' \<and> rule_object r = rule_object r'"

definition ids_faithful :: "match_rule set \<Rightarrow> bool" where
  "ids_faithful rules \<longleftrightarrow>
     (\<forall>r \<in> rules. \<forall>r' \<in> rules. unique_id r = unique_id r' \<longrightarrow> same_rule r r')"

definition cache_ok :: "'a match_env_scheme \<Rightarrow> match_rule set \<Rightarrow> request_message \<Rightarrow> bool" where
  "cache_ok env rules msg \<longleftrightarrow> omap_ok nat_less (match_result msg) \<and>
     (\<forall>r \<in> rules. \<forall>b. omap_find nat_less (match_result msg) (unique_id r) = Some b \<longrightarrow>
        rule_holds env r msg = Inr b)"

lemma same_content_refl [simp]: "same_content env m m"
  by (simp add: same_content_def)

lemma same_content_trans: "same_content env a b \<Longrightarrow> same_content env b c \<Longrightarrow> same_content env a c"
  by (simp add: same_content_def)

lemma rule_holds_same: "same_content env m m' \<Longrightarrow> rule_holds env r m = rule_holds env r m'"
  by (simp add: rule_holds_def same_content_def)

lemma rule_holds_rule: "same_rule r r' \<Longrightarrow> rule_holds env r m = rule_holds env r' m"
proof -
  assume s: "same_rule r r'"
  then have "match_subject env r = match_subject env r'"
    by (simp add: match_subject_def [abs_def] same_rule_def)
  with s show ?thesis by (simp add: rule_holds_def match_json_doc_def same_rule_def)
qed

lemma same_content_decode [simp]: "same_content env m (decode_json_if_not_yet env m)"
  by (auto simp: same_content_def decode_json_if_not_yet_def split: option.split)

lemma same_content_result [simp]:
  "same_content env m (m' \<lparr> match_result := x \<rparr>) \<longleftrightarrow> same_content env m m'"
  by (auto simp: same_content_def decode_json_if_not_yet_def split: option.split)

lemma match_result_decode [simp]: "match_result (decode_json_if_not_yet env m) = match_result m"
  by (simp add: decode_json_if_not_yet_def split: option.split)

lemma cache_ok_store:
  assumes "cache_ok env rules m" "ids_faithful rules" "r \<in> rules" "same_content env m m'"
    and "match_result m' = match_result m" "rule_holds env r m = Inr b"
  shows "cache_ok env rules (m' \<lparr> match_result := omap_set nat_less (match_result m') (unique_id r) b \<rparr>)"
    (is "cache_ok env rules ?m")
proof -
  have same: "rule_holds env q ?m = rule_holds env q m" for q
    using assms(4) rule_holds_same [of env m ?m q] by simp
  have sorted: "omap_ok nat_less (match_result m)"
    and old: "\<And>q x. q \<in> rules \<Longrightarrow> omap_find nat_less (match_result m) (unique_id q) = Some x \<Longrightarrow>
      rule_holds env q m = Inr x"
    using assms(1) by (simp_all add: cache_ok_def)
  have find: "omap_find nat_less (match_result ?m) i =
      (if unique_id r = i then Some b else omap_find nat_less (match_result m) i)" for i
    using num.find_set [OF sorted] assms(5) by simp
  have "rule_holds env q m = Inr x"
    if q: "q \<in> rules" and x: "omap_find nat_less (match_result ?m) (unique_id q) = Some x" for q x
  proof (cases "unique_id r = unique_id q")
    case True
    then have "same_rule q r" using q assms(2,3) by (auto simp: ids_faithful_def)
    moreover have "Some b = Some x" using trans [OF find [symmetric] x] True by simp
    ultimately show ?thesis using assms(6) rule_holds_rule [of q r env m] by simp
  next
    case False
    then have "omap_find nat_less (match_result m) (unique_id q) = Some x"
      using trans [OF find [symmetric] x] by simp
    with q show ?thesis by (rule old)
  qed
  moreover have "omap_ok nat_less (match_result ?m)"
    using sorted assms(5) by (simp add: num.omap_ok_set)
  ultimately show ?thesis unfolding cache_ok_def same by blast
qed

lemma rule_match_ok:
  assumes "cache_ok env rules m" "ids_faithful rules" "r \<in> rules" "rule_holds env r m = Inr b"
  shows "\<exists>m'. rule_match env r m = Inr (b, m') \<and> same_content env m m' \<and> cache_ok env rules m'"
proof (cases "omap_find nat_less (match_result m) (unique_id r)")
  case None
  have "\<exists>m1. rule_match env r m = Inr (b, m1 \<lparr> match_result :=
      omap_set nat_less (match_result m1) (unique_id r) b \<rparr>) \<and> same_content env m m1 \<and>
      match_result m1 = match_result m"
  proof (cases "rule_header r = [] \<and> rule_pointer r \<noteq> []")
    case True
    with assms(4) None show ?thesis
      by (intro exI [of _ "decode_json_if_not_yet env m"]) (simp add: rule_match_def rule_holds_def Let_def)
  next
    case False
    with assms(4) None show ?thesis
      by (intro exI [of _ m]) (auto simp: rule_match_def rule_holds_def)
  qed
  then obtain m1 where m1: "rule_match env r m = Inr (b, m1 \<lparr> match_result :=
      omap_set nat_less (match_result m1) (unique_id r) b \<rparr>)" "same_content env m m1"
      "match_result m1 = match_result m" by blast
  with cache_ok_store [OF assms(1-3) m1(2,3) assms(4)] show ?thesis by simp
next
  case (Some x)
  with assms have "x = b" by (auto simp: cache_ok_def)
  with Some assms(1) show ?thesis by (simp add: rule_match_def)
qed

lemma match_all_ok:
  assumes "cache_ok env rules m" "ids_faithful rules" "set rs \<subseteq> rules"
    and "\<forall>r \<in> set rs. rule_holds env r m = Inr (h r)"
  shows "\<exists>m'. match_all env rs m = Inr (list_all h rs, m') \<and> same_content env m m' \<and> cache_ok env rules m'"
  using assms
proof (induction rs arbitrary: m)
  case (Cons r rs)
  then obtain m1 where m1: "rule_match env r m = Inr (h r, m1)" "same_content env m m1"
    "cache_ok env rules m1"
    using rule_match_ok [of env rules m r "h r"] by auto
  show ?case
  proof (cases "h r")
    case False
    with m1 show ?thesis by simp
  next
    case True
    have "\<forall>q \<in> set rs. rule_holds env q m1 = Inr (h q)"
      using Cons.prems(4) rule_holds_same [OF m1(2)] by auto
    moreover have "set rs \<subseteq> rules" using Cons.prems(3) by simp
    ultimately obtain m2 where m2: "match_all env rs m1 = Inr (list_all h rs, m2)"
      "same_content env m1 m2" "cache_ok env rules m2"
      using Cons.IH [OF m1(3) assms(2)] by blast
    with True m1 same_content_trans [OF m1(2) m2(2)] show ?thesis by simp
  qed
qed simp

lemma request_match_ok:
  assumes "cache_ok env rules m" "ids_faithful rules" "set (rules_of q) \<subseteq> rules"
    and "\<forall>r \<in> set (rules_of q). rule_holds env r m = Inr (h r)"
  shows "\<exists>m'. request_match env q m = Inr (list_all h (rules_of q), m') \<and>
    same_content env m m' \<and> cache_ok env rules m'"
  using match_all_ok [OF assms(1,2), of "rev (rules_of q)" h] assms(3,4)
  by (simp add: request_match_def list_all_rev)

section \<open>The four string tests\<close>

lemma match_string_iff:
  "match_string env EQUALS_TO object subject \<longleftrightarrow> subject = object"
  "match_string env START_WITH object subject \<longleftrightarrow> (\<exists>t. subject = object @ t)"
  "match_string env END_WITH object subject \<longleftrightarrow> (\<exists>t. subject = t @ object)"
  "match_string env CONTAINS object subject \<longleftrightarrow> (\<exists>t u. subject = t @ object @ u)"
proof -
  show "match_string env EQUALS_TO object subject \<longleftrightarrow> subject = object"
    by (simp add: match_string_def)
  show "match_string env START_WITH object subject \<longleftrightarrow> (\<exists>t. subject = object @ t)"
    by (auto simp: match_string_def find_list_Some occurs_at_split)
  show "match_string env END_WITH object subject \<longleftrightarrow> (\<exists>t. subject = t @ object)"
    using ends_with_iff [of subject object]
    by (simp add: match_string_def ends_with_def substr_def)
  show "match_string env CONTAINS object subject \<longleftrightarrow> (\<exists>t u. subject = t @ object @ u)"
    by (auto simp: match_string_def find_list_None occurs_at_split)
qed

end
