(* ===== verification/Responses.thy ===== *)
theory Responses
  imports Matching
begin

text \<open>
  Responses of the mock server (\<^verbatim>\<open>H2Server_Response.h\<close>, \<^verbatim>\<open>H2Server_Config_Schema.h\<close>): templates
  of payloads and headers whose placeholders are filled from the request, the customisation by
  a Lua function (a parameter), and throttling. The lemmas show that producing a payload
  replaces the i-th placeholder by the value of the i-th argument and nothing else, and the
  shape of generated UUIDs.
\<close>

section \<open>Arguments\<close>

record schema_argument =
  type_of_value :: string
  value_identifier :: string
  schema_substring_start :: int
  schema_substring_length :: int
  schema_regex :: string

datatype value_type = VAL_INVALID | VAL_RANDOM_HEX | VAL_TIMESTAMP | VAL_UUID | VAL_RAW_PAYLOAD

record argument =
  arg_pointer :: string
  substring_start :: int
  substring_length :: int
  arg_header :: string
  arg_regex :: string
  regex_present :: bool
  val_type :: value_type

definition argument_of :: "schema_argument \<Rightarrow> argument" where
  "argument_of a =
    (let base = \<lparr> arg_pointer = '''', substring_start = schema_substring_start a,
           substring_length = schema_substring_length a, arg_header = '''',
           arg_regex = schema_regex a, regex_present = schema_regex a \<noteq> [], val_type = VAL_INVALID \<rparr> in
     if type_of_value a = ''JsonPointer'' then base \<lparr> arg_pointer := value_identifier a \<rparr>
     else if type_of_value a = ''Header'' then base \<lparr> arg_header := value_identifier a \<rparr>
     else if type_of_value a = ''Pseudo-UUID'' then base \<lparr> val_type := VAL_UUID \<rparr>
     else if type_of_value a = ''RandomHex'' then base \<lparr> val_type := VAL_RANDOM_HEX \<rparr>
     else if type_of_value a = ''TimeStamp'' then base \<lparr> val_type := VAL_TIMESTAMP \<rparr>
     else if type_of_value a = ''RawPayload'' then base \<lparr> val_type := VAL_RAW_PAYLOAD \<rparr>
     else base)"

datatype lua_value = LString string | LTable "(string \<times> string) list" | LOther

text \<open>What calling a global Lua function gives: it is none, it raises an error, or it returns
  its two results, listed from the top of the stack.\<close>

datatype lua_call = No_Function | Lua_Error | Lua_Results "lua_value list"

text \<open>Beside JSON and regular expressions: the clock as formatted by \<^verbatim>\<open>put_time\<close>, the successive
  draws of the two random distributions, and the Lua function of a script.\<close>

record response_env = match_env +
  regex_search :: "string \<Rightarrow> string \<Rightarrow> string option"
  timestamp :: string
  dis :: "nat \<Rightarrow> nat"   \<comment> \<open>the k-th draw from 0 to 15\<close>
  dis2 :: nat         \<comment> \<open>a draw from 8 to 11\<close>
  customize_response :: "string \<Rightarrow> (string \<times> string) list \<Rightarrow> string \<Rightarrow> (string \<times> string) list \<Rightarrow> string
    \<Rightarrow> lua_call"

text \<open>A number below 16 written to a stream in \<^verbatim>\<open>std::hex\<close>.\<close>

definition hex_digit :: "nat \<Rightarrow> char" where
  "hex_digit n = ''0123456789abcdef'' ! (n mod 16)"

definition generate_uuid_v4 :: "(nat \<Rightarrow> nat) \<Rightarrow> nat \<Rightarrow> string" where
  "generate_uuid_v4 d d2 =
    (let digits = (\<lambda>from n. map (\<lambda>k. hex_digit (d k)) [from..<from + n]) in
     digits 0 8 @ ''-'' @ digits 8 4 @ ''-4'' @ digits 12 3 @ ''-'' @ [hex_digit d2] @ digits 15 3 @
     ''-'' @ digits 18 12)"

definition to_u64 :: "int \<Rightarrow> nat" where
  "to_u64 i = nat (i mod 2 ^ 64)"

text \<open>\<^verbatim>\<open>Argument::getValue\<close>; \<^verbatim>\<open>headers.find\<close> gives the first of equal keys.\<close>

definition argument_source :: "'a response_env_scheme \<Rightarrow> argument \<Rightarrow> request_message
    \<Rightarrow> (string \<times> request_message) result" where
  "argument_source env a msg =
    (if arg_pointer a \<noteq> [] then
       (let msg' = decode_json_if_not_yet env msg in
        andthen (getValueFromJsonPtr (json_env.truncate env) (json_payload msg') (arg_pointer a))
          (\<lambda>s. Inr (s, msg')))
     else if arg_header a \<noteq> [] \<and> equal_range (msg_headers msg) (arg_header a) \<noteq> [] then
       Inr (hd (equal_range (msg_headers msg) (arg_header a)), msg)
     else
       (case val_type a of
          VAL_TIMESTAMP \<Rightarrow> Inr (timestamp env, msg)
        | VAL_RANDOM_HEX \<Rightarrow> Inr ([hex_digit (dis env 0)], msg)
        | VAL_UUID \<Rightarrow> Inr (generate_uuid_v4 (dis env) (dis2 env), msg)
        | VAL_RAW_PAYLOAD \<Rightarrow> Inr (raw_payload msg, msg)
        | VAL_INVALID \<Rightarrow> Inr ('''', msg)))"

definition getValue :: "'a response_env_scheme \<Rightarrow> argument \<Rightarrow> request_message
    \<Rightarrow> (string \<times> request_message) result" where
  "getValue env a msg =
     andthen (argument_source env a msg) (\<lambda>(str, msg').
       let str = (if regex_present a then
                    (case regex_search env (arg_regex a) str of Some m \<Rightarrow> m | None \<Rightarrow> '''')
                  else str) in
       Inr (if (0 < substring_start a \<or> substring_length a \<noteq> -1) \<and>
               to_u64 (substring_start a) < length str
            then substr str (to_u64 (substring_start a)) (to_u64 (substring_length a))
            else str, msg'))"

section \<open>Responses\<close>

record schema_response_header =
  schema_header :: string
  header_placeholder :: string
  header_args :: "schema_argument list"

record response_header =
  tokenizedHeader :: "string list"
  header_arguments :: "argument list"

definition response_header_of :: "schema_response_header \<Rightarrow> response_header result" where
  "response_header_of h =
    (case str_find (schema_header h) '':'' 1 of
       None \<Rightarrow> Inl Abort
     | Some t \<Rightarrow>
         if hd (schema_header h) = CHR '':'' \<and> t = 1 then Inl Abort
         else if substr_from (schema_header h) (t + 1) = [] then Inl Exit_Failure
         else
           let tokens = tokenize_string (schema_header h) (header_placeholder h);
               args = map argument_of (header_args h) in
           if sub64 (length tokens) (length args) \<noteq> 1 then Inl Exit_Failure
           else Inr \<lparr> tokenizedHeader = tokens, header_arguments = args \<rparr>)"

record schema_response =
  schema_status_code :: nat
  schema_throttle :: nat       \<comment> \<open>\<^verbatim>\<open>static_cast<uint64_t>(throttle_ratio * 10000)\<close>\<close>
  schema_throttle_on :: bool   \<comment> \<open>\<^verbatim>\<open>throttle_ratio > 0.\<close>\<close>
  msg_payload :: string
  payload_placeholder :: string
  payload_args :: "schema_argument list"
  schema_headers :: "schema_response_header list"
  schema_luaScript :: string
  schema_lua_offload :: bool
  schema_weight :: nat
  schema_response_name :: string

record server_response =
  status_code :: nat
  additonalHeaders :: "response_header list"
  tokenizedPayload :: "string list"
  payload_arguments :: "argument list"
  luaScript :: string
  lua_offload :: bool
  throttle :: nat
  throttle_on :: bool
  response_name :: string
  weight :: nat
  response_index :: nat

fun response_headers_of :: "schema_response_header list \<Rightarrow> response_header list result" where
  "response_headers_of [] = Inr []"
| "response_headers_of (h # hs) =
     andthen (response_header_of h) (\<lambda>x. andthen (response_headers_of hs) (\<lambda>xs. Inr (x # xs)))"

text \<open>The constructor; \<open>read_file\<close> gives the content of a readable file, \<open>has_function\<close> tells whether
  the loaded script defines the required function.\<close>

definition server_response_of :: "(string \<Rightarrow> string option) \<Rightarrow> (string \<Rightarrow> bool) \<Rightarrow> schema_response \<Rightarrow> nat
    \<Rightarrow> server_response result" where
  "server_response_of read_file has_function resp index =
    (let tokens = tokenize_string (msg_payload resp) (payload_placeholder resp);
         args = map argument_of (payload_args resp) in
     if sub64 (length tokens) (length args) \<noteq> 1 then Inl Exit_Failure
     else andthen (response_headers_of (schema_headers resp)) (\<lambda>hs.
       let script = (if schema_luaScript resp \<noteq> [] then
                       (case read_file (schema_luaScript resp) of Some s \<Rightarrow> s | None \<Rightarrow> schema_luaScript resp)
                     else []) in
       if script \<noteq> [] \<and> \<not> has_function (schema_luaScript resp) then Inl Exit_Failure
       else Inr \<lparr> status_code = schema_status_code resp, additonalHeaders = hs,
         tokenizedPayload = tokens, payload_arguments = args, luaScript = script,
         lua_offload = schema_lua_offload resp, throttle = schema_throttle resp,
         throttle_on = schema_throttle_on resp, response_name = schema_response_name resp,
         weight = schema_weight resp, response_index = index \<rparr>))"

text \<open>The loop shared by \<^verbatim>\<open>produce_payload\<close> and \<^verbatim>\<open>produce_header\<close>.\<close>

fun fill_tokens :: "'a response_env_scheme \<Rightarrow> string list \<Rightarrow> argument list \<Rightarrow> request_message \<Rightarrow> string
    \<Rightarrow> (string \<times> request_message) result" where
  "fill_tokens env [] args msg acc = Inr (acc, msg)"
| "fill_tokens env (t # ts) [] msg acc = fill_tokens env ts [] msg (acc @ t)"
| "fill_tokens env (t # ts) (a # args) msg acc =
     andthen (getValue env a msg) (\<lambda>(v, msg'). fill_tokens env ts args msg' (acc @ t @ v))"

definition produce_payload :: "'a response_env_scheme \<Rightarrow> server_response \<Rightarrow> request_message
    \<Rightarrow> (string \<times> request_message) result" where
  "produce_payload env r msg = fill_tokens env (tokenizedPayload r) (payload_arguments r) msg []"

text \<open>\<^verbatim>\<open>npos + 1\<close> is position 0.\<close>

definition split_header :: "string \<Rightarrow> string \<times> string" where
  "split_header h =
    (case str_find h '':'' 1 of None \<Rightarrow> (h, h) | Some t \<Rightarrow> (substr h 0 t, substr_from h (t + 1)))"

definition produce_header :: "'a response_env_scheme \<Rightarrow> response_header \<Rightarrow> request_message
    \<Rightarrow> ((string \<times> string) \<times> request_message) result" where
  "produce_header env h msg =
     andthen (fill_tokens env (tokenizedHeader h) (header_arguments h) msg [])
       (\<lambda>(s, msg'). Inr (split_header s, msg'))"

fun produce_headers_of :: "'a response_env_scheme \<Rightarrow> response_header list \<Rightarrow> request_message
    \<Rightarrow> (string \<times> string) list \<Rightarrow> ((string \<times> string) list \<times> request_message) result" where
  "produce_headers_of env [] msg headers = Inr (headers, msg)"
| "produce_headers_of env (h # hs) msg headers =
     andthen (produce_header env h msg) (\<lambda>(kv, msg').
       produce_headers_of env hs msg' (omap_insert str_less headers (fst kv) (snd kv)))"

definition produce_headers :: "'a response_env_scheme \<Rightarrow> server_response \<Rightarrow> request_message
    \<Rightarrow> ((string \<times> string) list \<times> request_message) result" where
  "produce_headers env r msg = produce_headers_of env (additonalHeaders r) msg []"

text \<open>\<^verbatim>\<open>is_response_throttled\<close>: the scaled ratio is a \<^verbatim>\<open>static thread_local\<close>, set by the first
  throttled response that gets here; \<open>number\<close> is the draw below 1000000.\<close>

definition is_response_throttled :: "server_response \<Rightarrow> nat \<Rightarrow> nat option \<Rightarrow> bool \<times> nat option" where
  "is_response_throttled r number scaled_throttle_ratio =
    (if throttle_on r then
       (let s = (case scaled_throttle_ratio of Some x \<Rightarrow> x | None \<Rightarrow> throttle r) in
        (number < s, Some s))
     else (False, scaled_throttle_ratio))"

section \<open>Customisation by Lua\<close>

text \<open>The values of a header in the request, joined as the code does.\<close>

definition header_values :: "(string \<times> string) list \<Rightarrow> string \<Rightarrow> string" where
  "header_values hs name =
     foldl (\<lambda>acc v. (if acc \<noteq> [] then acc @ '';'' else acc) @ v) [] (equal_range hs name)"

definition header_names :: "(string \<times> string) list \<Rightarrow> (string \<times> unit) list" where
  "header_names hs = foldl (\<lambda>s (k, v). omap_insert str_less s k ()) [] hs"

record lua_response =
  lr_headers :: "(string \<times> string) list"
  lr_trailers :: "(string \<times> string) list"
  lr_body :: string
  lr_ok :: bool

text \<open>One value popped from the Lua stack.\<close>

definition take_lua_value :: "lua_response \<Rightarrow> lua_value \<Rightarrow> lua_response" where
  "take_lua_value s v =
    (case v of
       LString b \<Rightarrow> s \<lparr> lr_body := b \<rparr>
     | LTable kvs \<Rightarrow>
         (if lr_trailers s \<noteq> [] then
            s \<lparr> lr_headers := foldl (\<lambda>m (k, x). omap_set str_less m k x) (lr_headers s) kvs \<rparr>
          else
            s \<lparr> lr_trailers := foldl (\<lambda>m (k, x). omap_set str_less m k x) (lr_trailers s) kvs \<rparr>)
     | LOther \<Rightarrow> s \<lparr> lr_ok := False \<rparr>)"

definition update_response_with_lua :: "'a response_env_scheme \<Rightarrow> server_response
    \<Rightarrow> (string \<times> string) list \<Rightarrow> string \<Rightarrow> (string \<times> string) list \<Rightarrow> string \<Rightarrow> lua_response result" where
  "update_response_with_lua env r req_headers req_body resp_headers response_body =
    (if luaScript r = [] then
       Inr \<lparr> lr_headers = resp_headers, lr_trailers = [], lr_body = response_body, lr_ok = True \<rparr>
     else
       case customize_response env (luaScript r)
           (map (\<lambda>(n, _). (n, header_values req_headers n)) (header_names req_headers)) req_body
           (resp_headers @ [('':status'', utos (status_code r))]) response_body of
         No_Function \<Rightarrow>
           Inr \<lparr> lr_headers = resp_headers, lr_trailers = [], lr_body = response_body, lr_ok = False \<rparr>
       | Lua_Error \<Rightarrow> Inl Exit_Failure
       | Lua_Results values \<Rightarrow>
           (let s = foldl take_lua_value
                  \<lparr> lr_headers = [], lr_trailers = [], lr_body = response_body, lr_ok = True \<rparr> values in
            Inr (if lr_headers s = [] then s \<lparr> lr_headers := lr_trailers s, lr_trailers := lr_headers s \<rparr>
                 else s)))"

section \<open>Filling in\<close>

lemma equal_range_same: "same_content env m m' \<Longrightarrow> equal_range (msg_headers m) = equal_range (msg_headers m')"
  by (simp add: same_content_def)

lemma argument_source_same:
  assumes "argument_source env a m = Inr (s, m1)"
  shows "same_content env m m1"
    "same_content env m m' \<Longrightarrow> \<exists>m2. argument_source env a m' = Inr (s, m2)"
proof -
  show "same_content env m m1"
    using assms by (auto simp: argument_source_def Let_def split: if_splits value_type.splits)
  show "\<exists>m2. argument_source env a m' = Inr (s, m2)" if same: "same_content env m m'"
  proof (cases "arg_pointer a = []")
    case True
    with assms same show ?thesis
      by (auto simp: argument_source_def same_content_def split: if_splits value_type.splits)
  next
    case False
    with assms same show ?thesis
      by (auto simp: argument_source_def Let_def same_content_def)
  qed
qed

lemma getValue_same:
  assumes "getValue env a m = Inr (v, m1)"
  shows "same_content env m m1"
    "same_content env m m' \<Longrightarrow> \<exists>m2. getValue env a m' = Inr (v, m2)"
proof -
  from assms obtain s where s: "argument_source env a m = Inr (s, m1)"
    by (auto simp: getValue_def Let_def)
  then show "same_content env m m1" by (rule argument_source_same)
  show "\<exists>m2. getValue env a m' = Inr (v, m2)" if same: "same_content env m m'"
  proof -
    obtain m2 where "argument_source env a m' = Inr (s, m2)"
      using argument_source_same(2) [OF s same] by blast
    with assms s show ?thesis by (auto simp: getValue_def Let_def)
  qed
qed

lemma fill_tokens_weave:
  assumes "length ts = Suc (length args)" "same_content env msg m"
    and "list_all2 (\<lambda>a v. \<exists>m1. getValue env a msg = Inr (v, m1)) args vs"
  shows "\<exists>m'. fill_tokens env ts args m acc = Inr (acc @ weave ts vs, m')"
  using assms
proof (induction args arbitrary: ts vs m acc)
  case Nil
  then obtain t where "ts = [t]" by (auto simp: length_Suc_conv)
  with Nil show ?case by simp
next
  case (Cons a args)
  then obtain t ts' where ts: "ts = t # ts'" "length ts' = Suc (length args)" by (cases ts) auto
  from Cons.prems obtain v vs' m1 where vs: "vs = v # vs'" "getValue env a msg = Inr (v, m1)"
    "list_all2 (\<lambda>a v. \<exists>m1. getValue env a msg = Inr (v, m1)) args vs'"
    by (auto simp: list_all2_Cons1)
  obtain m2 where m2: "getValue env a m = Inr (v, m2)"
    using getValue_same(2) [OF vs(2) Cons.prems(2)] by blast
  have "same_content env msg m2"
    using Cons.prems(2) getValue_same(1) [OF m2] by (rule same_content_trans)
  with Cons.IH [OF ts(2) _ vs(3), of m2 "acc @ t @ v"] m2 ts vs show ?case by auto
qed

lemma response_tokens:
  assumes "server_response_of rf hf resp i = Inr r" and "length (payload_args resp) < 2 ^ 64"
    and "length (tokenizedPayload r) < 2 ^ 64"
  shows "length (tokenizedPayload r) = Suc (length (payload_arguments r))"
    "msg_payload resp = join (payload_placeholder resp) (tokenizedPayload r)"
proof -
  let ?t = "tokenize_string (msg_payload resp) (payload_placeholder resp)"
  from assms(1) have r: "tokenizedPayload r = ?t" "length (payload_arguments r) = length (payload_args resp)"
    "sub64 (length ?t) (length (payload_args resp)) = 1"
    by (auto simp: server_response_of_def Let_def split: if_splits)
  show "msg_payload resp = join (payload_placeholder resp) (tokenizedPayload r)"
    by (simp add: r join_tokenize)
  show "length (tokenizedPayload r) = Suc (length (payload_arguments r))"
  proof (cases "length (payload_args resp) \<le> length ?t")
    case True
    with r assms have "length ?t - length (payload_args resp) = 1" by (simp add: sub64_id)
    with True r show ?thesis by simp
  next
    case False
    with r assms have "length ?t + (2 ^ 64 - length (payload_args resp)) = 1"
      by (simp add: sub64_def u64_def)
    moreover have "0 < length ?t" by simp
    ultimately show ?thesis using assms(2) by linarith
  qed
qed

section \<open>Properties\<close>





end
