(* ===== verification/Server.thy ===== *)
theory Server
  imports Responses Schedule
begin

text \<open>
  The mock server's table of services (\<^verbatim>\<open>H2Server.h\<close>): response groups with weighted choice, the
  \<^verbatim>\<open>std::map<H2Server_Request, H2Server_Response_Group>\<close>, the numbering of the match rules and
  the search for the service of a request. The lemmas show that the search returns the
  greatest service, in the order of the map, all of whose rules hold.
\<close>

section \<open>Response groups\<close>

record response_group =
  responses :: "server_response list"
  distribution_map :: schedule
  group_total_weight :: nat

fun distribution_from :: "nat \<Rightarrow> nat list \<Rightarrow> nat \<Rightarrow> schedule \<Rightarrow> schedule" where
  "distribution_from index [] totalWeight m = m"
| "distribution_from index (w # ws) totalWeight m =
     (if w \<noteq> 0 then
        let totalWeight = add64 totalWeight w in
        distribution_from (index + 1) ws totalWeight (omap_set nat_less m totalWeight index)
      else distribution_from (index + 1) ws totalWeight m)"

definition init_distribution_map_and_total_weight :: "server_response list \<Rightarrow> response_group" where
  "init_distribution_map_and_total_weight rs =
    (let m = distribution_from 0 (map weight rs) 0 [] in
     \<lparr> responses = rs, distribution_map = m,
       group_total_weight = (if m \<noteq> [] then fst (last m) else 1) \<rparr>)"

fun server_responses_of :: "(string \<Rightarrow> string option) \<Rightarrow> (string \<Rightarrow> bool) \<Rightarrow> nat \<Rightarrow> schema_response list
    \<Rightarrow> server_response list result" where
  "server_responses_of read_file has_function i [] = Inr []"
| "server_responses_of read_file has_function i (s # ss) =
     andthen (server_response_of read_file has_function s i) (\<lambda>r.
     andthen (server_responses_of read_file has_function (i + 1) ss) (\<lambda>rs. Inr (r # rs)))"

definition response_group_of :: "(string \<Rightarrow> string option) \<Rightarrow> (string \<Rightarrow> bool) \<Rightarrow> schema_response list
    \<Rightarrow> response_group result" where
  "response_group_of read_file has_function schema =
     andthen (server_responses_of read_file has_function 0 schema)
       (\<lambda>rs. Inr (init_distribution_map_and_total_weight rs))"

text \<open>\<^verbatim>\<open>select_response\<close>; \<open>distr\<close> as for the scenarios.\<close>

definition select_response :: "(int \<Rightarrow> int \<Rightarrow> int) \<Rightarrow> response_group \<Rightarrow> nat" where
  "select_response distr g =
    (let m = distribution_map g; first = (if m \<noteq> [] then snd (hd m) else 0) in
     if 1 < length m then
       (case omap_upper_bound nat_less m
           (u64_of_int (distr 0 (int_of_u64 (sub64 (group_total_weight g) 1)))) of
          Some (_, i) \<Rightarrow> i
        | None \<Rightarrow> first)
     else first)"

section \<open>Services\<close>

record schema_service =
  service_request :: schema_request_match
  service_responses :: "schema_response list"

type_synonym services = "(server_request \<times> response_group) list"

fun insert_services :: "(string \<Rightarrow> string option) \<Rightarrow> (string \<Rightarrow> bool) \<Rightarrow> nat \<Rightarrow> schema_service list \<Rightarrow> services
    \<Rightarrow> services result" where
  "insert_services read_file has_function index [] m = Inr m"
| "insert_services read_file has_function index (s # ss) m =
     andthen (response_group_of read_file has_function (service_responses s)) (\<lambda>g.
       insert_services read_file has_function (index + 1) ss
         (omap_insert request_less m (server_request_of (service_request s) index) g))"

text \<open>\<^verbatim>\<open>build_match_rule_unique_id\<close>: the position of a rule in the set of all rules.\<close>

definition all_match_rules :: "services \<Rightarrow> (match_rule \<times> unit) list" where
  "all_match_rules m =
     foldl (\<lambda>s r. omap_insert rule_less s r ()) [] (concat (map (\<lambda>(q, g). rules_of q) m))"

definition rule_number :: "(match_rule \<times> unit) list \<Rightarrow> match_rule \<Rightarrow> nat" where
  "rule_number all r = length (takeWhile (\<lambda>(a, _). rule_less a r) all)"

definition number_rules :: "(match_rule \<times> unit) list \<Rightarrow> server_request \<Rightarrow> server_request" where
  "number_rules all q = q \<lparr> match_rules :=
     map (\<lambda>(r, u). (r \<lparr> unique_id := rule_number all r \<rparr>, u)) (match_rules q) \<rparr>"

definition build_match_rule_unique_id :: "services \<Rightarrow> services" where
  "build_match_rule_unique_id m =
    (let all = all_match_rules m in
     foldl (\<lambda>new (q, g). omap_insert request_less new (number_rules all q) g) [] m)"

definition server_of :: "(string \<Rightarrow> string option) \<Rightarrow> (string \<Rightarrow> bool) \<Rightarrow> schema_service list \<Rightarrow> services result" where
  "server_of read_file has_function config =
     andthen (insert_services read_file has_function 0 config []) (\<lambda>m. Inr (build_match_rule_unique_id m))"

text \<open>The reverse iteration of \<^verbatim>\<open>get_matched_request\<close>.\<close>

fun first_match :: "'a match_env_scheme \<Rightarrow> services \<Rightarrow> request_message
    \<Rightarrow> ((server_request \<times> response_group) option \<times> request_message) result" where
  "first_match env [] msg = Inr (None, msg)"
| "first_match env ((q, g) # m) msg =
     andthen (request_match env q msg) (\<lambda>(b, msg').
       if b then Inr (Some (q, g), msg') else first_match env m msg')"

definition get_matched_request :: "'a match_env_scheme \<Rightarrow> services \<Rightarrow> request_message
    \<Rightarrow> ((server_request \<times> response_group) option \<times> request_message) result" where
  "get_matched_request env services msg = first_match env (rev services) msg"

definition get_response_to_return :: "'a match_env_scheme \<Rightarrow> (int \<Rightarrow> int \<Rightarrow> int) \<Rightarrow> services \<Rightarrow> request_message
    \<Rightarrow> ((nat \<times> nat \<times> server_response) option \<times> request_message) result" where
  "get_response_to_return env distr services msg =
     andthen (get_matched_request env services msg) (\<lambda>(found, msg').
       case found of
         None \<Rightarrow> Inr (None, msg')
       | Some (q, g) \<Rightarrow>
           (let index = select_response distr g in
            andthen (vec_at (responses g) index) (\<lambda>r. Inr (Some (request_index q, index, r), msg'))))"

section \<open>The choice of a response\<close>

lemma distribution_from_eq:
  assumes "acc + sum_list ws < 2 ^ 64" "\<forall>(a, b) \<in> set m. a \<le> acc"
  shows "distribution_from i ws acc m = m @ schedule_of 1 acc i (map (\<lambda>w. (w, 1)) ws)"
  using assms
proof (induction ws arbitrary: i acc m)
  case (Cons w ws)
  show ?case
  proof (cases "w = 0")
    case False
    have a: "add64 acc w = acc + w" using Cons.prems by (intro add64_id) simp
    have "omap_set nat_less m (acc + w) i = m @ [(acc + w, i)]"
      using Cons.prems False by (intro omap_set_last) auto
    moreover have "distribution_from (i + 1) ws (acc + w) (m @ [(acc + w, i)]) =
        (m @ [(acc + w, i)]) @ schedule_of 1 (acc + w) (i + 1) (map (\<lambda>w. (w, 1)) ws)"
      using Cons.prems by (intro Cons.IH) (auto simp: add.assoc)
    ultimately show ?thesis using False a by (simp add: share_def Let_def)
  next
    case True
    with Cons show ?thesis by simp
  qed
qed simp

lemma share_one: "share (Suc 0) (w, Suc 0) = w"
  by (simp add: share_def)

interpretation group: weighted_choice ws "scenario_at (schedule_of 1 0 0 (map (\<lambda>w. (w, 1)) ws))" for ws
proof -
  have "map (share 1) (map (\<lambda>w. (w, 1)) ws) = ws"
    unfolding map_map by (rule map_idI) (simp add: share_one)
  then show "weighted_choice ws (scenario_at (schedule_of 1 0 0 (map (\<lambda>w. (w, 1)) ws)))"
    using scenarios.weighted_choice_axioms [of 1 "map (\<lambda>w. (w, 1)) ws"] by (simp only:)
qed

lemma schedule_empty: "schedule_of 1 a i (map (\<lambda>w. (w, 1)) ws) = [] \<Longrightarrow> sum_list ws = 0"
  by (induction ws arbitrary: a i) (auto split: if_splits)

lemma select_response_at:
  assumes "sum_list (map weight rs) < 2 ^ 64" "r < sum_list (map weight rs)"
    and "g = init_distribution_map_and_total_weight rs"
  shows "select_response (\<lambda>_ _. int r) g =
    scenario_at (schedule_of 1 0 0 (map (\<lambda>w. (w, 1)) (map weight rs))) r"
proof -
  let ?m = "schedule_of 1 0 0 (map (\<lambda>w. (w, 1)) (map weight rs))"
  have m: "distribution_map g = ?m"
    using distribution_from_eq [of 0 "map weight rs" "[]" 0] assms
    by (simp add: init_distribution_map_and_total_weight_def Let_def)
  have u: "u64_of_int (int r) = r" using assms by (simp add: u64_of_int_def nat_mod_as_int [symmetric] zmod_int [symmetric])
  have total: "total_shares 1 (map (\<lambda>w. (w, 1)) (map weight rs)) = sum_list (map weight rs)"
    by (simp add: total_shares_def o_def share_one)
  have some: "\<exists>k i. omap_upper_bound nat_less ?m r = Some (k, i)"
  proof (cases "omap_upper_bound nat_less ?m r")
    case None
    have "?m \<noteq> []" using schedule_empty [of 0 0 "map weight rs"] assms(2) by fastforce
    with last_schedule_of [OF this] total have "fst (last ?m) = sum_list (map weight rs)" by simp
    moreover have "last ?m \<in> set ?m" using \<open>?m \<noteq> []\<close> by simp
    ultimately have False using None assms(2) by (auto simp: num.upper_bound_None nat_less_def)
    then show ?thesis ..
  qed auto
  show ?thesis
  proof (cases "1 < length ?m")
    case True
    with some u m show ?thesis by (auto simp: select_response_def scenario_at_def Let_def)
  next
    case False
    with some obtain k i where "?m = [(k, i)]" "nat_less r k"
      by (cases ?m rule: list.exhaust, simp) (case_tac x22, auto split: if_splits)
    then show ?thesis using m by (simp add: select_response_def scenario_at_def Let_def)
  qed
qed

lemma int_of_u64_small: "n < 2 ^ 31 \<Longrightarrow> int_of_u64 n = int n"
  by (simp add: int_of_u64_def Let_def)

section \<open>The numbering of the rules\<close>

lemma same_rule_number [simp]: "same_rule (r \<lparr> unique_id := i \<rparr>) r' = same_rule r r'"
  "same_rule r (r' \<lparr> unique_id := i \<rparr>) = same_rule r r'"
  by (simp_all add: same_rule_def)

lemma rule_key_number [simp]: "rule_key (r \<lparr> unique_id := i \<rparr>) = rule_key r"
  by (simp add: rule_key_def rule_text_def)

lemma rule_less_number [simp]:
  "rule_less (a \<lparr> unique_id := i \<rparr>) b = rule_less a b"
  "rule_less a (b \<lparr> unique_id := i \<rparr>) = rule_less a b"
  by (simp_all add: rule_less_key)

lemma rules_of_number: "rules_of (number_rules all q) =
    map (\<lambda>r. r \<lparr> unique_id := rule_number all r \<rparr>) (rules_of q)"
  by (simp add: rules_of_def number_rules_def split_def)

lemma rules_less_number:
  "rules_less (map (\<lambda>r. r \<lparr> unique_id := f r \<rparr>) a) (map (\<lambda>r. r \<lparr> unique_id := f r \<rparr>) b) = rules_less a b"
  by (induction a b rule: rules_less.induct) simp_all

lemma request_less_number: "request_less (number_rules all p) (number_rules all q) = request_less p q"
proof -
  have "length (match_rules (number_rules all x)) = length (match_rules x)" for x
    by (simp add: number_rules_def)
  then show ?thesis
    unfolding request_less_def rules_of_number
    by (simp add: rev_map rules_less_number)
qed

lemma build_eq:
  assumes "omap_ok request_less m"
  shows "build_match_rule_unique_id m = map (\<lambda>(q, g). (number_rules (all_match_rules m) q, g)) m"
proof -
  let ?n = "number_rules (all_match_rules m)"
  have "foldl (\<lambda>new (q, g). omap_insert request_less new (?n q) g) acc xs =
      acc @ map (\<lambda>(q, g). (?n q, g)) xs"
    if "omap_ok request_less xs" "\<forall>(a, b) \<in> set acc. \<forall>(q, g) \<in> set xs. request_less a (?n q)"
    for acc xs
    using that
  proof (induction xs arbitrary: acc)
    case (Cons p xs)
    obtain q g where p: "p = (q, g)" by force
    have ins: "omap_insert request_less acc (?n q) g = acc @ [(?n q, g)]"
      using Cons.prems(2) by (intro request.insert_last) (auto simp: p)
    have xs: "omap_ok request_less xs" and less: "\<forall>(a, b) \<in> set xs. request_less (?n q) (?n a)"
      using Cons.prems(1) by (auto simp: p request.omap_ok_Cons request_less_number)
    have "\<forall>(a, b) \<in> set acc. \<forall>(q', g') \<in> set xs. request_less a (?n q')"
      using Cons.prems(2) by (simp add: p split_def)
    with less have "\<forall>(a, b) \<in> set (acc @ [(?n q, g)]). \<forall>(q', g') \<in> set xs. request_less a (?n q')"
      by (simp add: split_def)
    from Cons.IH [OF xs this] ins show ?case by (simp add: p)
  qed simp
  from this [of m "[]"] assms show ?thesis by (simp add: build_match_rule_unique_id_def Let_def)
qed

definition collision_free :: "match_rule list \<Rightarrow> bool" where
  "collision_free rs \<longleftrightarrow> (\<forall>r \<in> set rs. \<forall>r' \<in> set rs. rule_key r = rule_key r' \<longrightarrow> same_rule r r')"

definition config_rules :: "schema_service list \<Rightarrow> match_rule list" where
  "config_rules config = concat (map (\<lambda>s. map rule_of_header_match (header_match (service_request s)) @
     map rule_of_payload_match (payload_match (service_request s))) config)"

lemma rules_of_server_request:
  "set (rules_of (server_request_of m i)) \<subseteq>
    set (map rule_of_header_match (header_match m) @ map rule_of_payload_match (payload_match m))"
  using rule.insert_all(1) [of "[]"
      "map rule_of_header_match (header_match m) @ map rule_of_payload_match (payload_match m)"]
  by (force simp: rules_of_def server_request_of_def)

lemma insert_services_ok:
  assumes "insert_services rf hf i config m = Inr m'" "omap_ok request_less m"
    and "\<forall>(q, g) \<in> set m. set (rules_of q) \<subseteq> R" and "set (config_rules config) \<subseteq> R"
  shows "omap_ok request_less m' \<and> (\<forall>(q, g) \<in> set m'. set (rules_of q) \<subseteq> R)"
  using assms
proof (induction config arbitrary: i m)
  case (Cons s config)
  from Cons.prems(1) obtain g where g:
    "insert_services rf hf (i + 1) config
      (omap_insert request_less m (server_request_of (service_request s) i) g) = Inr m'"
    by auto
  have "set (rules_of (server_request_of (service_request s) i)) \<subseteq> R"
    by (rule subset_trans [OF rules_of_server_request])
      (use Cons.prems(4) in \<open>auto simp: config_rules_def\<close>)
  then have "\<forall>(q, g) \<in> set (omap_insert request_less m (server_request_of (service_request s) i) g).
      set (rules_of q) \<subseteq> R"
    using Cons.prems(3) request.keys_omap_insert [of m "server_request_of (service_request s) i" g]
    by blast
  with Cons.IH [OF g] Cons.prems show ?case
    by (simp add: request.omap_ok_insert config_rules_def)
qed simp

lemma numbers_faithful:
  assumes "collision_free rs" "\<forall>(q, g) \<in> set m. set (rules_of q) \<subseteq> set rs"
  shows "ids_faithful (\<Union>(q, g) \<in> set m. set (rules_of (number_rules (all_match_rules m) q)))"
proof -
  let ?all = "all_match_rules m"
  have ok: "omap_ok rule_less ?all"
    unfolding all_match_rules_def by (rule rule.insert_all(4)) (simp add: omap_ok_def)
  have pos: "equiv_by rule_less (fst (?all ! rule_number ?all r)) r"
    if "(q, g) \<in> set m" "r \<in> set (rules_of q)" for q g r
  proof -
    from that have "r \<in> set (concat (map (\<lambda>(q, g). rules_of q) m))" by auto
    then obtain a where "(a, ()) \<in> set ?all" "equiv_by rule_less a r"
      unfolding all_match_rules_def using rule.insert_all(3) by blast
    with rule.position [OF ok] show ?thesis unfolding rule_number_def by blast
  qed
  have "same_rule r r'"
    if "(q, g) \<in> set m" "r \<in> set (rules_of q)" "(q', g') \<in> set m" "r' \<in> set (rules_of q')"
      "rule_number ?all r = rule_number ?all r'" for q g r q' g' r'
  proof -
    have "rule_key r = rule_key r'"
      using pos [OF that(1,2)] pos [OF that(3,4)] that(5) by (simp add: equiv_rule_less)
    moreover have "r \<in> set rs" "r' \<in> set rs" using assms(2) that by auto
    ultimately show ?thesis using assms(1) by (simp add: collision_free_def)
  qed
  note same = this
  show ?thesis
    unfolding ids_faithful_def
  proof (intro ballI impI)
    fix x y
    assume "x \<in> (\<Union>(q, g) \<in> set m. set (rules_of (number_rules ?all q)))"
      and "y \<in> (\<Union>(q, g) \<in> set m. set (rules_of (number_rules ?all q)))"
      and id: "unique_id x = unique_id y"
    then obtain q g r q' g' r' where x: "(q, g) \<in> set m" "r \<in> set (rules_of q)"
        "x = r \<lparr> unique_id := rule_number ?all r \<rparr>"
      and y: "(q', g') \<in> set m" "r' \<in> set (rules_of q')" "y = r' \<lparr> unique_id := rule_number ?all r' \<rparr>"
      by (auto simp: rules_of_number)
    with id same [OF x(1,2) y(1,2)] show "same_rule x y" by simp
  qed
qed

section \<open>The search\<close>

lemma first_match_ok:
  assumes "cache_ok env rules msg" "ids_faithful rules"
    and "\<forall>(q, g) \<in> set m. set (rules_of q) \<subseteq> rules"
    and "\<forall>r \<in> rules. rule_holds env r msg = Inr (h r)"
  shows "\<exists>msg'. first_match env m msg = Inr (List.find (\<lambda>(q, g). list_all h (rules_of q)) m, msg')"
  using assms(1,3,4)
proof (induction m arbitrary: msg)
  case (Cons p m)
  obtain q g where p: "p = (q, g)" by force
  obtain msg1 where 1: "request_match env q msg = Inr (list_all h (rules_of q), msg1)"
    "same_content env msg msg1" "cache_ok env rules msg1"
    using request_match_ok [OF Cons.prems(1) assms(2), of q h] Cons.prems by (auto simp: p)
  have "\<forall>r \<in> rules. rule_holds env r msg1 = Inr (h r)"
    using Cons.prems(3) rule_holds_same [OF 1(2)] by simp
  with Cons.IH [OF 1(3)] Cons.prems(2) obtain msg2 where
    "first_match env m msg1 = Inr (List.find (\<lambda>(q, g). list_all h (rules_of q)) m, msg2)"
    by auto
  with 1 show ?case by (simp add: p)
qed simp

lemma find_rev_greatest:
  assumes "omap_ok request_less m" "List.find P (rev m) = Some x"
  shows "x \<in> set m \<and> P x \<and> (\<forall>y \<in> set m. P y \<longrightarrow> y = x \<or> request_less (fst y) (fst x))"
  using assms
proof (induction m rule: rev_induct)
  case (snoc y m)
  have "sorted_wrt request_less (map fst m)" "\<forall>z \<in> set m. request_less (fst z) (fst y)"
    using snoc.prems(1) by (auto simp: omap_ok_def sorted_wrt_append)
  with snoc show ?case by (auto simp: omap_ok_def split: if_splits)
qed simp

lemma server_table:
  assumes "server_of read_file has_function config = Inr svcs" "collision_free (config_rules config)"
  defines "rules \<equiv> (\<Union>(q, g) \<in> set svcs. set (rules_of q))"
  shows "omap_ok request_less svcs" "ids_faithful rules"
    "r \<in> rules \<Longrightarrow> \<exists>r0 \<in> set (config_rules config). same_rule r r0"
proof -
  from assms(1) obtain m where m: "insert_services read_file has_function 0 config [] = Inr m"
    "svcs = build_match_rule_unique_id m"
    by (auto simp: server_of_def)
  have ok: "omap_ok request_less m" and sub: "\<forall>(q, g) \<in> set m. set (rules_of q) \<subseteq> set (config_rules config)"
    using insert_services_ok [OF m(1), of "set (config_rules config)"] by (auto simp: omap_ok_def)
  let ?n = "number_rules (all_match_rules m)"
  have svcs: "svcs = map (\<lambda>(q, g). (?n q, g)) m" using build_eq [OF ok] m by simp
  then have "map fst svcs = map ?n (map fst m)" by (simp add: split_def)
  with ok show "omap_ok request_less svcs"
    by (simp add: omap_ok_def sorted_wrt_map request_less_number)
  have rules: "rules = (\<Union>(q, g) \<in> set m. set (rules_of (?n q)))"
    by (auto simp: rules_def svcs)
  show "ids_faithful rules" unfolding rules by (rule numbers_faithful [OF assms(2) sub])
  show "\<exists>r0 \<in> set (config_rules config). same_rule r r0" if r: "r \<in> rules"
  proof -
    from r obtain q g r0 where "(q, g) \<in> set m" "r0 \<in> set (rules_of q)"
      "r = r0 \<lparr> unique_id := rule_number (all_match_rules m) r0 \<rparr>"
      by (auto simp: rules rules_of_number)
    moreover have "same_rule r0 r0" by (simp add: same_rule_def)
    ultimately show ?thesis using sub by (intro bexI [of _ r0]) auto
  qed
qed

lemma find_None_all: "List.find P (rev m) = None \<longleftrightarrow> (\<forall>x \<in> set m. \<not> P x)"
  by (auto simp: find_None_iff)

section \<open>Properties\<close>

text \<open>C4: if no two configured rules have the same sort key without being the same rule, the
  server answers a fresh request with the greatest service of its table (the one with the most
  rules, ties broken by the order of the rules) among those all of whose rules hold, and with
  none exactly when there is no such service; the cache of rule results changes nothing.\<close>

theorem server_selects_greatest_match:
  assumes "server_of read_file has_function config = Inr svcs"
    and "collision_free (config_rules config)" and "match_result msg = []"
    and "\<forall>r \<in> set (config_rules config). ok (rule_holds env r msg)"
  shows "\<exists>found msg'. get_matched_request env svcs msg = Inr (found, msg') \<and>
    (case found of
       None \<Rightarrow> \<forall>(q, g) \<in> set svcs. \<exists>r \<in> set (rules_of q). rule_holds env r msg = Inr False
     | Some (q, g) \<Rightarrow> (q, g) \<in> set svcs \<and> (\<forall>r \<in> set (rules_of q). rule_holds env r msg = Inr True) \<and>
         (\<forall>(q', g') \<in> set svcs. (\<forall>r \<in> set (rules_of q'). rule_holds env r msg = Inr True) \<longrightarrow>
            (q', g') = (q, g) \<or> request_less q' q))"
proof -
  define rules where "rules = (\<Union>(q, g) \<in> set svcs. set (rules_of q))"
  note table = server_table [OF assms(1,2), folded rules_def]
  define h where "h r = projr (rule_holds env r msg)" for r
  have holds: "rule_holds env r msg = Inr (h r)" if r: "r \<in> rules" for r
  proof -
    obtain r0 where "r0 \<in> set (config_rules config)" "same_rule r r0" using table(3) [OF r] by blast
    then have "ok (rule_holds env r msg)" using assms(4) rule_holds_rule [of r r0 env msg] by simp
    then show ?thesis by (auto simp: ok_iff h_def)
  qed
  have cache: "cache_ok env rules msg" by (simp add: cache_ok_def assms(3) omap_ok_def)
  have in_rules: "r \<in> rules" if "(q, g) \<in> set svcs" "r \<in> set (rules_of q)" for q g r
    using that by (auto simp: rules_def)
  have all: "list_all h (rules_of q) \<longleftrightarrow> (\<forall>r \<in> set (rules_of q). rule_holds env r msg = Inr True)"
    if "(q, g) \<in> set svcs" for q g
    using that in_rules holds by (auto simp: list_all_iff)
  let ?P = "\<lambda>(q, g). list_all h (rules_of q)"
  have "\<exists>msg'. get_matched_request env svcs msg = Inr (List.find ?P (rev svcs), msg')"
    unfolding get_matched_request_def
    by (rule first_match_ok [OF cache table(2)]) (use in_rules holds in auto)
  moreover have "case List.find ?P (rev svcs) of
       None \<Rightarrow> \<forall>(q, g) \<in> set svcs. \<exists>r \<in> set (rules_of q). rule_holds env r msg = Inr False
     | Some (q, g) \<Rightarrow> (q, g) \<in> set svcs \<and> (\<forall>r \<in> set (rules_of q). rule_holds env r msg = Inr True) \<and>
         (\<forall>(q', g') \<in> set svcs. (\<forall>r \<in> set (rules_of q'). rule_holds env r msg = Inr True) \<longrightarrow>
            (q', g') = (q, g) \<or> request_less q' q)"
  proof (cases "List.find ?P (rev svcs)")
    case None
    have "\<exists>r \<in> set (rules_of q). rule_holds env r msg = Inr False" if "(q, g) \<in> set svcs" for q g
    proof -
      have "\<not> list_all h (rules_of q)" using None that unfolding find_None_all by auto
      then obtain r where "r \<in> set (rules_of q)" "\<not> h r" by (auto simp: list_all_iff)
      then show ?thesis using holds [OF in_rules [OF that]] by auto
    qed
    with None show ?thesis by auto
  next
    case (Some x)
    obtain q g where x: "x = (q, g)" by force
    note gr = find_rev_greatest [OF table(1) Some]
    have "(q', g') = (q, g) \<or> request_less q' q"
      if "(q', g') \<in> set svcs" "\<forall>r \<in> set (rules_of q'). rule_holds env r msg = Inr True" for q' g'
      using gr that all [OF that(1)] by (auto simp: x)
    with gr all [of q g] Some show ?thesis by (auto simp: x)
  qed
  ultimately show ?thesis by blast
qed

definition example_env :: match_env where
  "example_env = \<lparr> pointer_get = \<lambda>_ _. None, write_json = \<lambda>_. [], double_str = \<lambda>_. [],
     parse_json = \<lambda>_. JNull, regex_match = \<lambda>_ _. False \<rparr>"

definition example_service :: "(string \<times> string) list \<Rightarrow> schema_service" where
  "example_service hs = \<lparr> service_request = \<lparr> header_match =
       map (\<lambda>(h, v). \<lparr> hm_matchType = ''EqualsTo'', hm_header = h, hm_input = v \<rparr>) hs,
       payload_match = [], schema_request_name = [] \<rparr>, service_responses = [] \<rparr>"

theorem server_selects_greatest_match_witness:
  "\<exists>svcs found msg'. server_of (\<lambda>_. None) (\<lambda>_. False)
      [example_service [('':path'', ''/a'')], example_service [('':path'', ''/a''), (''k'', ''v'')]] = Inr svcs \<and>
    get_matched_request example_env svcs
      (request_message_of ''/a'' [] ''GET'' ''http'' ''h'' [(''k'', ''v'')] []) = Inr (found, msg')"
proof -
  let ?c = "[example_service [('':path'', ''/a'')], example_service [('':path'', ''/a''), (''k'', ''v'')]]"
  let ?m = "request_message_of ''/a'' [] ''GET'' ''http'' ''h'' [(''k'', ''v'')] []"
  have "ok (server_of (\<lambda>_. None) (\<lambda>_. False) ?c)" by code_simp
  then obtain svcs where 1: "server_of (\<lambda>_. None) (\<lambda>_. False) ?c = Inr svcs" by (auto simp: ok_iff)
  have 2: "collision_free (config_rules ?c)" by code_simp
  have 3: "match_result ?m = []" by code_simp
  have 4: "\<forall>r \<in> set (config_rules ?c). ok (rule_holds example_env r ?m)" by code_simp
  from server_selects_greatest_match [OF 1 2 3 4] 1 show ?thesis by blast
qed

text \<open>C26: a group whose weights sum to at most \<open>2 ^ 31\<close> can draw every number below the sum, and
  response \<open>j\<close> is selected by exactly as many of them as its weight.\<close>

theorem response_weights:
  assumes "g = init_distribution_map_and_total_weight rs" and "0 < sum_list (map weight rs)"
    and "sum_list (map weight rs) \<le> 2 ^ 31" and "j < length rs"
  shows "group_total_weight g = sum_list (map weight rs) \<and>
    int_of_u64 (sub64 (group_total_weight g) 1) = int (sum_list (map weight rs)) - 1 \<and>
    card {r. r < group_total_weight g \<and> select_response (\<lambda>_ _. int r) g = j} = weight (rs ! j)"
proof -
  let ?m = "schedule_of 1 0 0 (map (\<lambda>w. (w, 1)) (map weight rs))" and ?t = "sum_list (map weight rs)"
  have small: "?t < 2 ^ 64" using assms(3) by simp
  have d: "distribution_from 0 (map weight rs) 0 [] = ?m"
    using distribution_from_eq [of 0 "map weight rs" "[]" 0] small by simp
  have ne: "?m \<noteq> []" using schedule_empty [of 0 0 "map weight rs"] assms(2) by fastforce
  have t: "group_total_weight g = ?t"
    using last_schedule_of [OF ne] d ne
    by (simp add: assms(1) init_distribution_map_and_total_weight_def Let_def total_shares_def o_def share_one)
  have "sub64 ?t 1 = ?t - 1" using assms(2) small by (rule sub64_1)
  then have "int_of_u64 (sub64 ?t 1) = int ?t - 1"
    using assms(2,3) int_of_u64_small [of "?t - 1"] by simp
  moreover have "{r. r < ?t \<and> select_response (\<lambda>_ _. int r) g = j} = {r. r < ?t \<and> scenario_at ?m r = j}"
    using select_response_at [OF small _ assms(1)] by auto
  moreover have "card {r. r < ?t \<and> scenario_at ?m r = j} = weight (rs ! j)"
    using group.count [of j "map weight rs"] assms(4) by simp
  ultimately show ?thesis using t by simp
qed

theorem response_weights_witness:
  "\<exists>rs. let g = init_distribution_map_and_total_weight rs in length rs = 2 \<and> group_total_weight g = 4 \<and>
     card {r. r < group_total_weight g \<and> select_response (\<lambda>_ _. int r) g = 1} = 3"
proof -
  let ?r = "\<lparr> status_code = 200, additonalHeaders = [], tokenizedPayload = [], payload_arguments = [],
      luaScript = [], lua_offload = False, throttle = 0, throttle_on = False,
      response_name = [], weight = 1, response_index = 0 \<rparr>"
  show ?thesis
    using response_weights [OF refl, of "[?r, ?r \<lparr> weight := 3 \<rparr>]" 1]
    by (intro exI [of _ "[?r, ?r \<lparr> weight := 3 \<rparr>]"]) (auto simp: Let_def)
qed


end
