(* ===== verification/Config.thy ===== *)
theory Config
  imports Variables Matching Cookies
begin

text \<open>
  The scenario configuration (\<^verbatim>\<open>config_schema.h\<close>) and its preparation before the test starts
  (\<^verbatim>\<open>process_variables\<close> and \<^verbatim>\<open>post_process_json_config_schema\<close> of \<^verbatim>\<open>h2load_utils.cc\<close>,
  \<^verbatim>\<open>slice_var_ids\<close> of \<^verbatim>\<open>base_client.cc\<close>). Files, the URL parser and Lua are parameters (record
  \<open>config_env\<close>). The lemmas show that a prepared scenario has a consistent variable manager and
  templates that only refer to its variables, and that the slices of the clients partition
  the range of a variable.
\<close>

section \<open>Data\<close>

datatype uri_action = INPUT_URI | SAME_WITH_LAST_ONE | FROM_RESPONSE_HEADER | FROM_LUA_SCRIPT
  | FROM_X_PATH | FROM_JSON_POINTER | INPUT_WITH_VARIABLE

datatype value_source_type = SOURCE_TYPE_REQ_HEADER | SOURCE_TYPE_REQ_POINTER
  | SOURCE_TYPE_RES_HEADER | SOURCE_TYPE_RES_POINTER

definition value_pickup_action_map :: "string \<Rightarrow> value_source_type option" where
  "value_pickup_action_map s =
    (if s = ''Request-Header'' then Some SOURCE_TYPE_REQ_HEADER
     else if s = ''Response-Header'' then Some SOURCE_TYPE_RES_HEADER
     else if s = ''Json-Pointer-In-Request-Payload'' then Some SOURCE_TYPE_REQ_POINTER
     else if s = ''Json-Pointer-In-Response-Payload'' then Some SOURCE_TYPE_RES_POINTER
     else None)"

definition uri_action_map :: "string \<Rightarrow> uri_action option" where
  "uri_action_map s =
    (if s = ''input'' then Some INPUT_URI
     else if s = ''sameWithLastOne'' then Some SAME_WITH_LAST_ONE
     else if s = ''fromResponseHeader'' then Some FROM_RESPONSE_HEADER
     else if s = ''fromLuaScript'' then Some FROM_LUA_SCRIPT
     else if s = ''fromXPath'' then Some FROM_X_PATH
     else if s = ''fromJsonPointer'' then Some FROM_JSON_POINTER
     else if s = ''inputWithVariable'' then Some INPUT_WITH_VARIABLE
     else None)"

record uri =
  typeOfAction :: string
  uri_input :: string
  uri_act :: uri_action

record value_picker_schema =
  where_to_pickup_from :: string
  vp_source :: string
  vp_regexp :: string
  save_to_variable_name :: string

record regex_picker =
  where_to_pick_up_from :: value_source_type
  picker_source :: string
  picker_regexp :: string
  picker_variable :: string
  picker_id :: nat

record request_template =
  clear_old_cookies :: bool
  rt_luaScript :: string
  make_request_function_present :: bool
  validate_response_function_present :: bool
  rt_schema :: string
  rt_authority :: string
  rt_uri :: uri
  rt_method :: string
  rt_payload :: string
  rt_headers :: "string list"
  rt_expected_status_code :: nat
  response_header_match :: "schema_header_match list"
  response_payload_match :: "schema_payload_match list"
  response_match_rules :: "match_rule list"
  headers_in_map :: header_map
  headers_with_variable :: "(string_with_variables \<times> string_with_variables) list"
  tokenized_path_with_vars :: string_with_variables
  tokenized_payload_with_vars :: string_with_variables
  rt_delay_before_executing_next :: nat
  response_value_regex_pickers :: "value_picker_schema list"
  actual_regex_value_pickers :: "regex_picker list"

record scenario =
  scenario_name :: string
  scenario_weight :: nat
  variable_name_in_path_and_data :: string
  user_id_list_file :: string
  range_based_variables :: "(string \<times> nat \<times> nat) list"
  two_dim_variables :: "(string \<times> string) list"
  interval_to_wait_before_start :: nat
  variable_range_start :: nat
  variable_range_end :: nat
  variable_range_slicing :: bool
  requests :: "request_template list"
  run_requests_in_parallel :: bool
  user_variables_input_file :: string
  variable_manager_of :: variable_manager
  number_of_variables_from_value_pickers :: nat

text \<open>What \<^verbatim>\<open>http_parser_parse_url\<close> finds in a URL.\<close>

record parsed_url =
  u_schema :: "string option"
  u_host :: "string option"
  u_port :: "nat option"
  u_path :: "string option"
  u_query :: "string option"

record config_env =
  parse_url :: "string \<Rightarrow> parsed_url option"
  read_file :: "string \<Rightarrow> string option"
  boost_trim :: "string \<Rightarrow> string"
  lua_defines :: "string \<Rightarrow> string \<Rightarrow> bool"   \<comment> \<open>script, name of a global function\<close>

section \<open>URLs\<close>

definition get_reqline :: "parsed_url \<Rightarrow> string" where
  "get_reqline u =
    (let reqline = (case u_path u of Some p \<Rightarrow> p | None \<Rightarrow> ''/'') in
     case u_query u of Some q \<Rightarrow> reqline @ ''?'' @ q | None \<Rightarrow> reqline)"

text \<open>Host and port as \<^verbatim>\<open>process_variables\<close> and \<^verbatim>\<open>parse_uri_and_poupate_request\<close> join them.\<close>

definition authority_of :: "parsed_url \<Rightarrow> string \<Rightarrow> string" where
  "authority_of u host =
    (case u_port u of Some p \<Rightarrow> str_lower host @ '':'' @ utos p | None \<Rightarrow> str_lower host)"

section \<open>Old-style variables\<close>

definition load_file_content :: "'a config_env_scheme \<Rightarrow> string \<Rightarrow> string" where
  "load_file_content env source =
    (if source \<noteq> [] then (case read_file env source of Some d \<Rightarrow> d | None \<Rightarrow> source) else source)"

fun append_references :: "string \<Rightarrow> string list \<Rightarrow> string \<Rightarrow> string" where
  "append_references name [] target = target"
| "append_references name [t] target = target @ t"
| "append_references name (t # ts) target = append_references name ts (target @ t @ ''${'' @ name @ ''}'')"

definition transform_variable :: "string \<Rightarrow> string \<Rightarrow> string" where
  "transform_variable target name = append_references name (tokenize_string target name) []"

definition transform_request :: "'a config_env_scheme \<Rightarrow> string \<Rightarrow> request_template \<Rightarrow> request_template" where
  "transform_request env name r =
     r \<lparr> rt_uri := (rt_uri r) \<lparr> uri_input := transform_variable (uri_input (rt_uri r)) name \<rparr>,
         rt_payload := transform_variable (load_file_content env (rt_payload r)) name \<rparr>"

definition transform_old_style_variable :: "'a config_env_scheme \<Rightarrow> scenario \<Rightarrow> scenario result" where
  "transform_old_style_variable env s =
    (let name = variable_name_in_path_and_data s in
     if name = [] then Inr s
     else
       let s1 = s \<lparr> requests := map (transform_request env name) (requests s) \<rparr>;
           clear = (\<lambda>s. s \<lparr> variable_name_in_path_and_data := [], variable_range_start := 0,
             variable_range_end := 0, user_id_list_file := [] \<rparr>) in
       if user_id_list_file s \<noteq> [] then
         Inr (clear (s1 \<lparr> two_dim_variables := two_dim_variables s @ [(name, user_id_list_file s)] \<rparr>))
       else if variable_range_end s \<le> variable_range_start s then Inl Exit_Failure
       else Inr (clear (s1 \<lparr> range_based_variables :=
         range_based_variables s @ [(name, variable_range_start s, variable_range_end s)] \<rparr>)))"

section \<open>Variables of a scenario\<close>

text \<open>The constructor \<^verbatim>\<open>Regex_Picker\<close>\<close>

definition regex_picker_of :: "value_picker_schema \<Rightarrow> nat \<Rightarrow> regex_picker result" where
  "regex_picker_of p i =
    (case value_pickup_action_map (where_to_pickup_from p) of
       None \<Rightarrow> Inl Exit_Failure
     | Some w \<Rightarrow> Inr \<lparr> where_to_pick_up_from = w, picker_source = vp_source p, picker_regexp = vp_regexp p,
         picker_variable = save_to_variable_name p, picker_id = i \<rparr>)"

fun add_pickers :: "value_picker_schema list \<Rightarrow> variable_manager \<Rightarrow> regex_picker list
    \<Rightarrow> (variable_manager \<times> regex_picker list) result" where
  "add_pickers [] vm acc = Inr (vm, acc)"
| "add_pickers (p # ps) vm acc =
     andthen (case get_gen_var_id vm (save_to_variable_name p) of
         Some i \<Rightarrow> Inr (vm, i)
       | None \<Rightarrow>
           andthen (generic_variable_of_range (save_to_variable_name p) 0 0) (\<lambda>v.
             let vm' = vm_insert vm v in
             Inr (vm', case get_gen_var_id vm' (save_to_variable_name p) of Some i \<Rightarrow> i | None \<Rightarrow> 0)))
       (\<lambda>(vm', i). andthen (regex_picker_of p i) (\<lambda>rp. add_pickers ps vm' (acc @ [rp])))"

fun pick_requests :: "request_template list \<Rightarrow> variable_manager
    \<Rightarrow> (request_template list \<times> variable_manager) result" where
  "pick_requests [] vm = Inr ([], vm)"
| "pick_requests (r # rs) vm =
     andthen (add_pickers (response_value_regex_pickers r) vm (actual_regex_value_pickers r)) (\<lambda>(vm', ps).
     andthen (pick_requests rs vm') (\<lambda>(rs', vm''). Inr (r \<lparr> actual_regex_value_pickers := ps \<rparr> # rs', vm'')))"

fun add_ranges :: "(string \<times> nat \<times> nat) list \<Rightarrow> variable_manager \<Rightarrow> variable_manager result" where
  "add_ranges [] vm = Inr vm"
| "add_ranges ((n, s, e) # rs) vm =
     andthen (generic_variable_of_range n s e) (\<lambda>v. add_ranges rs (vm_insert vm v))"

text \<open>The transposed table: column \<open>j\<close> holds the \<open>j\<close>-th cells of the rows that have one.\<close>

definition transpose_rows :: "nat \<Rightarrow> string list list \<Rightarrow> string list list" where
  "transpose_rows n rows = map (\<lambda>j. map (\<lambda>row. row ! j) (filter (\<lambda>row. j < length row) rows)) [0..<n]"

fun add_tables :: "'a config_env_scheme \<Rightarrow> (string \<times> string) list \<Rightarrow> variable_manager \<Rightarrow> variable_manager result" where
  "add_tables env [] vm = Inr vm"
| "add_tables env ((n, f) # ds) vm =
     (let raw_data = read_csv_file (read_file env f) in
      if raw_data = [] then Inl Exit_Failure
      else
        andthen (max_size raw_data) (\<lambda>m.
        andthen (generic_variable_of_list n (transpose_rows m raw_data)) (\<lambda>v.
          add_tables env ds (vm_insert vm v))))"

section \<open>Requests of a scenario\<close>

text \<open>One entry of \<^verbatim>\<open>additonalHeaders\<close>.\<close>

definition process_header :: "variable_manager \<Rightarrow> request_template \<Rightarrow> string \<Rightarrow> request_template result" where
  "process_header vm r h =
    (case str_find h '':'' 1 of
       None \<Rightarrow> Inr r
     | Some t \<Rightarrow>
         if hd h = CHR '':'' \<and> t = 1 then Inr r
         else
           let header_name = substr h 0 t; header_value = substr_from h (t + 1) in
           if header_value = [] then Inr r
           else if variable_present header_name 0 \<noteq> None \<or> variable_present header_value 0 \<noteq> None then
             andthen (split_string_and_var header_name vm empty_string_with_variables) (\<lambda>n.
             andthen (split_string_and_var header_value vm empty_string_with_variables) (\<lambda>v.
               Inr (r \<lparr> headers_with_variable := headers_with_variable r @ [(n, v)] \<rparr>)))
           else Inr (r \<lparr> headers_in_map := omap_set ci_less (headers_in_map r) header_name header_value \<rparr>))"

fun process_headers :: "variable_manager \<Rightarrow> string list \<Rightarrow> request_template \<Rightarrow> request_template result" where
  "process_headers vm [] r = Inr r"
| "process_headers vm (h # hs) r = andthen (process_header vm r h) (process_headers vm hs)"

text \<open>The URI of a request: its path, and the fields it sets.\<close>

definition process_uri :: "'a config_env_scheme \<Rightarrow> request_template \<Rightarrow> (request_template \<times> string) result" where
  "process_uri env r =
    (case uri_action_map (typeOfAction (rt_uri r)) of
       None \<Rightarrow> Inl Exit_Failure
     | Some act \<Rightarrow>
         (let input = uri_input (rt_uri r); r = r \<lparr> rt_uri := (rt_uri r) \<lparr> uri_act := act \<rparr> \<rparr> in
          if act = INPUT_URI \<and> variable_present input 0 = None then
            (case parse_url env input of
               None \<Rightarrow> Inl Exit_Failure
             | Some u \<Rightarrow>
                 Inr (case (u_schema u, u_host u) of
                     (Some sch, Some host) \<Rightarrow>
                       r \<lparr> rt_schema := str_lower sch, rt_authority := authority_of u host \<rparr>
                   | _ \<Rightarrow> r, get_reqline u))
          else if variable_present input 0 \<noteq> None then
            Inr (r \<lparr> rt_uri := (rt_uri r) \<lparr> uri_act := INPUT_WITH_VARIABLE \<rparr> \<rparr>, input)
          else Inr (r, [])))"

definition process_request :: "'a config_env_scheme \<Rightarrow> variable_manager \<Rightarrow> request_template
    \<Rightarrow> request_template result" where
  "process_request env vm r =
     andthen (process_uri env r) (\<lambda>(r, path).
     andthen (split_string_and_var path vm (tokenized_path_with_vars r)) (\<lambda>p.
     andthen (split_string_and_var (rt_payload r) vm (tokenized_payload_with_vars r)) (\<lambda>b.
       process_headers vm (rt_headers r)
         (r \<lparr> tokenized_path_with_vars := p, tokenized_payload_with_vars := b \<rparr>))))"

fun process_requests :: "'a config_env_scheme \<Rightarrow> variable_manager \<Rightarrow> request_template list
    \<Rightarrow> request_template list result" where
  "process_requests env vm [] = Inr []"
| "process_requests env vm (r # rs) =
     andthen (process_request env vm r) (\<lambda>r'. andthen (process_requests env vm rs) (\<lambda>rs'. Inr (r' # rs')))"

text \<open>The body of the scenario loop of \<^verbatim>\<open>process_variables\<close>.\<close>

definition process_scenario :: "'a config_env_scheme \<Rightarrow> scenario \<Rightarrow> scenario result" where
  "process_scenario env s =
     andthen (pick_requests (requests s) (variable_manager_of s)) (\<lambda>(rs, vm).
     let npick = get_number_of_generic_variables vm in
     andthen (add_ranges (range_based_variables s) vm) (\<lambda>vm.
     andthen (add_tables env (two_dim_variables s) vm) (\<lambda>vm.
     andthen (if user_variables_input_file s \<noteq> [] then
                load_generic_variables_from_csv_file (boost_trim env)
                  (read_file env (user_variables_input_file s)) vm
              else Inr vm) (\<lambda>vm.
     andthen (process_requests env vm rs) (\<lambda>rs.
       Inr (s \<lparr> requests := rs, variable_manager_of := vm,
         number_of_variables_from_value_pickers := npick \<rparr>))))))"

fun map_result :: "('a \<Rightarrow> 'b result) \<Rightarrow> 'a list \<Rightarrow> 'b list result" where
  "map_result f [] = Inr []"
| "map_result f (x # xs) = andthen (f x) (\<lambda>y. andthen (map_result f xs) (\<lambda>ys. Inr (y # ys)))"

definition process_variables :: "'a config_env_scheme \<Rightarrow> scenario list \<Rightarrow> scenario list result" where
  "process_variables env ss =
     andthen (map_result (transform_old_style_variable env) ss) (map_result (process_scenario env))"

section \<open>Post-processing\<close>

definition strip_brackets :: "string \<Rightarrow> string" where
  "strip_brackets host =
    (if host \<noteq> [] \<and> hd host = CHR ''['' \<and> last host = CHR '']''
     then substr host 1 (length host - 2) else host)"

definition finish_request :: "'a config_env_scheme \<Rightarrow> request_template \<Rightarrow> request_template" where
  "finish_request env r =
    (let script = load_file_content env (rt_luaScript r);
         r = r \<lparr> response_match_rules := response_match_rules r @
             map rule_of_header_match (response_header_match r) @
             map rule_of_payload_match (response_payload_match r),
           rt_luaScript := script \<rparr> in
     if script \<noteq> [] then
       r \<lparr> make_request_function_present :=
             make_request_function_present r \<or> lua_defines env script ''make_request'',
           validate_response_function_present :=
             validate_response_function_present r \<or> lua_defines env script ''validate_response'' \<rparr>
     else r)"

record schema_config =
  sc_schema :: string
  sc_host :: string
  load_share_hosts :: "(string \<times> nat) list"
  scenarios :: "scenario list"
  ca_cert :: string
  client_cert :: string
  private_key :: string

definition post_process_json_config_schema :: "'a config_env_scheme \<Rightarrow> schema_config \<Rightarrow> schema_config result" where
  "post_process_json_config_schema env c =
     andthen (process_variables env (scenarios c)) (\<lambda>ss.
       Inr (c \<lparr> sc_host := str_lower (strip_brackets (sc_host c)),
         load_share_hosts := map (\<lambda>(h, p). (str_lower (strip_brackets h), p)) (load_share_hosts c),
         sc_schema := str_lower (sc_schema c),
         scenarios := map (\<lambda>s. s \<lparr> requests := map (finish_request env) (requests s) \<rparr>) ss,
         ca_cert := load_file_content env (ca_cert c),
         client_cert := load_file_content env (client_cert c),
         private_key := load_file_content env (private_key c) \<rparr>))"

text \<open>\<^verbatim>\<open>insert_customized_headers_to_Json_scenarios\<close>\<close>

definition insert_customized_headers :: "(string \<times> string) list \<Rightarrow> scenario list \<Rightarrow> scenario list" where
  "insert_customized_headers custom_headers ss =
     foldl (\<lambda>ss (n, v). map (\<lambda>s. s \<lparr> requests := map (\<lambda>r. r
         \<lparr> headers_in_map := omap_set ci_less (headers_in_map r) n v,
           rt_headers := rt_headers r @ [n @ '':'' @ v] \<rparr>) (requests s) \<rparr>) ss) ss custom_headers"

section \<open>Slicing the ranges\<close>

text \<open>One variable of \<^verbatim>\<open>slice_var_ids\<close> in a test with several clients; \<open>draw\<close> is the number drawn from
  the closed interval of the range. \<open>None\<close> is the early return of a worker other than the first.\<close>

definition slice_variable :: "nat \<Rightarrow> nat \<Rightarrow> nat \<Rightarrow> scenario \<Rightarrow> (nat \<Rightarrow> nat) \<Rightarrow> nat \<Rightarrow> (nat \<times> nat \<times> nat) option result" where
  "slice_variable nclients my_id worker_id s draw var_id =
    (if var_id < number_of_variables_from_value_pickers s then Inr (Some (0, 0, 0))
     else
       andthen (var_range_start (variable_manager_of s) var_id) (\<lambda>start.
       andthen (var_range_end (variable_manager_of s) var_id) (\<lambda>end1.
         if \<not> variable_range_slicing s then Inr (Some (start, end1, draw var_id))
         else
           let tokens_per_client = sub64 end1 start div nclients in
           if tokens_per_client = 0 then (if worker_id = 0 then Inl Exit_Failure else Inr None)
           else
             let tokens_left = sub64 end1 start mod nclients;
                 rs = add64 (add64 start (mul64 my_id tokens_per_client)) (min my_id tokens_left);
                 re = add64 (add64 rs tokens_per_client) (if tokens_left \<le> my_id then 0 else 1) in
             Inr (Some (rs, re, rs)))))"

fun slice_variables :: "(nat \<Rightarrow> (nat \<times> nat \<times> nat) option result) \<Rightarrow> nat list \<Rightarrow> (nat \<times> nat \<times> nat) list option result" where
  "slice_variables f [] = Inr (Some [])"
| "slice_variables f (v # vs) =
     andthen (f v) (\<lambda>x. case x of None \<Rightarrow> Inr None
       | Some t \<Rightarrow> andthen (slice_variables f vs) (\<lambda>r. Inr (map_option ((#) t) r)))"

definition cursors_of :: "(nat \<times> nat \<times> nat) list \<Rightarrow> scenario_data_per_client" where
  "cursors_of ts = \<lparr> req_variable_values_start = map fst ts,
     req_variable_values_end = map (fst \<circ> snd) ts, curr_req_variable_values = map (snd \<circ> snd) ts \<rparr>"

fun slice_scenarios :: "nat \<Rightarrow> nat \<Rightarrow> nat \<Rightarrow> (nat \<Rightarrow> nat \<Rightarrow> nat) \<Rightarrow> nat \<Rightarrow> scenario list
    \<Rightarrow> scenario_data_per_client list result" where
  "slice_scenarios nclients my_id worker_id draw index [] = Inr []"
| "slice_scenarios nclients my_id worker_id draw index (s # ss) =
     andthen (slice_variables (slice_variable nclients my_id worker_id s (draw index))
         [0..<get_number_of_generic_variables (variable_manager_of s)])
       (\<lambda>r. case r of None \<Rightarrow> Inr []
         | Some ts \<Rightarrow> andthen (slice_scenarios nclients my_id worker_id draw (index + 1) ss)
             (\<lambda>ds. Inr (cursors_of ts # ds)))"

definition full_ranges :: "scenario \<Rightarrow> scenario_data_per_client result" where
  "full_ranges s =
     andthen (map_result (\<lambda>v.
         andthen (var_range_start (variable_manager_of s) v) (\<lambda>start.
         andthen (var_range_end (variable_manager_of s) v) (\<lambda>end1. Inr (start, end1, start))))
         [0..<get_number_of_generic_variables (variable_manager_of s)])
       (\<lambda>ts. Inr (cursors_of ts))"

definition slice_var_ids :: "nat \<Rightarrow> bool \<Rightarrow> nat \<Rightarrow> nat \<Rightarrow> (nat \<Rightarrow> nat \<Rightarrow> nat) \<Rightarrow> scenario list
    \<Rightarrow> scenario_data_per_client list result" where
  "slice_var_ids nclients is_controller my_id worker_id draw ss =
    (if 1 < nclients \<and> is_controller then slice_scenarios nclients my_id worker_id draw 0 ss
     else map_result full_ranges ss)"

section \<open>Prepared scenarios\<close>

definition template_ok :: "variable_manager \<Rightarrow> string_with_variables \<Rightarrow> bool" where
  "template_ok vm sw \<longleftrightarrow> length (string_segments sw) = Suc (length (variable_ids_in_between sw)) \<and>
     (\<forall>i \<in> set (variable_ids_in_between sw). i < length (generic_variables vm))"

definition request_ok :: "variable_manager \<Rightarrow> request_template \<Rightarrow> bool" where
  "request_ok vm r \<longleftrightarrow> template_ok vm (tokenized_path_with_vars r) \<and>
     template_ok vm (tokenized_payload_with_vars r) \<and>
     (\<forall>(n, v) \<in> set (headers_with_variable r). template_ok vm n \<and> template_ok vm v) \<and>
     omap_ok ci_less (headers_in_map r)"

definition fresh_request :: "request_template \<Rightarrow> bool" where
  "fresh_request r \<longleftrightarrow> tokenized_path_with_vars r = empty_string_with_variables \<and>
     tokenized_payload_with_vars r = empty_string_with_variables \<and> headers_with_variable r = [] \<and>
     headers_in_map r = []"

lemma template_ok_split:
  assumes "vm_ok vm" "split_string_and_var source vm empty_string_with_variables = Inr sw"
  shows "template_ok vm sw"
proof -
  let ?lookup = "\<lambda>name. case get_gen_var_id vm name of None \<Rightarrow> Inl Exit_Failure | Some i \<Rightarrow> Inr i"
  from assms(2) split_from_spec [of ?lookup source 0 empty_string_with_variables sw]
  obtain segs names ids where sw: "string_segments sw = segs" "variable_ids_in_between sw = ids"
    and len: "length segs = Suc (length names)" and all: "list_all2 (\<lambda>n i. ?lookup n = Inr i) names ids"
    by (auto simp: split_string_and_var_def empty_string_with_variables_def)
  have "i < length (generic_variables vm)" if "i \<in> set ids" for i
  proof -
    from that all obtain n where "?lookup n = Inr i"
      by (auto simp: list_all2_conv_all_nth in_set_conv_nth)
    then have "get_gen_var_id vm n = Some i" by (auto split: option.splits)
    then show ?thesis using get_gen_var_id_Some [OF assms(1)] by blast
  qed
  with sw len all show ?thesis by (simp add: template_ok_def list_all2_lengthD)
qed

lemma template_ok_assembles:
  assumes "vm_ok vm" "user_fits vm vals uids" "template_ok vm sw"
  shows "ok (assemble_string vm npick sw req vals uids)"
proof -
  have "value_of_var vm npick req vals uids i = Inr (projr (value_of_var vm npick req vals uids i))"
    if "i \<in> set (variable_ids_in_between sw)" for i
  proof -
    have "ok (value_of_var vm npick req vals uids i)"
      using assms that by (intro value_of_var_ok) (auto simp: template_ok_def)
    then show ?thesis by (auto simp: ok_iff)
  qed
  then have "list_all2 (\<lambda>i v. value_of_var vm npick req vals uids i = Inr v) (variable_ids_in_between sw)
      (map (\<lambda>i. projr (value_of_var vm npick req vals uids i)) (variable_ids_in_between sw))"
    by (simp add: list_all2_map2 list.rel_refl_strong)
  with assemble_weave [of sw] assms(3) show ?thesis by (force simp: template_ok_def ok_iff)
qed

lemma vm_ok_add_pickers: "add_pickers ps vm acc = Inr (vm', acc') \<Longrightarrow> vm_ok vm \<Longrightarrow> vm_ok vm'"
proof (induction ps arbitrary: vm acc)
  case (Cons p ps)
  then show ?case
    by (auto simp: Let_def vm_ok_insert gv_ok_of_range split: option.splits)
qed simp

lemma vm_ok_pick_requests: "pick_requests rs vm = Inr (rs', vm') \<Longrightarrow> vm_ok vm \<Longrightarrow> vm_ok vm'"
  by (induction rs arbitrary: vm rs') (auto dest: vm_ok_add_pickers)

lemma fresh_pick_requests:
  "pick_requests rs vm = Inr (rs', vm') \<Longrightarrow> \<forall>r \<in> set rs. fresh_request r \<Longrightarrow> \<forall>r \<in> set rs'. fresh_request r"
  by (induction rs arbitrary: vm rs') (auto simp: fresh_request_def)

lemma vm_ok_add_ranges: "add_ranges rs vm = Inr vm' \<Longrightarrow> vm_ok vm \<Longrightarrow> vm_ok vm'"
  by (induction rs arbitrary: vm) (auto simp: vm_ok_insert gv_ok_of_range)

lemma vm_ok_add_tables: "add_tables env ds vm = Inr vm' \<Longrightarrow> vm_ok vm \<Longrightarrow> vm_ok vm'"
  by (induction ds arbitrary: vm) (auto simp: Let_def vm_ok_insert gv_ok_of_list split: if_splits)

lemma vm_ok_load_csv:
  "load_generic_variables_from_csv_file trim content vm = Inr vm' \<Longrightarrow> vm_ok vm \<Longrightarrow> vm_ok vm'"
  by (auto simp: load_generic_variables_from_csv_file_def Let_def split: option.splits
      dest: vm_ok_insert_columns)

lemma process_header_ok:
  assumes "process_header vm r h = Inr r'" "vm_ok vm" "request_ok vm r"
  shows "request_ok vm r'"
  using assms
  by (auto simp: process_header_def Let_def request_ok_def ci.omap_ok_set template_ok_split
      split: option.splits if_splits)

lemma process_headers_ok:
  "process_headers vm hs r = Inr r' \<Longrightarrow> vm_ok vm \<Longrightarrow> request_ok vm r \<Longrightarrow> request_ok vm r'"
  by (induction hs arbitrary: r) (auto dest: process_header_ok)

lemma process_uri_fresh:
  "process_uri env r = Inr (r', path) \<Longrightarrow> fresh_request r \<Longrightarrow> fresh_request r'"
  by (auto simp: process_uri_def Let_def fresh_request_def split: option.splits if_splits)

lemma process_request_ok:
  assumes "process_request env vm r = Inr r'" "vm_ok vm" "fresh_request r"
  shows "request_ok vm r'"
proof -
  from assms(1) obtain r1 path p b where r1: "process_uri env r = Inr (r1, path)"
    and p: "split_string_and_var path vm (tokenized_path_with_vars r1) = Inr p"
    and b: "split_string_and_var (rt_payload r1) vm (tokenized_payload_with_vars r1) = Inr b"
    and r': "process_headers vm (rt_headers r1)
      (r1 \<lparr> tokenized_path_with_vars := p, tokenized_payload_with_vars := b \<rparr>) = Inr r'"
    by (auto simp: process_request_def)
  have f: "fresh_request r1" using process_uri_fresh [OF r1 assms(3)] .
  then have "template_ok vm p" "template_ok vm b"
    using p b template_ok_split [OF assms(2)] by (auto simp: fresh_request_def)
  with f have "request_ok vm (r1 \<lparr> tokenized_path_with_vars := p, tokenized_payload_with_vars := b \<rparr>)"
    by (simp add: request_ok_def fresh_request_def omap_ok_def)
  with process_headers_ok [OF r' assms(2)] show ?thesis by simp
qed

lemma process_requests_ok:
  "process_requests env vm rs = Inr rs' \<Longrightarrow> vm_ok vm \<Longrightarrow> \<forall>r \<in> set rs. fresh_request r \<Longrightarrow>
    \<forall>r \<in> set rs'. request_ok vm r"
  by (induction rs arbitrary: rs') (auto dest: process_request_ok)

lemma process_scenario_ok:
  assumes "process_scenario env s = Inr s'" "vm_ok (variable_manager_of s)"
    and "\<forall>r \<in> set (requests s). fresh_request r"
  shows "vm_ok (variable_manager_of s')" "\<forall>r \<in> set (requests s'). request_ok (variable_manager_of s') r"
proof -
  from assms(1) obtain rs vm1 vm2 vm3 vm4 rs' where
    1: "pick_requests (requests s) (variable_manager_of s) = Inr (rs, vm1)"
    and 2: "add_ranges (range_based_variables s) vm1 = Inr vm2"
    and 3: "add_tables env (two_dim_variables s) vm2 = Inr vm3"
    and 4: "(if user_variables_input_file s \<noteq> [] then
        load_generic_variables_from_csv_file (boost_trim env)
          (read_file env (user_variables_input_file s)) vm3 else Inr vm3) = Inr vm4"
    and 5: "process_requests env vm4 rs = Inr rs'"
    and s': "variable_manager_of s' = vm4" "requests s' = rs'"
    by (auto simp: process_scenario_def Let_def)
  have "vm_ok vm3"
    using vm_ok_add_tables [OF 3] vm_ok_add_ranges [OF 2] vm_ok_pick_requests [OF 1] assms(2) by blast
  with 4 have "vm_ok vm4" by (auto split: if_splits dest: vm_ok_load_csv)
  moreover have "\<forall>r \<in> set rs. fresh_request r" by (rule fresh_pick_requests [OF 1 assms(3)])
  ultimately show "vm_ok (variable_manager_of s')"
    "\<forall>r \<in> set (requests s'). request_ok (variable_manager_of s') r"
    using process_requests_ok [OF 5] s' by auto
qed

section \<open>The slices\<close>

text \<open>Without wrap-around, the slice of client \<open>i\<close> starts at \<open>bound i\<close> and ends at \<open>bound (i + 1)\<close>.\<close>

definition slice_bound :: "nat \<Rightarrow> nat \<Rightarrow> nat \<Rightarrow> nat \<Rightarrow> nat" where
  "slice_bound n start end1 i =
     start + i * ((end1 - start) div n) + min i ((end1 - start) mod n)"

lemma slice_bound_0: "slice_bound n s e 0 = s"
  by (simp add: slice_bound_def)

lemma slice_bound_n: "s \<le> e \<Longrightarrow> 0 < n \<Longrightarrow> slice_bound n s e n = e"
proof -
  assume "s \<le> e" "0 < n"
  have "min n ((e - s) mod n) = (e - s) mod n" using mod_less_divisor [OF \<open>0 < n\<close>, of "e - s"] by simp
  moreover have "n * ((e - s) div n) + (e - s) mod n = e - s" by simp
  ultimately show ?thesis using \<open>s \<le> e\<close> unfolding slice_bound_def by linarith
qed

lemma slice_bound_Suc:
  "slice_bound n s e (Suc i) =
    slice_bound n s e i + (e - s) div n + (if (e - s) mod n \<le> i then 0 else 1)"
  by (simp add: slice_bound_def min_def)

lemma slice_bound_mono: "i \<le> j \<Longrightarrow> slice_bound n s e i \<le> slice_bound n s e j"
proof (induction j)
  case (Suc j)
  then show ?case by (cases "i = Suc j") (auto simp: slice_bound_Suc)
qed simp

lemma slice_variable_eq:
  assumes "s < e" "e < 2 ^ 64" "0 < n" "n \<le> e - s" "i < n"
    and "number_of_variables_from_value_pickers sc \<le> v" "variable_range_slicing sc"
    and "var_range_start (variable_manager_of sc) v = Inr s" "var_range_end (variable_manager_of sc) v = Inr e"
  shows "slice_variable n i w sc draw v =
    Inr (Some (slice_bound n s e i, slice_bound n s e (Suc i), slice_bound n s e i))"
proof -
  let ?t = "(e - s) div n" and ?l = "(e - s) mod n"
  have sub: "sub64 e s = e - s" using assms by (intro sub64_id) auto
  have t: "0 < ?t" using assms by (simp add: div_greater_zero_iff)
  have top: "slice_bound n s e (Suc i) \<le> e"
    using slice_bound_mono [of "Suc i" n n s e] slice_bound_n [of s e n] assms by simp
  then have bound: "slice_bound n s e i \<le> e" using slice_bound_mono [of i "Suc i" n s e] by simp
  then have mul: "mul64 i ?t = i * ?t" "add64 s (i * ?t) = s + i * ?t"
    using assms(2) by (auto simp: slice_bound_def mul64_id add64_id)
  have rs: "add64 (add64 s (mul64 i ?t)) (min i ?l) = slice_bound n s e i"
    using bound assms(2) unfolding mul by (subst add64_id) (auto simp: slice_bound_def)
  have re1: "add64 (slice_bound n s e i) ?t = slice_bound n s e i + ?t"
    using top assms(2) by (intro add64_id) (simp add: slice_bound_Suc)
  have re: "add64 (slice_bound n s e i + ?t) (if ?l \<le> i then 0 else 1) = slice_bound n s e (Suc i)"
    using top assms(2) by (subst add64_id) (auto simp: slice_bound_Suc)
  show ?thesis
    unfolding slice_variable_def using assms t
    by (simp add: sub rs re1 Let_def) (use re in \<open>auto split: if_splits\<close>)
qed

section \<open>Properties\<close>

text \<open>C32: once a freshly read scenario has been prepared, every path, payload and header template
  of its requests assembles without error for every user whose data fits the scenario's
  variables.\<close>

theorem prepared_templates_assemble:
  assumes "process_scenario env s = Inr s'" and "variable_manager_of s = empty_variable_manager"
    and "\<forall>r \<in> set (requests s). fresh_request r"
    and "user_fits (variable_manager_of s') vals uids" and "r \<in> set (requests s')"
  shows "let assemble = (\<lambda>sw. assemble_string (variable_manager_of s')
        (number_of_variables_from_value_pickers s') sw req vals uids) in
    ok (assemble (tokenized_path_with_vars r)) \<and> ok (assemble (tokenized_payload_with_vars r)) \<and>
    (\<forall>(n, v) \<in> set (headers_with_variable r). ok (assemble n) \<and> ok (assemble v))"
proof -
  have "vm_ok (variable_manager_of s')" "request_ok (variable_manager_of s') r"
    using process_scenario_ok [OF assms(1)] assms(2,3,5) by simp_all
  with template_ok_assembles [OF _ assms(4)] show ?thesis
    by (auto simp: request_ok_def Let_def)
qed

text \<open>A scenario with one request and one range variable, for the examples.\<close>

definition example_request :: request_template where
  "example_request = \<lparr> clear_old_cookies = False, rt_luaScript = [], make_request_function_present = False,
     validate_response_function_present = False, rt_schema = [], rt_authority = [],
     rt_uri = \<lparr> typeOfAction = ''input'', uri_input = ''/u/${id}'', uri_act = INPUT_URI \<rparr>, rt_method = ''GET'',
     rt_payload = ''x${id}'', rt_headers = [''k:v'', ''h:${id}''], rt_expected_status_code = 0,
     response_header_match = [], response_payload_match = [], response_match_rules = [],
     headers_in_map = [], headers_with_variable = [],
     tokenized_path_with_vars = empty_string_with_variables,
     tokenized_payload_with_vars = empty_string_with_variables, rt_delay_before_executing_next = 0,
     response_value_regex_pickers = [], actual_regex_value_pickers = [] \<rparr>"

definition example_scenario :: scenario where
  "example_scenario = \<lparr> scenario_name = ''s'', scenario_weight = 100, variable_name_in_path_and_data = [],
     user_id_list_file = [], range_based_variables = [(''id'', 0, 10)], two_dim_variables = [],
     interval_to_wait_before_start = 0, variable_range_start = 0, variable_range_end = 0,
     variable_range_slicing = True, requests = [example_request], run_requests_in_parallel = False,
     user_variables_input_file = [], variable_manager_of = empty_variable_manager,
     number_of_variables_from_value_pickers = 0 \<rparr>"

definition example_config_env :: config_env where
  "example_config_env = \<lparr> parse_url = \<lambda>_. None, read_file = \<lambda>_. None, boost_trim = \<lambda>s. s,
     lua_defines = \<lambda>_ _. False \<rparr>"

theorem prepared_templates_assemble_witness:
  "\<exists>s' r. process_scenario example_config_env example_scenario = Inr s' \<and> r \<in> set (requests s') \<and>
     ok (assemble_string (variable_manager_of s') (number_of_variables_from_value_pickers s')
       (tokenized_path_with_vars r) 0 [[]] [7])"
proof -
  let ?p = "process_scenario example_config_env example_scenario"
  have "(case ?p of Inr s' \<Rightarrow> length (requests s') = 1 \<and>
      user_fits (variable_manager_of s') [[]] [7] | Inl _ \<Rightarrow> False)" by code_simp
  then obtain s' where s': "?p = Inr s'" "length (requests s') = 1"
    "user_fits (variable_manager_of s') [[]] [7]"
    by (cases ?p) auto
  have r: "hd (requests s') \<in> set (requests s')" using s'(2) by (cases "requests s'") auto
  have "variable_manager_of example_scenario = empty_variable_manager" by (simp add: example_scenario_def)
  moreover have "\<forall>r \<in> set (requests example_scenario). fresh_request r"
    by (simp add: example_scenario_def example_request_def fresh_request_def)
  ultimately show ?thesis
    using prepared_templates_assemble [OF s'(1) _ _ s'(3) r, of 0] s'(1) r by (auto simp: Let_def)
qed

text \<open>C33: with slicing, the clients of a test split the range of a variable: the slice of each
  client is not empty, the slices are consecutive, and together they are the range, so no two
  clients use the same value.\<close>

theorem slices_partition_range:
  assumes "s < e" and "e < 2 ^ 64" and "0 < n" and "n \<le> e - s"
    and "number_of_variables_from_value_pickers sc \<le> v" and "variable_range_slicing sc"
    and "var_range_start (variable_manager_of sc) v = Inr s" and "var_range_end (variable_manager_of sc) v = Inr e"
  shows "\<exists>b. b 0 = s \<and> b n = e \<and> (\<forall>i < n. b i < b (Suc i) \<and>
    (\<forall>w draw. slice_variable n i w sc draw v = Inr (Some (b i, b (Suc i), b i))))"
proof (intro exI [of _ "slice_bound n s e"] conjI allI impI)
  show "slice_bound n s e 0 = s" by (rule slice_bound_0)
  show "slice_bound n s e n = e" using assms by (intro slice_bound_n) auto
  fix i w draw assume "i < n"
  then show "slice_variable n i w sc draw v =
      Inr (Some (slice_bound n s e i, slice_bound n s e (Suc i), slice_bound n s e i))"
    using assms by (intro slice_variable_eq) auto
  have "0 < (e - s) div n" using assms by (simp add: div_greater_zero_iff)
  then show "slice_bound n s e i < slice_bound n s e (Suc i)" by (simp add: slice_bound_Suc)
qed

theorem slices_partition_range_witness:
  "\<exists>s'. process_scenario example_config_env example_scenario = Inr s' \<and>
    (\<exists>b. b 0 = 0 \<and> b 3 = 10 \<and> (\<forall>i < 3. b i < b (Suc i) \<and>
      (\<forall>w draw. slice_variable 3 i w s' draw 0 = Inr (Some (b i, b (Suc i), b i)))))"
proof -
  let ?p = "process_scenario example_config_env example_scenario"
  have "(case ?p of Inr s' \<Rightarrow> number_of_variables_from_value_pickers s' = 0 \<and> variable_range_slicing s' \<and>
      var_range_start (variable_manager_of s') 0 = Inr 0 \<and>
      var_range_end (variable_manager_of s') 0 = Inr 10 | Inl _ \<Rightarrow> False)" by code_simp
  then obtain s' where s': "?p = Inr s'" "number_of_variables_from_value_pickers s' = 0"
    "variable_range_slicing s'" "var_range_start (variable_manager_of s') 0 = Inr 0"
    "var_range_end (variable_manager_of s') 0 = Inr 10"
    by (cases ?p) auto
  from slices_partition_range [of 0 10 3 s' 0] s' show ?thesis by auto
qed



end
