(* ===== verification/Requests.thy ===== *)
theory Requests
  imports Config Schedule Responses
begin

text \<open>
  The requests of a scenario: \<^verbatim>\<open>Request_Data\<close> and \<^verbatim>\<open>Scenario_Data_Per_User\<close> of
  \<^verbatim>\<open>src/h2load.h\<close> and the part of \<^verbatim>\<open>src/base_client.cc\<close> that builds the first request
  of a user (\<^verbatim>\<open>prepare_first_request\<close>) and each following one from the response to its
  predecessor (\<^verbatim>\<open>prepare_next_request\<close>, \<^verbatim>\<open>run_post_response_action\<close>,
  \<^verbatim>\<open>parse_uri_and_poupate_request\<close>, \<^verbatim>\<open>update_request_with_lua\<close> and the smaller helpers).

  The string pointers of \<^verbatim>\<open>Request_Data\<close> point into its own \<^verbatim>\<open>string_collection\<close>, into the
  configuration or to \<^verbatim>\<open>emptyString\<close>; the model keeps the string pointed to, and
  \<open>request_strings_fit\<close> shows when the collection never outgrows the capacity reserved for it, so
  that the pointers stay valid. The shared \<^verbatim>\<open>Scenario_Data_Per_User\<close> is kept by value; it is
  \<open>None\<close> once it has been moved to the next request. Requests that run in parallel share one
  object, which nobody reads after they have been built. The callbacks of the Lua interface
  (\<^verbatim>\<open>request_sent_callback\<close>) are not modelled.
\<close>

section \<open>Data\<close>

datatype string_ptr = Null | Empty_String | Str string

definition deref :: "string_ptr \<Rightarrow> string result" where
  "deref p = (case p of Null \<Rightarrow> Inl Null_Dereference | Empty_String \<Rightarrow> Inr [] | Str s \<Rightarrow> Inr s)"

record scenario_data_per_user =
  variable_index_to_value :: "string list"
  saved_cookies :: cookie_jar
  user_ids :: "nat list"

definition scenario_data_per_user_of :: "nat list \<Rightarrow> scenario_data_per_user" where
  "scenario_data_per_user_of u_ids =
     \<lparr> variable_index_to_value = replicate (length u_ids) [], saved_cookies = [], user_ids = u_ids \<rparr>"

record request_data =
  schema :: string_ptr
  authority :: string_ptr
  req_payload :: string_ptr
  path :: string_ptr
  req_method :: string_ptr
  req_payload_cursor :: nat
  req_headers_from_config :: "header_map option"
  req_headers_of_individual :: header_map
  resp_payload :: string
  resp_headers :: "header_map list"
  resp_trailer_present :: bool
  rd_status_code :: nat
  expected_status_code :: nat
  delay_before_executing_next :: nat
  curr_request_idx :: nat
  scenario_index :: nat
  string_collection :: "string list"
  stream_timeout_in_ms :: nat
  user_data :: "scenario_data_per_user option"

definition request_data_of :: "scenario_data_per_user option \<Rightarrow> request_data" where
  "request_data_of user =
     \<lparr> schema = Empty_String, authority = Empty_String, req_payload = Empty_String, path = Empty_String,
       req_method = Empty_String, req_payload_cursor = 0, req_headers_from_config = None,
       req_headers_of_individual = [], resp_payload = [], resp_headers = [], resp_trailer_present = False,
       rd_status_code = 0, expected_status_code = 0, delay_before_executing_next = 0,
       curr_request_idx = 0, scenario_index = 0, string_collection = [], stream_timeout_in_ms = 0,
       user_data = user \<rparr>"

definition is_empty :: "request_data \<Rightarrow> bool" where
  "is_empty r \<longleftrightarrow> schema r = Empty_String \<and> authority r = Empty_String \<and> req_method r = Empty_String"

text \<open>The room that \<^verbatim>\<open>init\<close> reserves.\<close>

definition string_capacity :: nat where
  "string_capacity = 12"

text \<open>\<^verbatim>\<open>emplace_back\<close> on the collection; the pointer is then set to the new string.\<close>

definition emplace :: "string \<Rightarrow> request_data \<Rightarrow> request_data" where
  "emplace s r = r \<lparr> string_collection := string_collection r @ [s] \<rparr>"

definition new_schema :: "string \<Rightarrow> request_data \<Rightarrow> request_data" where
  "new_schema s r = (emplace s r) \<lparr> schema := Str s \<rparr>"

definition new_authority :: "string \<Rightarrow> request_data \<Rightarrow> request_data" where
  "new_authority s r = (emplace s r) \<lparr> authority := Str s \<rparr>"

definition new_path :: "string \<Rightarrow> request_data \<Rightarrow> request_data" where
  "new_path s r = (emplace s r) \<lparr> path := Str s \<rparr>"

definition new_method :: "string \<Rightarrow> request_data \<Rightarrow> request_data" where
  "new_method s r = (emplace s r) \<lparr> req_method := Str s \<rparr>"

definition new_payload :: "string \<Rightarrow> request_data \<Rightarrow> request_data" where
  "new_payload s r = (emplace s r) \<lparr> req_payload := Str s \<rparr>"

text \<open>The libraries: \<^verbatim>\<open>std::regex_search\<close> (the whole match), the URL parser, and the functions
  \<^verbatim>\<open>make_request\<close> of the Lua script of a request.\<close>

record request_env = match_env +
  picker_search :: "string \<Rightarrow> string \<Rightarrow> string option"   \<comment> \<open>expression, subject\<close>
  url_parser :: "string \<Rightarrow> parsed_url option"
  make_request :: "string \<Rightarrow> (string \<times> string) list \<Rightarrow> string \<Rightarrow> (string \<times> string) list \<Rightarrow> string
    \<Rightarrow> lua_call"

section \<open>Picking values from a finished request\<close>

fun last_found :: "string \<Rightarrow> header_map list \<Rightarrow> string option \<Rightarrow> string option" where
  "last_found name [] found = found"
| "last_found name (h # hs) found =
     last_found name hs (case omap_find ci_less h name of Some v \<Rightarrow> Some v | None \<Rightarrow> found)"

fun first_found :: "string \<Rightarrow> header_map list \<Rightarrow> string" where
  "first_found name [] = []"
| "first_found name (h # hs) =
     (case omap_find ci_less h name of Some v \<Rightarrow> v | None \<Rightarrow> first_found name hs)"

definition request_header_source :: "request_data \<Rightarrow> string \<Rightarrow> string result" where
  "request_header_source r name =
    (let source = [] in
     case omap_find ci_less (req_headers_of_individual r) name of
       Some v \<Rightarrow> Inr v
     | None \<Rightarrow>
        (case req_headers_from_config r of
           None \<Rightarrow> Inl Null_Dereference
         | Some from_config \<Rightarrow>
            (case omap_find ci_less from_config name of
               Some v \<Rightarrow> Inr v
             | None \<Rightarrow>
                 if source = '':path'' then deref (path r)
                 else if source = '':scheme'' then deref (schema r)
                 else if source = '':req_method'' then deref (req_method r)
                 else if source = '':authority'' then deref (authority r)
                 else Inr source)))"

definition response_pointer_source :: "'a request_env_scheme \<Rightarrow> request_data \<Rightarrow> string \<Rightarrow> string result" where
  "response_pointer_source env r pointer =
     getValueFromJsonPtr (json_env.truncate env) (parse_json env (c_str (resp_payload r))) pointer"

text \<open>The switch of \<^verbatim>\<open>run_post_response_action\<close>; the case for a pointer into the request body has
  no \<^verbatim>\<open>break\<close>, so its value is replaced by that of the next case.\<close>

definition picked_source :: "'a request_env_scheme \<Rightarrow> request_data \<Rightarrow> regex_picker \<Rightarrow> string result" where
  "picked_source env r p =
    (case where_to_pick_up_from p of
       SOURCE_TYPE_RES_HEADER \<Rightarrow> Inr (first_found (picker_source p) (resp_headers r))
     | SOURCE_TYPE_REQ_HEADER \<Rightarrow> request_header_source r (picker_source p)
     | SOURCE_TYPE_REQ_POINTER \<Rightarrow>
         andthen (deref (req_payload r)) (\<lambda>payload.
         andthen (getValueFromJsonPtr (json_env.truncate env) (parse_json env (c_str payload)) (picker_source p))
           (\<lambda>_. response_pointer_source env r (picker_source p)))
     | SOURCE_TYPE_RES_POINTER \<Rightarrow> response_pointer_source env r (picker_source p))"

definition pick_value :: "'a request_env_scheme \<Rightarrow> request_data \<Rightarrow> regex_picker \<Rightarrow> request_data result" where
  "pick_value env r p =
     andthen (picked_source env r p) (\<lambda>source.
       case user_data r of
         None \<Rightarrow> Inl Null_Dereference
       | Some u \<Rightarrow>
          (if picker_id p < length (variable_index_to_value u) then
             Inr (r \<lparr> user_data := Some (u \<lparr> variable_index_to_value :=
               (variable_index_to_value u)[picker_id p :=
                 (case picker_search env (picker_regexp p) source of Some m \<Rightarrow> m | None \<Rightarrow> [])] \<rparr>) \<rparr>)
           else Inl Out_Of_Range))"

fun pick_values :: "'a request_env_scheme \<Rightarrow> regex_picker list \<Rightarrow> request_data \<Rightarrow> request_data result" where
  "pick_values env [] r = Inr r"
| "pick_values env (p # ps) r = andthen (pick_value env r p) (pick_values env ps)"

definition template_at :: "scenario list \<Rightarrow> nat \<Rightarrow> nat \<Rightarrow> request_template result" where
  "template_at ss i j = andthen (vec_at ss i) (\<lambda>s. vec_at (requests s) j)"

definition run_post_response_action :: "'a request_env_scheme \<Rightarrow> scenario list \<Rightarrow> request_data
    \<Rightarrow> request_data result" where
  "run_post_response_action env ss r =
     andthen (template_at ss (scenario_index r) (curr_request_idx r))
       (\<lambda>t. pick_values env (actual_regex_value_pickers t) r)"

definition save_cookies_of_response :: "request_data \<Rightarrow> request_data result" where
  "save_cookies_of_response r =
     andthen (deref (authority r)) (\<lambda>a. andthen (deref (schema r)) (\<lambda>s.
       case user_data r of
         None \<Rightarrow> Inl Null_Dereference
       | Some u \<Rightarrow> Inr (r \<lparr> user_data := Some (u \<lparr> saved_cookies :=
           parse_and_save_cookies a s (resp_headers r) (saved_cookies u) \<rparr>) \<rparr>)))"

section \<open>Filling in a request\<close>

definition assemble_for :: "scenario list \<Rightarrow> nat \<Rightarrow> nat \<Rightarrow> request_data \<Rightarrow> string_with_variables \<Rightarrow> string result" where
  "assemble_for ss i j r source =
     andthen (vec_at ss i) (\<lambda>s.
       case user_data r of
         None \<Rightarrow> Inl Null_Dereference
       | Some u \<Rightarrow> assemble_string (variable_manager_of s) (number_of_variables_from_value_pickers s) source j
           (variable_index_to_value u) (user_ids u))"

fun assemble_headers :: "(string_with_variables \<Rightarrow> string result) \<Rightarrow>
    (string_with_variables \<times> string_with_variables) list \<Rightarrow> header_map \<Rightarrow> header_map result" where
  "assemble_headers asm [] m = Inr m"
| "assemble_headers asm ((n, v) # hs) m =
     andthen (asm n) (\<lambda>name. andthen (asm v) (\<lambda>val.
       assemble_headers asm hs (omap_insert ci_less m name val)))"

definition populate_request_from_config_template :: "scenario list \<Rightarrow> request_data \<Rightarrow> nat \<Rightarrow> nat
    \<Rightarrow> request_data result" where
  "populate_request_from_config_template ss r i j =
     andthen (template_at ss i j) (\<lambda>t.
       let r1 = r \<lparr> req_method := Str (rt_method t), schema := Str (rt_schema t), authority := Str (rt_authority t) \<rparr> in
       andthen (assemble_for ss i j r1 (tokenized_payload_with_vars t)) (\<lambda>payload.
         let r2 = (new_payload payload r1)
               \<lparr> req_headers_from_config := Some (headers_in_map t),
                 expected_status_code := rt_expected_status_code t,
                 delay_before_executing_next := rt_delay_before_executing_next t \<rparr> in
         andthen (assemble_headers (assemble_for ss i j r2) (headers_with_variable t) (req_headers_of_individual r2))
           (\<lambda>hs. Inr (r2 \<lparr> req_headers_of_individual := hs \<rparr>))))"

definition parse_uri_and_poupate_request :: "'a request_env_scheme \<Rightarrow> string \<Rightarrow> request_data
    \<Rightarrow> bool \<times> request_data" where
  "parse_uri_and_poupate_request env uri r =
    (if uri = [] then (True, r)
     else case url_parser env uri of
         None \<Rightarrow> (False, r)
       | Some u \<Rightarrow>
          (let r1 = new_path (get_reqline u) r in
           case u_schema u of
             None \<Rightarrow> (True, r1)
           | Some s \<Rightarrow>
              (case u_host u of
                 None \<Rightarrow> (True, r1)
               | Some h \<Rightarrow> (True, new_authority (authority_of u h) (new_schema (str_lower s) r1)))))"

definition add_cookie_header :: "request_data \<Rightarrow> request_data result" where
  "add_cookie_header r =
    (case (user_data r, req_headers_from_config r) of
       (Some u, Some from_config) \<Rightarrow>
         andthen (deref (schema r)) (\<lambda>s. andthen (deref (authority r)) (\<lambda>a. andthen (deref (path r)) (\<lambda>p.
           Inr (r \<lparr> req_headers_of_individual := produce_request_cookie_header (saved_cookies u)
             from_config s a p (req_headers_of_individual r) \<rparr>))))
     | _ \<Rightarrow> Inl Null_Dereference)"

definition pseudo_headers :: "request_data \<Rightarrow> (string \<times> string) list result" where
  "pseudo_headers r =
     andthen (deref (req_method r)) (\<lambda>m. andthen (deref (path r)) (\<lambda>p.
     andthen (deref (schema r)) (\<lambda>s. andthen (deref (authority r)) (\<lambda>a.
       Inr [('':req_method'', m), ('':path'', p), ('':scheme'', s), ('':authority'', a)]))))"

text \<open>\<^verbatim>\<open>headers[name]\<close> on a \<^verbatim>\<open>std::map\<close>, which inserts an empty string if there is none.\<close>

definition header_or_empty :: "header_map \<Rightarrow> string \<Rightarrow> string" where
  "header_or_empty m name = (case omap_find ci_less m name of Some v \<Rightarrow> v | None \<Rightarrow> [])"

definition take_request_value :: "bool \<times> request_data \<Rightarrow> lua_value \<Rightarrow> bool \<times> request_data" where
  "take_request_value st v =
    (case v of
       LString s \<Rightarrow> (fst st, new_payload s (snd st))
     | LTable kvs \<Rightarrow>
        (let headers = foldl (\<lambda>m (k, x). omap_set ci_less m k x) [] kvs;
             r1 = new_method (header_or_empty headers '':req_method'') (snd st);
             r2 = new_path (header_or_empty headers '':path'') r1;
             r3 = new_authority (header_or_empty headers '':authority'') r2;
             r4 = new_schema (header_or_empty headers '':scheme'') r3
         in (fst st, r4 \<lparr> req_headers_of_individual :=
              omap_erase ci_less (omap_erase ci_less (omap_erase ci_less
                (omap_erase ci_less headers '':req_method'') '':path'') '':authority'') '':scheme'' \<rparr>))
     | LOther \<Rightarrow> (False, snd st))"

definition update_request_with_lua :: "'a request_env_scheme \<Rightarrow> string \<Rightarrow> request_data \<Rightarrow> request_data
    \<Rightarrow> (bool \<times> request_data) result" where
  "update_request_with_lua env script finished r =
     andthen (pseudo_headers finished) (\<lambda>ps1. andthen (pseudo_headers r) (\<lambda>ps2.
     andthen (deref (req_payload r)) (\<lambda>payload.
       case req_headers_from_config r of
         None \<Rightarrow> Inl Null_Dereference
       | Some from_config \<Rightarrow>
          (case make_request env script (concat (resp_headers finished) @ ps1) (resp_payload finished)
              (from_config @ ps2) payload of
             No_Function \<Rightarrow> Inr (True, r)
           | Lua_Error \<Rightarrow> Inl Exit_Failure
           | Lua_Results values \<Rightarrow> Inr (foldl take_request_value (True, r) values)))))"

definition update_content_length :: "request_data \<Rightarrow> request_data result" where
  "update_content_length r =
     andthen (deref (req_payload r)) (\<lambda>payload.
       Inr (if payload \<noteq> [] then r \<lparr> req_headers_of_individual :=
              omap_set ci_less (req_headers_of_individual r) ''content-length'' (utos (length payload)) \<rparr>
            else r))"

definition null_or_empty :: "string_ptr \<Rightarrow> bool" where
  "null_or_empty p \<longleftrightarrow> p = Null \<or> p = Empty_String \<or> p = Str []"

definition sanitize_request :: "string \<Rightarrow> string \<Rightarrow> request_data \<Rightarrow> request_data" where
  "sanitize_request client_schema client_authority r =
    (let r1 = (if null_or_empty (schema r) then new_schema client_schema r else r) in
     if null_or_empty (authority r1) then new_authority client_authority r1 else r1)"

section \<open>The next request of a user\<close>

text \<open>The queues and the cursors of a controlling client.\<close>

record request_source =
  requests_to_submit :: "request_data list"
  delayed_requests_to_submit :: "(nat \<times> request_data) list"  \<comment> \<open>a multimap ordered by time, in ms\<close>
  scenario_data_per_connection :: "scenario_data_per_client list"

definition enqueue_request :: "nat \<Rightarrow> request_data \<Rightarrow> request_data \<Rightarrow> request_source \<Rightarrow> request_source" where
  "enqueue_request now finished new src =
    (if delay_before_executing_next finished = 0 then
       src \<lparr> requests_to_submit := requests_to_submit src @ [new] \<rparr>
     else src \<lparr> delayed_requests_to_submit := mmap_insert nat_less (delayed_requests_to_submit src)
            (now + delay_before_executing_next finished) new \<rparr>)"

text \<open>The switch on the action of the URI in \<^verbatim>\<open>prepare_next_request\<close>; \<open>None\<close> is \<^verbatim>\<open>return false\<close>.\<close>

definition follow_uri :: "'a request_env_scheme \<Rightarrow> scenario list \<Rightarrow> request_template \<Rightarrow> request_data
    \<Rightarrow> request_data \<Rightarrow> request_data option result" where
  "follow_uri env ss t finished r =
    (case uri_act (rt_uri t) of
       INPUT_URI \<Rightarrow>
         andthen (assemble_for ss (scenario_index r) (curr_request_idx r) r (tokenized_path_with_vars t))
           (\<lambda>p. Inr (Some (new_path p r)))
     | SAME_WITH_LAST_ONE \<Rightarrow>
         andthen (deref (path finished)) (\<lambda>p. andthen (deref (schema finished)) (\<lambda>s.
         andthen (deref (authority finished)) (\<lambda>a.
           Inr (Some (new_authority a (new_schema s (new_path p r)))))))
     | FROM_RESPONSE_HEADER \<Rightarrow>
         (let r0 = r \<lparr> authority := Null \<rparr> in
          case last_found (uri_input (rt_uri t)) (resp_headers finished) None of
            None \<Rightarrow> Inr None
          | Some v \<Rightarrow>
             (case parse_uri_and_poupate_request env v r0 of
                (False, _) \<Rightarrow> Inr None
              | (True, r1) \<Rightarrow>
                  if authority r1 = Null then
                    andthen (deref (schema finished)) (\<lambda>s. andthen (deref (authority finished)) (\<lambda>a.
                      Inr (Some (new_authority a (new_schema s r1)))))
                  else Inr (Some r1)))
     | INPUT_WITH_VARIABLE \<Rightarrow>
         andthen (assemble_for ss (scenario_index r) (curr_request_idx r) r (tokenized_path_with_vars t))
           (\<lambda>uri. case parse_uri_and_poupate_request env uri r of
                (False, _) \<Rightarrow> Inr None
              | (True, r1) \<Rightarrow> Inr (Some r1))
     | _ \<Rightarrow> Inr (Some r))"

definition run_lua :: "'a request_env_scheme \<Rightarrow> string \<Rightarrow> request_data \<Rightarrow> request_data
    \<Rightarrow> request_data option result" where
  "run_lua env script finished r =
     andthen (update_request_with_lua env script finished r)
       (\<lambda>(retCode, r'). Inr (if retCode then Some r' else None))"

text \<open>From the URI on: cookies, Lua, content length, missing parts.\<close>

definition finish_next :: "'a request_env_scheme \<Rightarrow> scenario list \<Rightarrow> string \<Rightarrow> string \<Rightarrow> request_template
    \<Rightarrow> request_data \<Rightarrow> request_data \<Rightarrow> request_data option result" where
  "finish_next env ss client_schema client_authority t finished r =
     andthen (follow_uri env ss t finished r) (\<lambda>o1.
       case o1 of None \<Rightarrow> Inr None
       | Some r1 \<Rightarrow>
           andthen (add_cookie_header r1) (\<lambda>r2.
           andthen (if rt_luaScript t \<noteq> [] then run_lua env (rt_luaScript t) finished r2 else Inr (Some r2)) (\<lambda>o2.
             case o2 of None \<Rightarrow> Inr None
             | Some r3 \<Rightarrow>
                 andthen (update_content_length r3) (\<lambda>r4.
                   Inr (Some (sanitize_request client_schema client_authority r4))))))"

text \<open>The new request at index \<open>i\<close> of scenario \<open>s\<close>, built after the values of the finished request
  have been picked; the finished request gives up the data of its user unless the scenario runs in
  parallel.\<close>

definition build_next :: "'a request_env_scheme \<Rightarrow> scenario list \<Rightarrow> string \<Rightarrow> string \<Rightarrow> scenario \<Rightarrow> nat
    \<Rightarrow> request_data \<Rightarrow> (request_data \<times> request_data option) result" where
  "build_next env ss client_schema client_authority s i f1 =
    (let t = requests s ! i in
     andthen (if \<not> clear_old_cookies t then save_cookies_of_response f1 else Inr f1) (\<lambda>f2.
       let f3 = (if run_requests_in_parallel s then f2 else f2 \<lparr> user_data := None \<rparr>);
           new = (request_data_of (user_data f2)) \<lparr> scenario_index := scenario_index f1, curr_request_idx := i \<rparr>
       in
       andthen (populate_request_from_config_template ss new (scenario_index f1) i) (\<lambda>r.
       andthen (finish_next env ss client_schema client_authority t f3 r) (\<lambda>o3. Inr (f3, o3)))))"

text \<open>The whole function without the queue: the finished request and the new one if there is one.\<close>

definition next_request :: "'a request_env_scheme \<Rightarrow> scenario list \<Rightarrow> string \<Rightarrow> string \<Rightarrow> request_data
    \<Rightarrow> (request_data \<times> request_data option) result" where
  "next_request env ss client_schema client_authority finished =
     andthen (run_post_response_action env ss finished) (\<lambda>f1.
     andthen (vec_at ss (scenario_index f1)) (\<lambda>s.
       if requests s = [] then Inl Division_By_Zero
       else
         let curr_req_index = (curr_request_idx f1 + 1) mod length (requests s) in
         if curr_req_index = 0 then Inr (f1, None)
         else build_next env ss client_schema client_authority s curr_req_index f1))"

definition prepare_next_request :: "'a request_env_scheme \<Rightarrow> nat \<Rightarrow> scenario list \<Rightarrow> string \<Rightarrow> string
    \<Rightarrow> request_data \<Rightarrow> request_source \<Rightarrow> (bool \<times> request_data \<times> request_source) result" where
  "prepare_next_request env now ss client_schema client_authority finished src =
     andthen (next_request env ss client_schema client_authority finished)
       (\<lambda>(f, n). case n of
           None \<Rightarrow> Inr (False, f, src)
         | Some r \<Rightarrow> Inr (True, f, enqueue_request now f r src))"

fun prepare_parallel :: "'a request_env_scheme \<Rightarrow> nat \<Rightarrow> scenario list \<Rightarrow> string \<Rightarrow> string \<Rightarrow> nat
    \<Rightarrow> request_data \<Rightarrow> request_source \<Rightarrow> (request_data \<times> request_source) result" where
  "prepare_parallel env now ss client_schema client_authority 0 r src = Inr (r, src)"
| "prepare_parallel env now ss client_schema client_authority (Suc n) r src =
     andthen (prepare_next_request env now ss client_schema client_authority r src)
       (\<lambda>(_, r', src'). prepare_parallel env now ss client_schema client_authority n r' src')"

definition first_uri :: "'a request_env_scheme \<Rightarrow> scenario list \<Rightarrow> request_template \<Rightarrow> request_data
    \<Rightarrow> request_data result" where
  "first_uri env ss t r =
     andthen (assemble_for ss (scenario_index r) (curr_request_idx r) r (tokenized_path_with_vars t)) (\<lambda>uri.
       if uri_act (rt_uri t) = INPUT_WITH_VARIABLE then
         (case parse_uri_and_poupate_request env uri r of
            (False, _) \<Rightarrow> Inl Abort
          | (True, r1) \<Rightarrow> Inr r1)
       else Inr (new_path uri r))"

text \<open>\<^verbatim>\<open>prepare_first_request\<close> once the scenario has been chosen: the request of the user whose
  variables are at the cursor \<open>d\<close>; \<open>dummy_data\<close> of the code is a request of a user without variables.\<close>

definition build_first :: "'a request_env_scheme \<Rightarrow> scenario list \<Rightarrow> string \<Rightarrow> string \<Rightarrow> scenario \<Rightarrow> nat
    \<Rightarrow> scenario_data_per_client \<Rightarrow> request_data result" where
  "build_first env ss client_schema client_authority s i d =
    (let new = (request_data_of (Some (scenario_data_per_user_of (get_curr_vars d))))
           \<lparr> scenario_index := i, curr_request_idx := 0 \<rparr> in
     andthen (populate_request_from_config_template ss new i 0) (\<lambda>r1.
     andthen (vec_at (requests s) 0) (\<lambda>t.
     andthen (first_uri env ss t r1) (\<lambda>r2.
     andthen (if make_request_function_present t then
          andthen (run_lua env (rt_luaScript t) (request_data_of (Some (scenario_data_per_user_of []))) r2)
            (\<lambda>o3. case o3 of None \<Rightarrow> Inl Exit_Failure | Some r3 \<Rightarrow> Inr r3)
        else Inr r2) (\<lambda>r3.
     andthen (update_content_length r3) (\<lambda>r4.
       Inr (sanitize_request client_schema client_authority r4)))))))"

definition first_request_of :: "'a request_env_scheme \<Rightarrow> nat \<Rightarrow> scenario list \<Rightarrow> string \<Rightarrow> string \<Rightarrow> nat
    \<Rightarrow> request_source \<Rightarrow> (request_data \<times> request_source) result" where
  "first_request_of env now ss client_schema client_authority i src =
     andthen (vec_at ss i) (\<lambda>s.
     andthen (vec_at (scenario_data_per_connection src) i) (\<lambda>d.
     andthen (inc_var d) (\<lambda>d'.
     andthen (build_first env ss client_schema client_authority s i d) (\<lambda>r.
       let src1 = src \<lparr> scenario_data_per_connection := (scenario_data_per_connection src)[i := d'] \<rparr> in
       if run_requests_in_parallel s then
         prepare_parallel env now ss client_schema client_authority (length (requests s) - 1) r src1
       else Inr (r, src1)))))"

text \<open>\<open>distr\<close> and the scheduler are those of \<^verbatim>\<open>get_index_of_next_scenario_to_run\<close>.\<close>

definition prepare_first_request :: "'a request_env_scheme \<Rightarrow> (int \<Rightarrow> int \<Rightarrow> int) \<Rightarrow> nat \<Rightarrow> scenario list \<Rightarrow> nat
    \<Rightarrow> string \<Rightarrow> string \<Rightarrow> scheduler option \<Rightarrow> request_source
    \<Rightarrow> (request_data \<times> scheduler option \<times> request_source) result" where
  "prepare_first_request env distr now ss sequence_number client_schema client_authority sched src =
     andthen (get_index_of_next_scenario_to_run distr
         (map (\<lambda>s. (scenario_weight s, length (requests s))) ss) sequence_number sched) (\<lambda>(i, sched').
     andthen (first_request_of env now ss client_schema client_authority i src) (\<lambda>(r, src').
       Inr (r, sched', src')))"

text \<open>\<^verbatim>\<open>resume_delayed_request_execution\<close>\<close>

definition resume_delayed_request_execution :: "nat \<Rightarrow> request_source \<Rightarrow> request_source" where
  "resume_delayed_request_execution now src =
    (let due = takeWhile (\<lambda>(t, _). t \<le> now) (delayed_requests_to_submit src) in
     src \<lparr> requests_to_submit := requests_to_submit src @ map snd due,
           delayed_requests_to_submit := drop (length due) (delayed_requests_to_submit src) \<rparr>)"

section \<open>What the steps keep\<close>

named_theorems request_simps \<open>effect of the request helpers on the fields of a request\<close>

lemma emplace_fields [simp, request_simps]:
  "string_collection (emplace s r) = string_collection r @ [s]"
  "user_data (emplace s r) = user_data r" "scenario_index (emplace s r) = scenario_index r"
  "curr_request_idx (emplace s r) = curr_request_idx r"
  "delay_before_executing_next (emplace s r) = delay_before_executing_next r"
  "req_headers_from_config (emplace s r) = req_headers_from_config r"
  "req_headers_of_individual (emplace s r) = req_headers_of_individual r"
  "schema (emplace s r) = schema r" "authority (emplace s r) = authority r" "path (emplace s r) = path r"
  "req_method (emplace s r) = req_method r" "req_payload (emplace s r) = req_payload r"
  by (simp_all add: emplace_def)

lemmas new_string_defs = new_schema_def new_authority_def new_path_def new_method_def new_payload_def

lemma new_string_fields [simp, request_simps]:
  "schema (new_schema s r) = Str s" "authority (new_schema s r) = authority r" "path (new_schema s r) = path r"
  "req_method (new_schema s r) = req_method r" "req_payload (new_schema s r) = req_payload r"
  "schema (new_authority s r) = schema r" "authority (new_authority s r) = Str s" "path (new_authority s r) = path r"
  "req_method (new_authority s r) = req_method r" "req_payload (new_authority s r) = req_payload r"
  "schema (new_path s r) = schema r" "authority (new_path s r) = authority r" "path (new_path s r) = Str s"
  "req_method (new_path s r) = req_method r" "req_payload (new_path s r) = req_payload r"
  "schema (new_method s r) = schema r" "authority (new_method s r) = authority r" "path (new_method s r) = path r"
  "req_method (new_method s r) = Str s" "req_payload (new_method s r) = req_payload r"
  "schema (new_payload s r) = schema r" "authority (new_payload s r) = authority r" "path (new_payload s r) = path r"
  "req_method (new_payload s r) = req_method r" "req_payload (new_payload s r) = Str s"
  by (simp_all add: new_string_defs)

text \<open>Two requests at the same place of a scenario, of the same user, with the same template.\<close>

definition same_place :: "request_data \<Rightarrow> request_data \<Rightarrow> bool" where
  "same_place r r' \<longleftrightarrow> scenario_index r' = scenario_index r \<and> curr_request_idx r' = curr_request_idx r \<and>
     user_data r' = user_data r \<and> req_headers_from_config r' = req_headers_from_config r \<and>
     delay_before_executing_next r' = delay_before_executing_next r"

lemma same_place_refl [simp]: "same_place r r"
  by (simp add: same_place_def)

lemma same_place_trans: "same_place a b \<Longrightarrow> same_place b c \<Longrightarrow> same_place a c"
  by (simp add: same_place_def)

lemma same_place_new [simp]:
  "same_place r (new_schema s r') \<longleftrightarrow> same_place r r'"
  "same_place r (new_authority s r') \<longleftrightarrow> same_place r r'"
  "same_place r (new_path s r') \<longleftrightarrow> same_place r r'"
  "same_place r (new_method s r') \<longleftrightarrow> same_place r r'"
  "same_place r (new_payload s r') \<longleftrightarrow> same_place r r'"
  by (simp_all add: same_place_def new_string_defs)

lemma string_collection_new [simp]:
  "string_collection (new_schema s r) = string_collection r @ [s]"
  "string_collection (new_authority s r) = string_collection r @ [s]"
  "string_collection (new_path s r) = string_collection r @ [s]"
  "string_collection (new_method s r) = string_collection r @ [s]"
  "string_collection (new_payload s r) = string_collection r @ [s]"
  by (simp_all add: new_string_defs)

lemma parse_uri_keeps:
  assumes "parse_uri_and_poupate_request env uri r = (b, r')"
  shows "same_place r r'" "length (string_collection r') \<le> length (string_collection r) + 3"
    "authority r' = Null \<Longrightarrow> length (string_collection r') \<le> length (string_collection r) + 1"
  using assms
  by (auto simp: parse_uri_and_poupate_request_def Let_def
      split: if_splits option.splits)

lemma follow_uri_keeps:
  assumes "follow_uri env ss t finished r = Inr (Some r')"
  shows "same_place r r' \<and> length (string_collection r') \<le> length (string_collection r) + 3"
proof (cases "uri_act (rt_uri t)")
  case FROM_RESPONSE_HEADER
  with assms obtain v r1 where
      p: "parse_uri_and_poupate_request env v (r \<lparr> authority := Null \<rparr>) = (True, r1)"
    and r': "(authority r1 = Null \<and> (\<exists>s a. r' = new_authority a (new_schema s r1))) \<or>
      (authority r1 \<noteq> Null \<and> r' = r1)"
    by (auto simp: follow_uri_def split: option.splits prod.splits bool.splits if_splits)
  note keeps = parse_uri_keeps [OF p]
  from keeps(1) have "same_place r r1" by (simp add: same_place_def)
  with r' keeps(2,3) show ?thesis by auto
next
  case INPUT_WITH_VARIABLE
  with assms obtain v where "parse_uri_and_poupate_request env v r = (True, r')"
    by (auto simp: follow_uri_def split: prod.splits bool.splits)
  from parse_uri_keeps(1,2) [OF this] show ?thesis by simp
qed (use assms in \<open>auto simp: follow_uri_def\<close>)

lemma populate_keeps:
  assumes "populate_request_from_config_template ss r i j = Inr r'"
  shows "scenario_index r' = scenario_index r" "curr_request_idx r' = curr_request_idx r"
    "user_data r' = user_data r" "length (string_collection r') = length (string_collection r) + 1"
    "req_headers_from_config r' \<noteq> None"
    "\<exists>t. template_at ss i j = Inr t \<and> delay_before_executing_next r' = rt_delay_before_executing_next t"
  using assms
  by (auto simp: populate_request_from_config_template_def Let_def new_payload_def)

text \<open>The strings a value from Lua adds: one for a body, four for a table.\<close>

definition lua_strings :: "lua_value \<Rightarrow> nat" where
  "lua_strings v = (case v of LString _ \<Rightarrow> 1 | LTable _ \<Rightarrow> 4 | LOther \<Rightarrow> 0)"

lemma take_request_value_keeps:
  "same_place (snd st) (snd (take_request_value st v)) \<and>
   length (string_collection (snd (take_request_value st v))) = length (string_collection (snd st)) + lua_strings v"
proof (cases v)
  case (LTable kvs)
  define h where "h = foldl (\<lambda>m (k, x). omap_set ci_less m k x) [] kvs"
  show ?thesis unfolding LTable take_request_value_def lua_value.case Let_def h_def [symmetric]
    by (simp add: lua_strings_def same_place_def new_string_defs)
qed (simp_all add: take_request_value_def lua_strings_def)

lemma take_request_values_keep:
  "same_place (snd st) (snd (foldl take_request_value st vs)) \<and>
   length (string_collection (snd (foldl take_request_value st vs)))
     = length (string_collection (snd st)) + sum_list (map lua_strings vs)"
proof (induction vs arbitrary: st)
  case (Cons v vs)
  from take_request_value_keeps [of st v] Cons [of "take_request_value st v"] show ?case
    by (auto intro: same_place_trans)
qed simp

text \<open>All results of the Lua functions together need at most \<open>n\<close> strings.\<close>

definition lua_bounded :: "'a request_env_scheme \<Rightarrow> nat \<Rightarrow> bool" where
  "lua_bounded env n \<longleftrightarrow> (\<forall>script h1 p1 h2 p2 vs. make_request env script h1 p1 h2 p2 = Lua_Results vs
     \<longrightarrow> sum_list (map lua_strings vs) \<le> n)"

lemma run_lua_cases:
  assumes "run_lua env script finished r = Inr (Some r')"
  shows "r' = r \<or> (\<exists>h1 p1 h2 p2 vs. make_request env script h1 p1 h2 p2 = Lua_Results vs \<and>
    r' = snd (foldl take_request_value (True, r) vs))"
  using assms
  by (fastforce simp: run_lua_def update_request_with_lua_def split: option.splits lua_call.splits if_splits)

lemma run_lua_keeps:
  assumes "run_lua env script finished r = Inr (Some r')"
  shows "same_place r r'"
    "lua_bounded env n \<Longrightarrow> length (string_collection r') \<le> length (string_collection r) + n"
  using run_lua_cases [OF assms] take_request_values_keep [of "(True, r)"] by (auto simp: lua_bounded_def)

lemma add_cookie_header_keeps:
  assumes "add_cookie_header r = Inr r'"
  shows "same_place r r'" "string_collection r' = string_collection r"
  using assms by (auto simp: add_cookie_header_def same_place_def split: option.splits)

lemma update_content_length_keeps:
  assumes "update_content_length r = Inr r'"
  shows "same_place r r'" "string_collection r' = string_collection r"
  using assms by (auto simp: update_content_length_def same_place_def split: if_splits)

lemma sanitize_request_keeps:
  "same_place r (sanitize_request cs ca r)"
  "length (string_collection (sanitize_request cs ca r)) \<le> length (string_collection r) + 2"
  by (simp_all add: sanitize_request_def Let_def)

text \<open>\<open>finish_next\<close> taken apart once.\<close>

lemma finish_nextE:
  assumes "finish_next env ss cs ca t finished r = Inr (Some r')"
  obtains r1 r2 r3 r4 where "follow_uri env ss t finished r = Inr (Some r1)"
    "add_cookie_header r1 = Inr r2"
    "r3 = r2 \<or> run_lua env (rt_luaScript t) finished r2 = Inr (Some r3)"
    "update_content_length r3 = Inr r4" "r' = sanitize_request cs ca r4"
proof -
  from assms obtain r1 r2 o2 r4 where
      a: "follow_uri env ss t finished r = Inr (Some r1)" and b: "add_cookie_header r1 = Inr r2"
    and c: "(if rt_luaScript t \<noteq> [] then run_lua env (rt_luaScript t) finished r2 else Inr (Some r2)) = Inr (Some o2)"
    and d: "update_content_length o2 = Inr r4" "r' = sanitize_request cs ca r4"
    unfolding finish_next_def by (auto split: option.splits)
  from c have "o2 = r2 \<or> run_lua env (rt_luaScript t) finished r2 = Inr (Some o2)"
    by (auto split: if_splits)
  with a b d that show thesis by blast
qed

lemma finish_next_keeps:
  assumes "finish_next env ss cs ca t finished r = Inr (Some r')"
  shows "same_place r r'"
    "lua_bounded env n \<Longrightarrow> length (string_collection r') \<le> length (string_collection r) + 5 + n"
proof -
  from assms obtain r1 r2 r3 r4 where
      u: "follow_uri env ss t finished r = Inr (Some r1)" and c: "add_cookie_header r1 = Inr r2"
    and l: "r3 = r2 \<or> run_lua env (rt_luaScript t) finished r2 = Inr (Some r3)"
    and d: "update_content_length r3 = Inr r4" and s: "r' = sanitize_request cs ca r4"
    by (rule finish_nextE)
  note ku = follow_uri_keeps [OF u] and kc = add_cookie_header_keeps [OF c]
    and kd = update_content_length_keeps [OF d] and ks = sanitize_request_keeps [where r = r4]
  from l have "same_place r2 r3" using run_lua_keeps(1) by auto
  with ku kc(1) kd(1) ks(1) s show "same_place r r'" by (auto simp: same_place_def)
  assume bounded: "lua_bounded env n"
  with l have "length (string_collection r3) \<le> length (string_collection r2) + n"
    using run_lua_keeps(2) by auto
  moreover have "length (string_collection r') \<le> length (string_collection r4) + 2"
    unfolding s by (rule ks(2))
  ultimately show "length (string_collection r') \<le> length (string_collection r) + 5 + n"
    using ku kc(2) kd(2) by simp
qed

text \<open>Two requests that differ at most in the data of their user, who is the same.\<close>

definition same_but_user :: "request_data \<Rightarrow> request_data \<Rightarrow> bool" where
  "same_but_user a b \<longleftrightarrow> b = a \<lparr> user_data := user_data b \<rparr> \<and>
     map_option user_ids (user_data b) = map_option user_ids (user_data a)"

lemma same_but_user_refl [simp]: "same_but_user a a"
  by (simp add: same_but_user_def)

lemma same_but_user_trans: "same_but_user a b \<Longrightarrow> same_but_user b c \<Longrightarrow> same_but_user a c"
  unfolding same_but_user_def by (cases a; cases b; cases c) auto

lemma same_but_user_fields:
  assumes "same_but_user a b"
  shows "scenario_index b = scenario_index a" "curr_request_idx b = curr_request_idx a"
    "delay_before_executing_next b = delay_before_executing_next a"
  using assms unfolding same_but_user_def by (cases a; cases b; auto)+

lemma pick_value_keeps: "pick_value env r p = Inr r' \<Longrightarrow> same_but_user r r'"
  by (auto simp: pick_value_def same_but_user_def split: option.splits if_splits)

lemma pick_values_keep: "pick_values env ps r = Inr r' \<Longrightarrow> same_but_user r r'"
proof (induction ps arbitrary: r)
  case (Cons p ps)
  then obtain r1 where p: "pick_value env r p = Inr r1" and q: "pick_values env ps r1 = Inr r'" by auto
  from pick_value_keeps [OF p] Cons.IH [OF q] show ?case by (rule same_but_user_trans)
qed simp

lemma save_cookies_keeps: "save_cookies_of_response r = Inr r' \<Longrightarrow> same_but_user r r'"
  by (auto simp: save_cookies_of_response_def same_but_user_def split: option.splits)

lemma build_nextE:
  assumes "build_next env ss cs ca s i f1 = Inr (f, Some r)"
  obtains f2 r0 where "f2 = f1 \<or> save_cookies_of_response f1 = Inr f2"
    "f = (if run_requests_in_parallel s then f2 else f2 \<lparr> user_data := None \<rparr>)"
    "populate_request_from_config_template ss ((request_data_of (user_data f2))
       \<lparr> scenario_index := scenario_index f1, curr_request_idx := i \<rparr>) (scenario_index f1) i = Inr r0"
    "finish_next env ss cs ca (requests s ! i) f r0 = Inr (Some r)"
proof -
  from assms obtain f2 where c: "(if \<not> clear_old_cookies (requests s ! i) then save_cookies_of_response f1 else Inr f1) = Inr f2"
    and rest: "andthen (populate_request_from_config_template ss ((request_data_of (user_data f2))
       \<lparr> scenario_index := scenario_index f1, curr_request_idx := i \<rparr>) (scenario_index f1) i) (\<lambda>r.
       andthen (finish_next env ss cs ca (requests s ! i) (if run_requests_in_parallel s then f2 else f2 \<lparr> user_data := None \<rparr>) r)
         (\<lambda>o3. Inr (if run_requests_in_parallel s then f2 else f2 \<lparr> user_data := None \<rparr>, o3))) = Inr (f, Some r)"
    unfolding build_next_def Let_def by (elim andthen_InrE) simp
  from c have "f2 = f1 \<or> save_cookies_of_response f1 = Inr f2" by (auto split: if_splits)
  moreover from rest obtain r0 o3 where
      "populate_request_from_config_template ss ((request_data_of (user_data f2))
       \<lparr> scenario_index := scenario_index f1, curr_request_idx := i \<rparr>) (scenario_index f1) i = Inr r0"
    and "finish_next env ss cs ca (requests s ! i) (if run_requests_in_parallel s then f2 else f2 \<lparr> user_data := None \<rparr>) r0 = Inr o3"
    and "(if run_requests_in_parallel s then f2 else f2 \<lparr> user_data := None \<rparr>, o3) = (f, Some r)"
    by (elim andthen_InrE) simp
  ultimately show thesis using that by blast
qed

text \<open>What the finished request, after its values and cookies have been taken, and the new request
  look like.\<close>

lemma next_requestE:
  assumes "next_request env ss cs ca finished = Inr (f, n)"
  obtains "n = None" | (found) s u r0 r where "n = Some r"
    "scenario_index finished < length ss" "s = ss ! scenario_index finished"
    "Suc (curr_request_idx finished) < length (requests s)"
    "map_option user_ids u = map_option user_ids (user_data finished)"
    "f = finished \<lparr> user_data := (if run_requests_in_parallel s then u else None) \<rparr>"
    "populate_request_from_config_template ss ((request_data_of u) \<lparr> scenario_index := scenario_index finished,
       curr_request_idx := Suc (curr_request_idx finished) \<rparr>) (scenario_index finished)
       (Suc (curr_request_idx finished)) = Inr r0"
    "finish_next env ss cs ca (requests s ! Suc (curr_request_idx finished)) f r0 = Inr (Some r)"
proof (cases n)
  case (Some r)
  define k where "k f1 s = (curr_request_idx f1 + 1) mod length (requests s)" for f1 :: request_data and s :: scenario
  from assms obtain f1 s where a: "run_post_response_action env ss finished = Inr f1"
    and b: "scenario_index f1 < length ss" "s = ss ! scenario_index f1" "requests s \<noteq> []" "k f1 s \<noteq> 0"
    and rest: "build_next env ss cs ca s (k f1 s) f1 = Inr (f, Some r)"
    unfolding next_request_def Some k_def by (auto simp: Let_def split: if_splits)
  from rest obtain f2 r0 where d: "f2 = f1 \<or> save_cookies_of_response f1 = Inr f2"
    and e: "f = (if run_requests_in_parallel s then f2 else f2 \<lparr> user_data := None \<rparr>)"
    and g: "populate_request_from_config_template ss ((request_data_of (user_data f2))
        \<lparr> scenario_index := scenario_index f1, curr_request_idx := k f1 s \<rparr>) (scenario_index f1) (k f1 s) = Inr r0"
    and h: "finish_next env ss cs ca (requests s ! k f1 s) f r0 = Inr (Some r)"
    by (rule build_nextE)
  from a obtain t where t: "template_at ss (scenario_index finished) (curr_request_idx finished) = Inr t"
    and p: "pick_values env (actual_regex_value_pickers t) finished = Inr f1"
    by (auto simp: run_post_response_action_def)
  define u where "u = user_data f2"
  from p have f1: "same_but_user finished f1" by (rule pick_values_keep)
  moreover from d have "same_but_user f1 f2" using save_cookies_keeps by auto
  ultimately have "same_but_user finished f2" by (rule same_but_user_trans)
  then have f2: "f2 = finished \<lparr> user_data := u \<rparr>"
    "map_option user_ids u = map_option user_ids (user_data finished)"
    unfolding same_but_user_def u_def by blast+
  note fields = same_but_user_fields [OF f1]
  from t fields b have lt: "curr_request_idx finished < length (requests s)"
    by (auto simp: template_at_def)
  with b(4) fields have suc: "k f1 s = Suc (curr_request_idx finished)" "k f1 s < length (requests s)"
    by (auto simp: k_def mod_Suc split: if_splits)
  from e have f: "f = finished \<lparr> user_data := (if run_requests_in_parallel s then u else None) \<rparr>"
    by (simp add: f2(1))
  from g have g: "populate_request_from_config_template ss ((request_data_of u)
      \<lparr> scenario_index := scenario_index f1, curr_request_idx := k f1 s \<rparr>) (scenario_index f1) (k f1 s) = Inr r0"
    by (simp only: u_def)
  show thesis
    by (rule found [of r s u r0]) (use Some b f2(2) f g h suc fields in \<open>simp_all\<close>)
qed (rule that(1))

section \<open>Requests are complete\<close>

definition sound :: "request_data \<Rightarrow> bool" where
  "sound r \<longleftrightarrow> path r \<noteq> Null \<and> req_method r \<noteq> Null \<and> req_headers_from_config r \<noteq> None \<and>
     omap_ok ci_less (req_headers_of_individual r)"

text \<open>Scheme and authority are known, every pointer can be followed, and the header
  \<^verbatim>\<open>content-length\<close> gives the size of the body if there is one.\<close>

definition is_text :: "string_ptr \<Rightarrow> bool" where
  "is_text p = (case p of Str s \<Rightarrow> s \<noteq> [] | _ \<Rightarrow> False)"

definition complete_request :: "request_data \<Rightarrow> bool" where
  "complete_request r \<longleftrightarrow> sound r \<and> is_text (schema r) \<and> is_text (authority r) \<and>
     (case req_payload r of
        Null \<Rightarrow> False
      | Empty_String \<Rightarrow> True
      | Str p \<Rightarrow> p = [] \<or>
          omap_find ci_less (req_headers_of_individual r) ''content-length'' = Some (utos (length p)))"

lemma complete_request_user [simp]: "complete_request (a \<lparr> user_data := u \<rparr>) = complete_request a"
  by (simp add: complete_request_def sound_def cong: string_ptr.case_cong)

lemma complete_same_but_user: "same_but_user a b \<Longrightarrow> complete_request b = complete_request a"
  unfolding same_but_user_def by (metis complete_request_user)

lemma sound_new [simp]:
  "sound (new_schema s r) = sound r" "sound (new_authority s r) = sound r" "sound (new_payload s r) = sound r"
  "sound r \<Longrightarrow> sound (new_path s r)" "sound r \<Longrightarrow> sound (new_method s r)"
  by (simp_all add: sound_def new_string_defs)

lemma sound_parse_uri: "parse_uri_and_poupate_request env uri r = (b, r') \<Longrightarrow> sound r \<Longrightarrow> sound r'"
  by (auto simp: parse_uri_and_poupate_request_def Let_def split: if_splits option.splits)

lemma sound_set_authority [simp]: "sound (r \<lparr> authority := p \<rparr>) = sound r"
  by (simp add: sound_def)

lemma sound_follow_uri:
  assumes "follow_uri env ss t finished r = Inr (Some r')" "sound r"
  shows "sound r'"
proof (cases "uri_act (rt_uri t)")
  case FROM_RESPONSE_HEADER
  with assms(1) obtain v r1 where p: "parse_uri_and_poupate_request env v (r \<lparr> authority := Null \<rparr>) = (True, r1)"
    and r': "r' = r1 \<or> (\<exists>s a. r' = new_authority a (new_schema s r1))"
    by (auto simp: follow_uri_def split: option.splits prod.splits bool.splits if_splits)
  from sound_parse_uri [OF p] assms(2) have "sound r1" by simp
  with r' show ?thesis by auto
next
  case INPUT_WITH_VARIABLE
  with assms(1) obtain v where "parse_uri_and_poupate_request env v r = (True, r')"
    by (auto simp: follow_uri_def split: prod.splits bool.splits)
  from sound_parse_uri [OF this assms(2)] show ?thesis .
qed (use assms in \<open>auto simp: follow_uri_def\<close>)

lemma omap_ok_cookie_header: "omap_ok ci_less individual \<Longrightarrow>
    omap_ok ci_less (produce_request_cookie_header jar from_config s a p individual)"
  by (auto simp: produce_request_cookie_header_def Let_def ci.omap_ok_set split: option.splits)

lemma sound_add_cookie_header: "add_cookie_header r = Inr r' \<Longrightarrow> sound r \<Longrightarrow> sound r'"
  by (auto simp: add_cookie_header_def sound_def omap_ok_cookie_header split: option.splits)

lemma omap_ok_sets: "omap_ok ci_less m \<Longrightarrow> omap_ok ci_less (foldl (\<lambda>m (k, x). omap_set ci_less m k x) m kvs)"
  by (induction kvs arbitrary: m) (auto simp: ci.omap_ok_set)

lemma sound_take_request_value: "sound (snd st) \<Longrightarrow> sound (snd (take_request_value st v))"
proof (cases v)
  case (LTable kvs)
  define h where "h = foldl (\<lambda>m (k, x). omap_set ci_less m k x) [] kvs"
  have "omap_ok ci_less h" unfolding h_def by (rule omap_ok_sets) (simp add: omap_ok_def)
  moreover assume "sound (snd st)"
  ultimately show ?thesis unfolding LTable take_request_value_def lua_value.case Let_def h_def [symmetric]
    by (simp add: sound_def new_string_defs ci.omap_ok_erase)
qed (simp_all add: take_request_value_def)

lemma sound_run_lua:
  assumes "run_lua env script finished r = Inr (Some r')" "sound r"
  shows "sound r'"
proof -
  from run_lua_cases [OF assms(1)] have "r' = r \<or> (\<exists>vs. r' = snd (foldl take_request_value (True, r) vs))"
    by blast
  moreover have "sound (snd (foldl take_request_value (True, r) vs))" for vs
    by (rule foldl_invariant [where P = "\<lambda>st. sound (snd st)"]) (use assms(2) in \<open>simp_all add: sound_take_request_value\<close>)
  ultimately show ?thesis using assms(2) by auto
qed

lemma complete_after_content_length:
  assumes "update_content_length r = Inr r'" "sound r" "cs \<noteq> []" "ca \<noteq> []"
  shows "complete_request (sanitize_request cs ca r')"
proof -
  from assms(1) obtain p where p: "deref (req_payload r) = Inr p"
    and r': "r' = (if p \<noteq> [] then r \<lparr> req_headers_of_individual :=
       omap_set ci_less (req_headers_of_individual r) ''content-length'' (utos (length p)) \<rparr> else r)"
    by (auto simp: update_content_length_def)
  from assms(2) r' have s: "sound r'" by (auto simp: sound_def ci.omap_ok_set)
  from assms(2) r' have "p \<noteq> [] \<Longrightarrow>
      omap_find ci_less (req_headers_of_individual r') ''content-length'' = Some (utos (length p))"
    by (auto simp: sound_def ci.find_set)
  with p r' have "case req_payload r' of Null \<Rightarrow> False | Empty_String \<Rightarrow> True
      | Str p \<Rightarrow> p = [] \<or> omap_find ci_less (req_headers_of_individual r') ''content-length'' = Some (utos (length p))"
    by (auto simp: deref_def split: string_ptr.splits)
  moreover have "is_text q \<longleftrightarrow> \<not> null_or_empty q" for q
    by (cases q) (auto simp: is_text_def null_or_empty_def)
  ultimately show ?thesis using s assms(3,4)
    by (auto simp: complete_request_def sanitize_request_def Let_def new_schema_def new_authority_def sound_def
        is_text_def null_or_empty_def split: string_ptr.splits)
qed

lemma omap_ok_assemble_headers:
  "assemble_headers asm hs m = Inr m' \<Longrightarrow> omap_ok ci_less m \<Longrightarrow> omap_ok ci_less m'"
proof (induction hs arbitrary: m)
  case (Cons h hs)
  obtain n v where h: "h = (n, v)" by (cases h)
  from Cons.prems h obtain a b where "assemble_headers asm hs (omap_insert ci_less m a b) = Inr m'" by auto
  from Cons.IH [OF this] Cons.prems(2) show ?case by (simp add: ci.omap_ok_insert)
qed simp

lemma sound_populate:
  assumes "populate_request_from_config_template ss r i j = Inr r'" "path r \<noteq> Null"
    "omap_ok ci_less (req_headers_of_individual r)"
  shows "sound r'"
  using assms by (auto simp: populate_request_from_config_template_def Let_def sound_def new_payload_def
      dest!: omap_ok_assemble_headers)

lemma complete_finish_next:
  assumes "finish_next env ss cs ca t finished r = Inr (Some r')" "sound r" "cs \<noteq> []" "ca \<noteq> []"
  shows "complete_request r'"
proof -
  from assms(1) obtain r1 r2 r3 r4 where
      u: "follow_uri env ss t finished r = Inr (Some r1)" and c: "add_cookie_header r1 = Inr r2"
    and l: "r3 = r2 \<or> run_lua env (rt_luaScript t) finished r2 = Inr (Some r3)"
    and d: "update_content_length r3 = Inr r4" and s: "r' = sanitize_request cs ca r4"
    by (rule finish_nextE)
  from sound_add_cookie_header [OF c sound_follow_uri [OF u assms(2)]] have "sound r2" .
  with l have "sound r3" using sound_run_lua by auto
  with d assms(3,4) show ?thesis unfolding s by (intro complete_after_content_length)
qed

lemma sound_new_request [simp]:
  "path (request_data_of u) \<noteq> Null" "omap_ok ci_less (req_headers_of_individual (request_data_of u))"
  by (simp_all add: request_data_of_def omap_ok_def)

text \<open>The new request that \<open>next_request\<close> yields.\<close>

lemma next_request_new:
  assumes "next_request env ss cs ca finished = Inr (f, Some r)"
  shows "scenario_index r = scenario_index finished" "curr_request_idx r = Suc (curr_request_idx finished)"
    "Suc (curr_request_idx finished) < length (requests (ss ! scenario_index finished))"
    "map_option user_ids (user_data r) = map_option user_ids (user_data finished)"
    "delay_before_executing_next f = delay_before_executing_next finished"
    "cs \<noteq> [] \<Longrightarrow> ca \<noteq> [] \<Longrightarrow> complete_request r"
    "lua_bounded env n \<Longrightarrow> length (string_collection r) \<le> 6 + n"
proof -
  from assms obtain s u r0 where s: "s = ss ! scenario_index finished"
    and lt: "Suc (curr_request_idx finished) < length (requests s)"
    and u: "map_option user_ids u = map_option user_ids (user_data finished)"
    and f: "f = finished \<lparr> user_data := (if run_requests_in_parallel s then u else None) \<rparr>"
    and p: "populate_request_from_config_template ss ((request_data_of u) \<lparr> scenario_index := scenario_index finished,
       curr_request_idx := Suc (curr_request_idx finished) \<rparr>) (scenario_index finished)
       (Suc (curr_request_idx finished)) = Inr r0"
    and q: "finish_next env ss cs ca (requests s ! Suc (curr_request_idx finished)) f r0 = Inr (Some r)"
    by (rule next_requestE) blast+
  note kp = populate_keeps [OF p] and kq = finish_next_keeps [OF q]
  show "scenario_index r = scenario_index finished" "curr_request_idx r = Suc (curr_request_idx finished)"
    "map_option user_ids (user_data r) = map_option user_ids (user_data finished)"
    using kp(1,2,3) kq(1) u by (simp_all add: same_place_def request_data_of_def)
  show "Suc (curr_request_idx finished) < length (requests (ss ! scenario_index finished))" using lt s by simp
  show "delay_before_executing_next f = delay_before_executing_next finished" using f by simp
  have "sound r0" by (rule sound_populate [OF p]) simp_all
  with q show "cs \<noteq> [] \<Longrightarrow> ca \<noteq> [] \<Longrightarrow> complete_request r" by (rule complete_finish_next)
  show "lua_bounded env n \<Longrightarrow> length (string_collection r) \<le> 6 + n"
    using kp(4) kq(2) [of n] by (simp add: request_data_of_def)
qed

lemma build_next_finished:
  assumes "build_next env ss cs ca s i f1 = Inr (f, n)" "run_requests_in_parallel s"
  shows "same_but_user f1 f"
proof -
  from assms obtain f2 where "(if \<not> clear_old_cookies (requests s ! i) then save_cookies_of_response f1 else Inr f1) = Inr f2"
    and "f = f2" unfolding build_next_def Let_def by (elim andthen_InrE) simp
  then show ?thesis using save_cookies_keeps by (auto split: if_splits)
qed

lemma next_request_finished:
  assumes "next_request env ss cs ca finished = Inr (f, n)" "run_requests_in_parallel (ss ! scenario_index finished)"
  shows "same_but_user finished f"
proof -
  from assms(1) obtain f1 where r: "run_post_response_action env ss finished = Inr f1"
    and rest: "f = f1 \<or> build_next env ss cs ca (ss ! scenario_index f1)
        ((curr_request_idx f1 + 1) mod length (requests (ss ! scenario_index f1))) f1 = Inr (f, n)"
    unfolding next_request_def by (auto simp: Let_def split: if_splits)
  from r have f1: "same_but_user finished f1"
    by (auto simp: run_post_response_action_def dest: pick_values_keep)
  from rest have "same_but_user f1 f"
    using build_next_finished assms(2) same_but_user_fields(1) [OF f1] by auto
  with f1 show ?thesis by (rule same_but_user_trans)
qed

section \<open>The queue\<close>

definition source_ok :: "request_source \<Rightarrow> bool" where
  "source_ok src \<longleftrightarrow> list_all complete_request (requests_to_submit src) \<and>
     list_all (complete_request \<circ> snd) (delayed_requests_to_submit src)"

lemma source_ok_enqueue: "source_ok src \<Longrightarrow> complete_request r \<Longrightarrow> source_ok (enqueue_request now f r src)"
  by (auto simp: source_ok_def enqueue_request_def list_all_iff)

lemma prepare_next_requestE:
  assumes "prepare_next_request env now ss cs ca finished src = Inr (b, f, src')"
  obtains "\<not> b" "src' = src" "next_request env ss cs ca finished = Inr (f, None)"
  | r where "b" "next_request env ss cs ca finished = Inr (f, Some r)" "src' = enqueue_request now f r src"
  using assms that by (auto simp: prepare_next_request_def split: option.splits)

lemma source_ok_prepare_next:
  assumes "prepare_next_request env now ss cs ca finished src = Inr (b, f, src')" "source_ok src" "cs \<noteq> []" "ca \<noteq> []"
  shows "source_ok src'"
  using assms(1)
proof (cases rule: prepare_next_requestE)
  case (2 r)
  from next_request_new(6) [OF 2(2) assms(3,4)] assms(2) show ?thesis unfolding 2(3) by (intro source_ok_enqueue)
qed (use assms(2) in simp)

lemma source_ok_prepare_parallel:
  "prepare_parallel env now ss cs ca n r src = Inr (r', src') \<Longrightarrow> source_ok src \<Longrightarrow> cs \<noteq> [] \<Longrightarrow> ca \<noteq> [] \<Longrightarrow> source_ok src'"
proof (induction n arbitrary: r src)
  case (Suc n)
  then obtain b r1 src1 where p: "prepare_next_request env now ss cs ca r src = Inr (b, r1, src1)"
    and q: "prepare_parallel env now ss cs ca n r1 src1 = Inr (r', src')" by auto
  from source_ok_prepare_next [OF p] Suc.prems have "source_ok src1" by blast
  with Suc.IH [OF q] Suc.prems show ?case by blast
qed simp

text \<open>The requests put into the queue while a parallel scenario starts.\<close>

lemma prepare_parallel_queue:
  "prepare_parallel env now ss cs ca n r src = Inr (r', src') \<Longrightarrow>
   run_requests_in_parallel (ss ! scenario_index r) \<Longrightarrow>
   same_but_user r r' \<and> scenario_data_per_connection src' = scenario_data_per_connection src \<and>
   (delay_before_executing_next r = 0 \<longrightarrow>
     (\<exists>new. requests_to_submit src' = requests_to_submit src @ new \<and> length new \<le> n \<and>
        list_all (\<lambda>x. curr_request_idx x = Suc (curr_request_idx r)) new))"
proof (induction n arbitrary: r src)
  case (Suc n)
  then obtain b r1 src1 where p: "prepare_next_request env now ss cs ca r src = Inr (b, r1, src1)"
    and q: "prepare_parallel env now ss cs ca n r1 src1 = Inr (r', src')" by auto
  from p obtain o1 where nr: "next_request env ss cs ca r = Inr (r1, o1)"
    by (rule prepare_next_requestE) auto
  from next_request_finished [OF nr Suc.prems(2)] have s1: "same_but_user r r1" .
  note fields = same_but_user_fields [OF s1]
  from Suc.IH [OF q] Suc.prems(2) fields(1) have ih: "same_but_user r1 r'"
    "scenario_data_per_connection src' = scenario_data_per_connection src1"
    "delay_before_executing_next r1 = 0 \<Longrightarrow> \<exists>new. requests_to_submit src' = requests_to_submit src1 @ new \<and>
       length new \<le> n \<and> list_all (\<lambda>x. curr_request_idx x = Suc (curr_request_idx r1)) new" by auto
  have step: "scenario_data_per_connection src1 = scenario_data_per_connection src \<and>
    (delay_before_executing_next r = 0 \<longrightarrow> (\<exists>new. requests_to_submit src1 = requests_to_submit src @ new \<and>
       length new \<le> 1 \<and> list_all (\<lambda>x. curr_request_idx x = Suc (curr_request_idx r)) new))"
    using p
  proof (cases rule: prepare_next_requestE)
    case (2 x)
    from next_request_new(2) [OF 2(2)] fields(3) show ?thesis
      unfolding 2(3) enqueue_request_def by (auto intro!: exI [of _ "[x]"])
  qed auto
  show ?case
  proof (intro conjI impI)
    from s1 ih(1) show "same_but_user r r'" by (rule same_but_user_trans)
    from ih(2) step show "scenario_data_per_connection src' = scenario_data_per_connection src" by simp
    assume d: "delay_before_executing_next r = 0"
    from step d obtain new1 where a: "requests_to_submit src1 = requests_to_submit src @ new1"
      "length new1 \<le> 1" "list_all (\<lambda>x. curr_request_idx x = Suc (curr_request_idx r)) new1" by blast
    from ih(3) d fields obtain new2 where b: "requests_to_submit src' = requests_to_submit src1 @ new2"
      "length new2 \<le> n" "list_all (\<lambda>x. curr_request_idx x = Suc (curr_request_idx r)) new2" by auto
    from a b show "\<exists>new. requests_to_submit src' = requests_to_submit src @ new \<and> length new \<le> Suc n \<and>
        list_all (\<lambda>x. curr_request_idx x = Suc (curr_request_idx r)) new"
      by (intro exI [of _ "new1 @ new2"]) simp
  qed
qed simp

section \<open>The first request\<close>

lemma build_firstE:
  assumes "build_first env ss cs ca s i d = Inr r"
  obtains r1 t r2 r3 r4 where
    "populate_request_from_config_template ss ((request_data_of (Some (scenario_data_per_user_of (get_curr_vars d))))
       \<lparr> scenario_index := i, curr_request_idx := 0 \<rparr>) i 0 = Inr r1"
    "requests s \<noteq> []" "t = requests s ! 0" "first_uri env ss t r1 = Inr r2"
    "r3 = r2 \<or> (\<exists>f. run_lua env (rt_luaScript t) f r2 = Inr (Some r3))"
    "update_content_length r3 = Inr r4" "r = sanitize_request cs ca r4"
proof -
  define new where "new = (request_data_of (Some (scenario_data_per_user_of (get_curr_vars d))))
    \<lparr> scenario_index := i, curr_request_idx := 0 \<rparr>"
  define dummy where "dummy = request_data_of (Some (scenario_data_per_user_of []))"
  from assms obtain r1 r2 r3 r4 where a: "populate_request_from_config_template ss new i 0 = Inr r1"
    and b: "requests s \<noteq> []" "first_uri env ss (requests s ! 0) r1 = Inr r2"
    and c: "(if make_request_function_present (requests s ! 0)
       then andthen (run_lua env (rt_luaScript (requests s ! 0)) dummy r2)
          (\<lambda>o3. case o3 of None \<Rightarrow> Inl Exit_Failure | Some r3 \<Rightarrow> Inr r3) else Inr r2) = Inr r3"
    and d: "update_content_length r3 = Inr r4" "r = sanitize_request cs ca r4"
    unfolding build_first_def Let_def new_def [symmetric] dummy_def [symmetric]
    by (elim andthen_InrE, simp only: vec_at_Inr sum.inject length_greater_0_conv, blast)
  from c have c: "r3 = r2 \<or> (\<exists>f. run_lua env (rt_luaScript (requests s ! 0)) f r2 = Inr (Some r3))"
    by (auto split: if_splits option.splits)
  show thesis by (rule that [OF a [unfolded new_def] b(1) refl b(2) c d])
qed

lemma first_uri_keeps:
  assumes "first_uri env ss t r = Inr r'"
  shows "same_place r r'" "length (string_collection r') \<le> length (string_collection r) + 3" "sound r \<Longrightarrow> sound r'"
proof -
  from assms have "(\<exists>p. r' = new_path p r) \<or> (\<exists>uri b. parse_uri_and_poupate_request env uri r = (b, r'))"
    by (auto simp: first_uri_def split: if_splits prod.splits bool.splits)
  then show "same_place r r'" "length (string_collection r') \<le> length (string_collection r) + 3" "sound r \<Longrightarrow> sound r'"
    using parse_uri_keeps sound_parse_uri by auto
qed

lemma build_first_new:
  assumes "build_first env ss cs ca s i d = Inr r"
  shows "scenario_index r = i" "curr_request_idx r = 0"
    "user_data r = Some (scenario_data_per_user_of (get_curr_vars d))"
    "cs \<noteq> [] \<Longrightarrow> ca \<noteq> [] \<Longrightarrow> complete_request r"
    "lua_bounded env n \<Longrightarrow> length (string_collection r) \<le> 6 + n"
    "\<exists>t. template_at ss i 0 = Inr t \<and> delay_before_executing_next r = rt_delay_before_executing_next t"
proof -
  from assms obtain r1 t r2 r3 r4 where
      p: "populate_request_from_config_template ss ((request_data_of (Some (scenario_data_per_user_of (get_curr_vars d))))
       \<lparr> scenario_index := i, curr_request_idx := 0 \<rparr>) i 0 = Inr r1"
    and u: "first_uri env ss t r1 = Inr r2"
    and l: "r3 = r2 \<or> (\<exists>f. run_lua env (rt_luaScript t) f r2 = Inr (Some r3))"
    and c: "update_content_length r3 = Inr r4" and r: "r = sanitize_request cs ca r4"
    by (rule build_firstE)
  note kp = populate_keeps [OF p] and ku = first_uri_keeps [OF u] and kc = update_content_length_keeps [OF c]
    and ks = sanitize_request_keeps [where r = r4 and cs = cs and ca = ca]
  have l3: "same_place r2 r3" "lua_bounded env n \<Longrightarrow> length (string_collection r3) \<le> length (string_collection r2) + n"
    using l run_lua_keeps by auto
  from kp(1-3) ku(1) l3(1) kc(1) ks(1) show "scenario_index r = i" "curr_request_idx r = 0"
    "user_data r = Some (scenario_data_per_user_of (get_curr_vars d))"
    by (simp_all add: r same_place_def request_data_of_def)
  from kp(6) ku(1) l3(1) kc(1) ks(1)
  show "\<exists>t. template_at ss i 0 = Inr t \<and> delay_before_executing_next r = rt_delay_before_executing_next t"
    by (simp add: r same_place_def)
  have "sound r1" by (rule sound_populate [OF p]) simp_all
  then have "sound r2" by (rule ku(3))
  with l have "sound r3" using sound_run_lua by auto
  then show "cs \<noteq> [] \<Longrightarrow> ca \<noteq> [] \<Longrightarrow> complete_request r"
    unfolding r by (rule complete_after_content_length [OF c])
  show "lua_bounded env n \<Longrightarrow> length (string_collection r) \<le> 6 + n"
    using kp(4) ku(2) l3(2) kc(2) ks(2) by (simp add: r request_data_of_def)
qed

lemma first_request_ofE:
  assumes "first_request_of env now ss cs ca i src = Inr (r, src')"
  obtains s d d' r0 where "i < length ss" "s = ss ! i" "i < length (scenario_data_per_connection src)"
    "d = scenario_data_per_connection src ! i" "inc_var d = Inr d'" "build_first env ss cs ca s i d = Inr r0"
    "(if run_requests_in_parallel s then prepare_parallel env now ss cs ca (length (requests s) - 1) r0
        (src \<lparr> scenario_data_per_connection := (scenario_data_per_connection src)[i := d'] \<rparr>)
      else Inr (r0, src \<lparr> scenario_data_per_connection := (scenario_data_per_connection src)[i := d'] \<rparr>)) = Inr (r, src')"
  using assms that unfolding first_request_of_def Let_def by (elim andthen_InrE) (simp only: vec_at_Inr)

lemma first_request_cases:
  assumes "first_request_of env now ss cs ca i src = Inr (r, src')"
  obtains (sequential) d d' where "\<not> run_requests_in_parallel (ss ! i)"
    "build_first env ss cs ca (ss ! i) i d = Inr r"
    "src' = src \<lparr> scenario_data_per_connection := (scenario_data_per_connection src)[i := d'] \<rparr>"
  | (parallel) d d' r0 where "run_requests_in_parallel (ss ! i)" "build_first env ss cs ca (ss ! i) i d = Inr r0"
    "prepare_parallel env now ss cs ca (length (requests (ss ! i)) - 1) r0
      (src \<lparr> scenario_data_per_connection := (scenario_data_per_connection src)[i := d'] \<rparr>) = Inr (r, src')"
    "same_but_user r0 r"
proof -
  from assms obtain s d d' r0 where s: "s = ss ! i" and r0: "build_first env ss cs ca s i d = Inr r0"
    and q: "(if run_requests_in_parallel s then prepare_parallel env now ss cs ca (length (requests s) - 1) r0
        (src \<lparr> scenario_data_per_connection := (scenario_data_per_connection src)[i := d'] \<rparr>)
      else Inr (r0, src \<lparr> scenario_data_per_connection := (scenario_data_per_connection src)[i := d'] \<rparr>)) = Inr (r, src')"
    by (rule first_request_ofE)
  show thesis
  proof (cases "run_requests_in_parallel s")
    case True
    with q have p: "prepare_parallel env now ss cs ca (length (requests s) - 1) r0
        (src \<lparr> scenario_data_per_connection := (scenario_data_per_connection src)[i := d'] \<rparr>) = Inr (r, src')" by simp
    from prepare_parallel_queue [OF p] True s build_first_new(1) [OF r0] have "same_but_user r0 r" by simp
    with parallel True p r0 s show thesis by blast
  next
    case False
    with q have "r0 = r" "src' = src \<lparr> scenario_data_per_connection := (scenario_data_per_connection src)[i := d'] \<rparr>"
      by simp_all
    with sequential False r0 s show thesis by blast
  qed
qed

lemma source_ok_cursors [simp]: "source_ok (src \<lparr> scenario_data_per_connection := x \<rparr>) = source_ok src"
  by (simp add: source_ok_def)

lemma complete_first_request:
  assumes "first_request_of env now ss cs ca i src = Inr (r, src')" "cs \<noteq> []" "ca \<noteq> []"
  shows "complete_request r"
  using assms(1)
proof (cases rule: first_request_cases)
  case (sequential d d')
  from build_first_new(4) [OF sequential(2) assms(2,3)] show ?thesis .
next
  case (parallel d d' r0)
  from build_first_new(4) [OF parallel(2) assms(2,3)] parallel(4) show ?thesis
    by (simp add: complete_same_but_user)
qed

lemma source_ok_first_request:
  assumes "first_request_of env now ss cs ca i src = Inr (r, src')" "source_ok src" "cs \<noteq> []" "ca \<noteq> []"
  shows "source_ok src'"
  using assms(1)
proof (cases rule: first_request_cases)
  case (parallel d d' r0)
  from source_ok_prepare_parallel [OF parallel(3) _ assms(3,4)] assms(2) show ?thesis by simp
qed (use assms(2) in simp)

section \<open>Properties\<close>

text \<open>Example: a scenario of three requests, prepared as the program does it, and a user with id 7.\<close>

definition example_request_env :: request_env where
  "example_request_env = \<lparr> pointer_get = \<lambda>_ _. None, write_json = \<lambda>_. [], double_str = \<lambda>_. [], parse_json = \<lambda>_. JNull,
     regex_match = \<lambda>_ _. False, picker_search = \<lambda>_ _. None, url_parser = \<lambda>u. Some \<lparr> u_schema = None, u_host = None, u_port = None,
       u_path = Some u, u_query = None \<rparr>,
     make_request = \<lambda>_ _ _ _ _. No_Function \<rparr>"

definition example_scenarios :: "bool \<Rightarrow> scenario list" where
  "example_scenarios parallel =
    (case process_scenario example_config_env (example_scenario \<lparr> requests := replicate 3 example_request,
        run_requests_in_parallel := parallel \<rparr>) of
       Inr s \<Rightarrow> [s]
     | Inl _ \<Rightarrow> [])"

definition example_source :: request_source where
  "example_source = \<lparr> requests_to_submit = [], delayed_requests_to_submit = [],
     scenario_data_per_connection = [\<lparr> req_variable_values_start = [0], req_variable_values_end = [10],
       curr_req_variable_values = [7] \<rparr>] \<rparr>"

definition example_first :: "bool \<Rightarrow> (request_data \<times> request_source) result" where
  "example_first parallel =
     first_request_of example_request_env 0 (example_scenarios parallel) ''http'' ''host:80'' 0 example_source"



text \<open>C36: every request that waits in the queues of a client names a scheme and an authority, has a
  body whose size is its \<^verbatim>\<open>content-length\<close>, and holds no null pointer; the functions that fill the
  queues keep it so.\<close>

theorem queued_requests_complete:
  assumes "source_ok src" "cs \<noteq> []" "ca \<noteq> []"
  shows "(prepare_next_request env now ss cs ca finished src = Inr (b, f, src') \<longrightarrow> source_ok src') \<and>
    (prepare_first_request env distr now ss seq cs ca sched src = Inr (r, sched', src'') \<longrightarrow>
       complete_request r \<and> source_ok src'') \<and>
    source_ok (resume_delayed_request_execution now src)"
proof (intro conjI impI)
  show "source_ok src'" if "prepare_next_request env now ss cs ca finished src = Inr (b, f, src')"
    using that assms by (rule source_ok_prepare_next)
  show "complete_request r" "source_ok src''"
    if "prepare_first_request env distr now ss seq cs ca sched src = Inr (r, sched', src'')"
    using that assms complete_first_request source_ok_first_request
    by (auto simp: prepare_first_request_def)
  show "source_ok (resume_delayed_request_execution now src)"
    using assms(1) by (auto simp: source_ok_def resume_delayed_request_execution_def Let_def list_all_iff
        dest: set_takeWhileD in_set_dropD)
qed

theorem queued_requests_complete_witness:
  "\<exists>r src'. example_first False = Inr (r, src') \<and>
     source_ok (resume_delayed_request_execution 0 src') \<and> complete_request r"
proof -
  have ok: "source_ok example_source" by code_simp
  have "(case prepare_first_request example_request_env (\<lambda>_ _. 0) 0 (example_scenarios False) 0 ''http'' ''host:80'' None example_source of
      Inl _ \<Rightarrow> False | Inr (r, sched, src') \<Rightarrow> example_first False = Inr (r, src'))"
    by code_simp
  then obtain r sched src' where
      p: "prepare_first_request example_request_env (\<lambda>_ _. 0) 0 (example_scenarios False) 0 ''http'' ''host:80'' None example_source
        = Inr (r, sched, src')" and e: "example_first False = Inr (r, src')"
    by (auto simp: case_result_iff)
  from queued_requests_complete [OF ok, where cs = "''http''" and ca = "''host:80''" and env = example_request_env
      and distr = "\<lambda>_ _. 0" and now = 0 and ss = "example_scenarios False" and seq = 0 and sched = None
      and r = r and sched' = sched and src'' = src'] p
  have c: "complete_request r" "source_ok src'" by simp_all
  from queued_requests_complete [OF c(2), where cs = "''http''" and ca = "''host:80''" and env = example_request_env and now = 0]
  have "source_ok (resume_delayed_request_execution 0 src')" by simp
  with c e show ?thesis by blast
qed



text \<open>C38: a scenario whose requests are to run in parallel queues its second request again and again:
  the loop of \<^verbatim>\<open>prepare_first_request\<close> passes the same first request to \<^verbatim>\<open>prepare_next_request\<close> each time,
  so the third and later requests of such a scenario are never sent.\<close>

theorem parallel_repeats_second_request:
  assumes "first_request_of env now ss cs ca i src = Inr (r, src')" "run_requests_in_parallel (ss ! i)"
    "rt_delay_before_executing_next (requests (ss ! i) ! 0) = 0"
  shows "\<exists>new. requests_to_submit src' = requests_to_submit src @ new \<and> length new \<le> length (requests (ss ! i)) - 1 \<and>
    list_all (\<lambda>x. curr_request_idx x = 1) new"
  using assms(1)
proof (cases rule: first_request_cases)
  case (parallel d d' r0)
  from build_first_new(6) [OF parallel(2)] assms(3) have "delay_before_executing_next r0 = 0"
    by (auto simp: template_at_def)
  with prepare_parallel_queue [OF parallel(3)] parallel(1) build_first_new(1,2) [OF parallel(2)]
  show ?thesis by simp
qed (use assms(2) in simp)

theorem parallel_repeats_second_request_witness:
  "\<exists>r src'. example_first True = Inr (r, src') \<and> length (requests_to_submit src') = 2 \<and>
     list_all (\<lambda>x. curr_request_idx x = 1) (requests_to_submit src')"
proof -
  have s: "(case example_first True of Inl _ \<Rightarrow> False | Inr (r, src') \<Rightarrow> length (requests_to_submit src') = 2)"
    by code_simp
  then obtain r src' where e: "example_first True = Inr (r, src')" "length (requests_to_submit src') = 2"
    by (auto simp: case_result_iff)
  have "run_requests_in_parallel (example_scenarios True ! 0)"
    "rt_delay_before_executing_next (requests (example_scenarios True ! 0) ! 0) = 0" by code_simp+
  from parallel_repeats_second_request [OF e(1) [unfolded example_first_def] this]
  have "list_all (\<lambda>x. curr_request_idx x = 1) (requests_to_submit src')"
    by (auto simp: example_source_def)
  with e show ?thesis by blast
qed

end
