(* ===== verification/Stats.thy ===== *)
theory Stats
  imports Prelude
begin

text \<open>
  The statistics of a worker (\<^verbatim>\<open>src/h2load_stats.h\<close>, the constructors in \<^verbatim>\<open>src/h2load.cc\<close>), the phases
  of a test (\<^verbatim>\<open>src/h2load.h\<close>), and the sampling of response times (\<^verbatim>\<open>src/base_worker.cc\<close>). Counters
  are natural numbers, time points natural numbers with 0 for a time point that was never recorded.
  The lemmas show that the counters always agree with each other and that a sample never exceeds
  its limit and holds only values that were seen.
\<close>

section \<open>Phases\<close>

datatype phase = INITIAL_IDLE | WARM_UP | MAIN_DURATION | MAIN_DURATION_GRACEFUL_SHUTDOWN | DURATION_OVER

definition phase_number :: "phase \<Rightarrow> nat" where
  "phase_number p = (case p of INITIAL_IDLE \<Rightarrow> 0 | WARM_UP \<Rightarrow> 1 | MAIN_DURATION \<Rightarrow> 2
     | MAIN_DURATION_GRACEFUL_SHUTDOWN \<Rightarrow> 3 | DURATION_OVER \<Rightarrow> 4)"

lemma phase_number_inject [simp]: "phase_number p = phase_number q \<longleftrightarrow> p = q"
  by (cases p; cases q) (simp_all add: phase_number_def)

instantiation phase :: linorder
begin

definition less_eq_phase :: "phase \<Rightarrow> phase \<Rightarrow> bool" where
  "p \<le> q \<longleftrightarrow> phase_number p \<le> phase_number q"

definition less_phase :: "phase \<Rightarrow> phase \<Rightarrow> bool" where
  "p < q \<longleftrightarrow> phase_number p < phase_number q"

instance
  by standard (auto simp: less_eq_phase_def less_phase_def dual_order.antisym)

end

section \<open>Statistics\<close>

text \<open>\<open>data_offset\<close> and \<open>completed\<close> are not initialised by the constructor.\<close>

record request_stat =
  request_time :: nat
  request_wall_time :: nat
  stream_close_time :: nat
  data_offset :: int
  rs_status :: nat
  completed :: bool
  rs_scenario_index :: nat
  rs_request_index :: nat

record client_stat =
  client_start_time :: nat
  client_end_time :: nat
  cs_req_success :: nat
  connect_start_time :: nat
  connect_time :: nat
  ttfb :: nat

definition client_stat_init :: client_stat where
  "client_stat_init = \<lparr> client_start_time = 0, client_end_time = 0, cs_req_success = 0,
     connect_start_time = 0, connect_time = 0, ttfb = 0 \<rparr>"

record stats =
  req_todo :: nat
  req_started :: nat
  req_done :: nat
  req_success :: nat
  req_status_success :: nat
  req_failed :: nat
  req_error :: nat
  req_timedout :: nat
  bytes_total :: int
  bytes_head :: int
  bytes_head_decomp :: int
  bytes_body :: int
  status_count :: "nat list"
  req_stats :: "request_stat list"
  client_stats :: "client_stat list"

definition stats_of :: "nat \<Rightarrow> stats" where
  "stats_of todo = \<lparr> req_todo = todo, req_started = 0, req_done = 0, req_success = 0, req_status_success = 0,
     req_failed = 0, req_error = 0, req_timedout = 0, bytes_total = 0, bytes_head = 0,
     bytes_head_decomp = 0, bytes_body = 0, status_count = replicate 6 0, req_stats = [], client_stats = [] \<rparr>"

text \<open>A stream; \<open>status_success\<close> is -1 until the response has been judged.\<close>

record stream =
  req_stat :: request_stat
  status_success :: int
  statistics_eligible :: bool

text \<open>\<open>offset\<close> and \<open>compl\<close> stand for the values the uninitialised members happen to have.\<close>

definition stream_of :: "int \<Rightarrow> bool \<Rightarrow> nat \<Rightarrow> nat \<Rightarrow> bool \<Rightarrow> stream" where
  "stream_of offset compl scenario_id request_id stats_eligible =
     \<lparr> req_stat = \<lparr> request_time = 0, request_wall_time = 0, stream_close_time = 0, data_offset = offset,
         rs_status = 0x1FFF, completed = compl, rs_scenario_index = scenario_id, rs_request_index = request_id \<rparr>,
       status_success = -1, statistics_eligible = stats_eligible \<rparr>"

section \<open>Counting\<close>

text \<open>\<^verbatim>\<open>++stats.status[status / 100]\<close> under its guard.\<close>

definition count_status :: "nat \<Rightarrow> stats \<Rightarrow> stats" where
  "count_status status s =
    (if status < 600 then s \<lparr> status_count := (status_count s)[status div 100 := status_count s ! (status div 100) + 1] \<rparr>
     else s)"

text \<open>What a closed stream adds to the counters of a worker.\<close>

definition count_close :: "bool \<Rightarrow> bool \<Rightarrow> stats \<Rightarrow> stats" where
  "count_close success status_ok s =
    (let s1 = (if success then
                 (if status_ok then s \<lparr> req_success := req_success s + 1, req_status_success := req_status_success s + 1 \<rparr>
                  else s \<lparr> req_success := req_success s + 1, req_failed := req_failed s + 1 \<rparr>)
               else s \<lparr> req_failed := req_failed s + 1, req_error := req_error s + 1 \<rparr>)
     in s1 \<lparr> req_done := req_done s1 + 1 \<rparr>)"

definition count_started :: "stats \<Rightarrow> stats" where
  "count_started s = s \<lparr> req_started := req_started s + 1 \<rparr>"

text \<open>Requests given up without a stream having been closed.\<close>

definition count_abandoned :: "nat \<Rightarrow> stats \<Rightarrow> stats" where
  "count_abandoned n s = s \<lparr> req_failed := req_failed s + n, req_error := req_error s + n \<rparr>"

section \<open>Sampling\<close>

record sampling =
  max_samples :: nat
  smp_n :: nat

definition sampling_init :: "nat \<Rightarrow> sampling" where
  "sampling_init m = \<lparr> max_samples = m, smp_n = 0 \<rparr>"

text \<open>\<open>draw m\<close> is the number drawn from 0 to \<open>m\<close>.\<close>

definition sample :: "(nat \<Rightarrow> nat) \<Rightarrow> sampling \<Rightarrow> 'a list \<Rightarrow> 'a \<Rightarrow> sampling \<times> 'a list" where
  "sample draw smp xs s =
    (let smp' = smp \<lparr> smp_n := smp_n smp + 1 \<rparr> in
     if length xs < max_samples smp' then (smp', xs @ [s])
     else let i = draw (smp_n smp' - 1) in
       (smp', if i < max_samples smp' then xs[i := s] else xs))"

section \<open>The counters agree\<close>

text \<open>A request counted as answered is also judged by its status, so the two ways of splitting the
  requests into good and bad ones have the same total; closed streams are among them.\<close>

definition stats_ok :: "stats \<Rightarrow> bool" where
  "stats_ok s \<longleftrightarrow> req_status_success s + req_failed s = req_success s + req_error s \<and>
     req_status_success s \<le> req_success s \<and> req_error s \<le> req_failed s \<and>
     req_success s \<le> req_done s \<and> req_done s \<le> req_success s + req_error s \<and> length (status_count s) = 6"

named_theorems count_defs \<open>definitions of the counting functions\<close>

lemmas [count_defs] = count_status_def count_close_def count_started_def count_abandoned_def

lemma stats_ok_init [simp]: "stats_ok (stats_of n)"
  by (simp add: stats_ok_def stats_of_def)

lemma stats_ok_count [simp]:
  "stats_ok s \<Longrightarrow> stats_ok (count_status c s)"
  "stats_ok s \<Longrightarrow> stats_ok (count_close success status_ok s)"
  "stats_ok s \<Longrightarrow> stats_ok (count_started s)"
  "stats_ok s \<Longrightarrow> stats_ok (count_abandoned n s)"
  by (auto simp: count_defs stats_ok_def Let_def)

text \<open>The requests that have come to an end, one way or the other.\<close>

definition settled :: "stats \<Rightarrow> nat" where
  "settled s = req_success s + req_error s"

lemma settled_count [simp]:
  "settled (count_status c s) = settled s"
  "settled (count_close success status_ok s) = settled s + 1"
  "settled (count_started s) = settled s"
  "settled (count_abandoned n s) = settled s + n"
  by (auto simp: count_defs settled_def Let_def)

section \<open>Samples\<close>

text \<open>Sampling a whole sequence; the k-th draw is made by \<open>draws k\<close>.\<close>

fun sample_all :: "(nat \<Rightarrow> nat \<Rightarrow> nat) \<Rightarrow> sampling \<times> 'a list \<Rightarrow> 'a list \<Rightarrow> sampling \<times> 'a list" where
  "sample_all draws st [] = st"
| "sample_all draws st (s # ss) = sample_all (\<lambda>k. draws (Suc k)) (sample (draws 0) (fst st) (snd st) s) ss"

lemma sample_keeps:
  assumes "sample draw smp xs s = (smp', xs')"
  shows "max_samples smp' = max_samples smp" "smp_n smp' = smp_n smp + 1"
    "length xs \<le> max_samples smp \<Longrightarrow> length xs' = min (length xs + 1) (max_samples smp)"
    "set xs' \<subseteq> insert s (set xs)"
  using assms set_update_subset_insert [of xs _ s]
  by (auto simp: sample_def Let_def split: if_splits)

lemma sample_all_spec:
  "sample_all draws (smp, xs) ss = (smp', xs') \<Longrightarrow> length xs \<le> max_samples smp \<Longrightarrow>
     max_samples smp' = max_samples smp \<and> smp_n smp' = smp_n smp + length ss \<and>
     length xs' = min (length xs + length ss) (max_samples smp) \<and> set xs' \<subseteq> set xs \<union> set ss"
proof (induction ss arbitrary: draws smp xs)
  case (Cons s ss)
  obtain smp1 xs1 where e: "sample (draws 0) smp xs s = (smp1, xs1)" by fastforce
  note k = sample_keeps [OF e]
  from Cons.prems e have r: "sample_all (\<lambda>k. draws (Suc k)) (smp1, xs1) ss = (smp', xs')" by simp
  from k(1,3) Cons.prems(2) have "length xs1 \<le> max_samples smp1" by simp
  from Cons.IH [OF r this] k Cons.prems(2) show ?case by (auto simp: min_def split: if_splits)
qed auto


end
