(* ===== verification/Client_State.thy ===== *)
theory Client_State
  imports Stats Requests
begin

text \<open>
  The state of the load generator's clients and of their worker: the members of
  \<^verbatim>\<open>base_client\<close> (\<^verbatim>\<open>src/base_client.h\<close>), \<^verbatim>\<open>asio_client_connection\<close>
  (\<^verbatim>\<open>src/asio_client_connection.h\<close>) and \<^verbatim>\<open>base_worker\<close> (\<^verbatim>\<open>src/base_worker.h\<close>), the options
  they read (\<^verbatim>\<open>src/h2load_Config.h\<close>), and the operations that only touch this state: opening and
  closing connections, timers, signals to the event loop.

  A client is known by a number, so that several clients can refer to each other as the pointers
  of the code do; the world is the worker, its clients and the tasks posted to the event loop.
  What comes from outside (the clock, the random numbers, nghttp2, the URL parser, the Lua scripts) is
  given by a function from the number of the call to a \<open>client_env\<close>. Options of type \<^verbatim>\<open>double\<close> that
  the code only compares with zero are represented by that comparison. Printing, logging, the
  callbacks of the Lua interface and TLS are not modelled; sessions are HTTP/2 sessions.
\<close>

section \<open>Records\<close>

record load_config =
  scheme_opt :: string
  host_opt :: string
  connect_to_host_opt :: string
  port_opt :: nat
  base_uri_unix :: bool
  scenarios_of :: "scenario list"
  config_update_sequence_number :: nat
  rate_opt :: nat
  duration_positive :: bool
  rps_positive :: bool
  timing_script :: bool
  timing_due :: "nat \<Rightarrow> bool"       \<comment> \<open>\<^verbatim>\<open>timings[i] < 1e-9\<close>\<close>
  max_concurrent_streams_opt :: nat
  conn_active_timeout_positive :: bool
  conn_inactivity_timeout_positive :: bool
  ping_interval_positive :: bool
  open_new_connection_based_on_authority_header :: bool
  connection_retry_on_disconnect :: bool
  connect_back_to_preferred_host :: bool
  load_share_hosts_opt :: "(string \<times> nat) list"
  stream_timeout_opt :: nat
  nva_size :: nat
  nclients_opt :: nat

definition is_rate_mode :: "load_config \<Rightarrow> bool" where
  "is_rate_mode c \<longleftrightarrow> rate_opt c \<noteq> 0"

definition is_timing_based_mode :: "load_config \<Rightarrow> bool" where
  "is_timing_based_mode c \<longleftrightarrow> duration_positive c"

definition is_null_destination :: "load_config \<Rightarrow> bool" where
  "is_null_destination c \<longleftrightarrow> \<not> base_uri_unix c \<and> connect_to_host_opt c = [] \<and> host_opt c = []"

text \<open>What a call to the outside yields. \<open>lua_verdict\<close> is the outcome of \<^verbatim>\<open>validate_response\<close>, its
  results from the top of the stack, \<open>None\<close> for a result that is no boolean.\<close>

datatype lua_verdict = No_Validator | Validator_Error | Validator_Results "bool option list"

record client_env = request_env +
  now :: nat
  distr :: "int \<Rightarrow> int \<Rightarrow> int"
  request_allowed :: bool            \<comment> \<open>\<^verbatim>\<open>nghttp2_session_check_request_allowed\<close>\<close>
  new_stream_id :: int               \<comment> \<open>\<^verbatim>\<open>nghttp2_submit_request\<close>\<close>
  near_exhaustion :: "int \<Rightarrow> bool"   \<comment> \<open>the test on rate and random number in \<^verbatim>\<open>_submit_request\<close>\<close>
  sample_draw :: "nat \<Rightarrow> nat"
  junk_offset :: int
  junk_completed :: bool
  json_parse_error :: "string \<Rightarrow> bool"
  validate_response :: "string \<Rightarrow> (string \<times> string) list \<Rightarrow> string \<Rightarrow> lua_verdict"
  authority_parser :: "string \<Rightarrow> parsed_url option"  \<comment> \<open>\<^verbatim>\<open>http_parser_parse_url\<close> for CONNECT\<close>
  is_ipv6 :: "string \<Rightarrow> bool"
  http2_negotiated :: bool           \<comment> \<open>\<^verbatim>\<open>select_protocol_and_allocate_session\<close> yields an HTTP/2 session\<close>
  shuffle :: "string list \<Rightarrow> string list"
  slice_draw :: "nat \<Rightarrow> nat \<Rightarrow> nat"
  rps_due :: "nat option"            \<comment> \<open>\<^verbatim>\<open>round(duration * rps)\<close>, \<open>None\<close> for a negative duration\<close>

datatype client_state = CLIENT_IDLE | CLIENT_CONNECTING | CLIENT_CONNECTED

datatype timer = Connect_Timer | Delay_Request_Timer | Rps_Timer | Conn_Activity_Timer | Ping_Timer
  | Conn_Inactivity_Timer | Stream_Timeout_Timer | Timing_Script_Timer | Preferred_Host_Timer
  | Delayed_Reconnect_Timer | Ssl_Handshake_Timer

text \<open>The two functions \<^verbatim>\<open>write_clear_callback\<close> is set to.\<close>

datatype write_callback = Shutdown_When_Written | Restart_When_Written

record http2_session =
  curr_stream_id :: int
  terminating :: bool

record client =
  cstat :: client_stat
  stream_timestamp :: "(nat \<times> int) list"
  streams :: "(int \<times> stream) list"
  session :: "http2_session option"
  state :: client_state
  reqidx :: nat
  cl_req_todo :: nat
  req_left :: nat
  req_inflight :: nat
  cl_req_started :: nat
  cl_req_done :: nat
  new_connection_requested :: bool
  rps_req_pending :: nat
  rps_req_inflight :: nat
  source :: request_source
  requests_awaiting_response :: "(int \<times> request_data) list"
  dest_clients :: "(string \<times> nat) list"
  parent_client :: "nat option"
  cl_schema :: string
  cl_authority :: string
  preferred_authority :: string
  candidate_addresses :: "string list"
  used_addresses :: "string list"
  my_id :: nat
  write_clear_callback :: "write_callback option"
  write_signaled :: bool
  is_client_stopped :: bool
  resolving :: "(string \<times> string) option"  \<comment> \<open>host and port given to the resolver\<close>
  timers :: "timer list"

record worker =
  w_stats :: stats
  scenario_stats :: "stats list list"
  request_times_smp :: sampling
  client_smp :: sampling
  worker_id :: nat
  nconns_made :: nat
  nclients :: nat
  nreqs_per_client :: nat
  nreqs_rem :: nat
  rate :: nat
  current_phase :: phase
  w_clients :: "nat option list"
  managed_clients :: "nat list"
  client_pool :: "(string \<times> nat list) list"
  client_ids :: "(nat \<times> nat) list"
  rate_timer :: bool
  warmup_timer :: bool
  duration_timer :: bool

datatype task = Write_Signal nat | Free_Client nat | Activity_Timeout nat

record world =
  wk :: worker
  cl :: "nat \<Rightarrow> client"
  n_created :: nat        \<comment> \<open>\<^verbatim>\<open>Unique_Id::client_unique_id\<close>\<close>
  tasks :: "task list"
  calls :: nat            \<comment> \<open>how often the outside has been asked\<close>
  sched :: "scheduler option"
  shared_hosts :: "string list option"  \<comment> \<open>the static variable of \<^verbatim>\<open>init_connection_targert\<close>\<close>

section \<open>Access\<close>

definition upd :: "nat \<Rightarrow> (client \<Rightarrow> client) \<Rightarrow> world \<Rightarrow> world" where
  "upd i f w = w \<lparr> cl := (cl w)(i := f (cl w i)) \<rparr>"

definition upd_worker :: "(worker \<Rightarrow> worker) \<Rightarrow> world \<Rightarrow> world" where
  "upd_worker f w = w \<lparr> wk := f (wk w) \<rparr>"

definition upd_stats :: "(stats \<Rightarrow> stats) \<Rightarrow> world \<Rightarrow> world" where
  "upd_stats f = upd_worker (\<lambda>k. k \<lparr> w_stats := f (w_stats k) \<rparr>)"

definition post :: "task \<Rightarrow> world \<Rightarrow> world" where
  "post t w = w \<lparr> tasks := tasks w @ [t] \<rparr>"

definition called :: "world \<Rightarrow> world" where
  "called w = w \<lparr> calls := calls w + 1 \<rparr>"

definition phase_of :: "world \<Rightarrow> phase" where
  "phase_of w = current_phase (wk w)"

definition start_timer :: "timer \<Rightarrow> nat \<Rightarrow> world \<Rightarrow> world" where
  "start_timer t i = upd i (\<lambda>c. c \<lparr> timers := List.insert t (timers c) \<rparr>)"

definition stop_timer :: "timer \<Rightarrow> nat \<Rightarrow> world \<Rightarrow> world" where
  "stop_timer t i = upd i (\<lambda>c. c \<lparr> timers := removeAll t (timers c) \<rparr>)"

section \<open>Questions a client asks\<close>

definition is_controller_client :: "nat \<Rightarrow> world \<Rightarrow> bool" where
  "is_controller_client i w \<longleftrightarrow> parent_client (cl w i) = None"

definition rps_mode :: "load_config \<Rightarrow> bool" where
  "rps_mode conf \<longleftrightarrow> rps_positive conf"

definition pending_of_controller :: "nat \<Rightarrow> world \<Rightarrow> nat" where
  "pending_of_controller i w = length (streams (cl w i)) +
     sum_list (map (\<lambda>(_, j). length (streams (cl w j))) (dest_clients (cl w i)))"

text \<open>A client's parent has no parent itself, so the recursion of the code is one step deep. The
  streams of a controlling client that is in its own map of destinations are counted twice, as in
  the code.\<close>

definition get_total_pending_streams :: "nat \<Rightarrow> world \<Rightarrow> nat" where
  "get_total_pending_streams i w =
     (case parent_client (cl w i) of Some p \<Rightarrow> pending_of_controller p w | None \<Rightarrow> pending_of_controller i w)"

definition is_test_finished :: "nat \<Rightarrow> world \<Rightarrow> bool" where
  "is_test_finished i w \<longleftrightarrow> req_left (cl w i) = 0 \<or> phase_of w > MAIN_DURATION"

definition should_reconnect_on_disconnect :: "load_config \<Rightarrow> nat \<Rightarrow> world \<Rightarrow> bool" where
  "should_reconnect_on_disconnect conf i w \<longleftrightarrow>
     \<not> is_test_finished i w \<and>
     ((is_controller_client i w \<and> length (dest_clients (cl w i)) > 1) \<or> connection_retry_on_disconnect conf)"

section \<open>Counting requests that are given up\<close>

definition process_abandoned_streams :: "load_config \<Rightarrow> nat \<Rightarrow> world \<Rightarrow> world" where
  "process_abandoned_streams conf i w =
    (if phase_of w \<noteq> MAIN_DURATION then w
     else if \<not> should_reconnect_on_disconnect conf i w then
       upd i (\<lambda>c. c \<lparr> req_left := 0, req_inflight := 0 \<rparr>)
         (upd_stats (count_abandoned (req_inflight (cl w i) + req_left (cl w i))) w)
     else
       upd i (\<lambda>c. c \<lparr> req_inflight := 0 \<rparr>) (upd_stats (count_abandoned (req_inflight (cl w i))) w))"

definition process_timedout_streams :: "load_config \<Rightarrow> (nat \<Rightarrow> client_env) \<Rightarrow> nat \<Rightarrow> world \<Rightarrow> world" where
  "process_timedout_streams conf env i w =
    (if phase_of w \<noteq> MAIN_DURATION then w
     else
       let t = now (env (calls w));
           w1 = upd i (\<lambda>c. c \<lparr> streams := map (\<lambda>(s, x).
                  (s, if completed (req_stat x) then x
                      else x \<lparr> req_stat := (req_stat x) \<lparr> stream_close_time := t \<rparr> \<rparr>)) (streams c) \<rparr>) (called w);
           w2 = upd_stats (\<lambda>s. s \<lparr> req_timedout := req_timedout s + req_inflight (cl w i) \<rparr>) w1
       in process_abandoned_streams conf i w2)"

section \<open>Writing and closing\<close>

definition signal_write :: "nat \<Rightarrow> world \<Rightarrow> world" where
  "signal_write i w =
    (if write_signaled (cl w i) then w
     else post (Write_Signal i) (upd i (\<lambda>c. c \<lparr> write_signaled := True \<rparr>) w))"

definition terminate_session :: "nat \<Rightarrow> world \<Rightarrow> world result" where
  "terminate_session i w =
    (case session (cl w i) of
       None \<Rightarrow> Inl Null_Dereference
     | Some s \<Rightarrow> Inr (signal_write i (upd i (\<lambda>c. c \<lparr> session := Some (s \<lparr> terminating := True \<rparr>) \<rparr>) w)))"

definition setup_graceful_shutdown :: "nat \<Rightarrow> world \<Rightarrow> world" where
  "setup_graceful_shutdown i = upd i (\<lambda>c. c \<lparr> write_clear_callback := Some Shutdown_When_Written \<rparr>)"

definition graceful_restart_connection :: "nat \<Rightarrow> world \<Rightarrow> world result" where
  "graceful_restart_connection i w =
     terminate_session i (upd i (\<lambda>c. c \<lparr> write_clear_callback := Some Restart_When_Written \<rparr>) w)"

definition stop :: "nat \<Rightarrow> world \<Rightarrow> world" where
  "stop i w = (if is_client_stopped (cl w i) then w
     else upd i (\<lambda>c. c \<lparr> is_client_stopped := True, timers := [] \<rparr>) w)"

text \<open>The requests in the queue are dropped, those awaiting a response are kept.\<close>

definition cleanup_due_to_disconnect :: "(nat \<Rightarrow> client_env) \<Rightarrow> nat \<Rightarrow> world \<Rightarrow> world" where
  "cleanup_due_to_disconnect env i w =
     upd i (\<lambda>c. c \<lparr> cstat := (cstat c) \<lparr> client_end_time := now (env (calls w)) \<rparr>, streams := [], session := None,
         state := CLIENT_IDLE, source := (source c) \<lparr> requests_to_submit := [] \<rparr> \<rparr>)
      (upd_worker (\<lambda>k. k \<lparr> client_ids := omap_erase nat_less (client_ids k) (my_id (cl w i)),
         client_pool := map (\<lambda>(d, cs). (d, removeAll i cs)) (client_pool k) \<rparr>) (called w))"

definition disconnect :: "(nat \<Rightarrow> client_env) \<Rightarrow> nat \<Rightarrow> world \<Rightarrow> world" where
  "disconnect env i w = cleanup_due_to_disconnect env i (stop i w)"

definition fail :: "load_config \<Rightarrow> (nat \<Rightarrow> client_env) \<Rightarrow> nat \<Rightarrow> world \<Rightarrow> world" where
  "fail conf env i w = process_abandoned_streams conf i (disconnect env i w)"

definition timeout :: "load_config \<Rightarrow> (nat \<Rightarrow> client_env) \<Rightarrow> nat \<Rightarrow> world \<Rightarrow> world" where
  "timeout conf env i w =
    (if should_reconnect_on_disconnect conf i w then w
     else disconnect env i (process_timedout_streams conf env i w))"

section \<open>Connecting\<close>

definition strip_host_brackets :: "string \<Rightarrow> string" where
  "strip_host_brackets host =
    (if host \<noteq> [] \<and> host ! 0 = CHR ''['' \<and> host ! (length host - 1) = CHR '']''
     then substr host 1 (length host - 2) else host)"

definition get_host_and_port_from_authority :: "client_env \<Rightarrow> string \<Rightarrow> string \<Rightarrow> (string \<times> string) option" where
  "get_host_and_port_from_authority e sch auth =
    (case authority_parser e auth of
       None \<Rightarrow> None
     | Some u \<Rightarrow>
        (case u_host u of
           None \<Rightarrow> None
         | Some h \<Rightarrow> Some (strip_host_brackets h,
             (case u_port u of Some p \<Rightarrow> utos p | None \<Rightarrow> if sch = ''https'' then ''443'' else ''80''))))"

definition connect_to_host :: "(nat \<Rightarrow> client_env) \<Rightarrow> string \<Rightarrow> string \<Rightarrow> nat \<Rightarrow> world \<Rightarrow> world result" where
  "connect_to_host env dest_schema dest_authority i w =
    (case get_host_and_port_from_authority (env (calls w)) dest_schema dest_authority of
       None \<Rightarrow> Inl Exit_Failure
     | Some hp \<Rightarrow>
         Inr (start_timer Connect_Timer i (upd i (\<lambda>c. c \<lparr> write_signaled := False, is_client_stopped := False,
           resolving := Some hp, cl_schema := dest_schema, cl_authority := dest_authority,
           state := CLIENT_CONNECTING \<rparr>) (called w))))"

definition record_client_start_time :: "nat \<Rightarrow> nat \<Rightarrow> world \<Rightarrow> world" where
  "record_client_start_time t i =
     upd i (\<lambda>c. if client_start_time (cstat c) \<noteq> 0 then c
                else c \<lparr> cstat := (cstat c) \<lparr> client_start_time := t \<rparr> \<rparr>)"

definition restart_connect_times :: "nat \<Rightarrow> nat \<Rightarrow> world \<Rightarrow> world" where
  "restart_connect_times t i =
     upd i (\<lambda>c. c \<lparr> cstat := (cstat c) \<lparr> connect_start_time := t, connect_time := 0, ttfb := 0 \<rparr> \<rparr>)"

text \<open>\<^verbatim>\<open>connect\<close>, with its return value.\<close>

definition connect :: "load_config \<Rightarrow> (nat \<Rightarrow> client_env) \<Rightarrow> nat \<Rightarrow> world \<Rightarrow> (int \<times> world) result" where
  "connect conf env i w =
    (if is_test_finished i w then Inr (-1, w)
     else
       let t = now (env (calls w));
           w1 = (if \<not> is_timing_based_mode conf \<or> phase_of w = MAIN_DURATION then
                   restart_connect_times t i (record_client_start_time t i (called w))
                 else if phase_of w = INITIAL_IDLE then
                   upd_worker (\<lambda>k. k \<lparr> current_phase := WARM_UP, warmup_timer := True \<rparr>) w
                 else w);
           w2 = (if conn_inactivity_timeout_positive conf then start_timer Conn_Inactivity_Timer i w1 else w1)
       in andthen (connect_to_host env (cl_schema (cl w2 i)) (cl_authority (cl w2 i)) i w2)
            (\<lambda>w3. Inr (0, start_timer Connect_Timer i w3)))"

definition try_again_or_fail :: "load_config \<Rightarrow> (nat \<Rightarrow> client_env) \<Rightarrow> nat \<Rightarrow> world \<Rightarrow> (int \<times> world) result" where
  "try_again_or_fail conf env i w =
    (let w1 = disconnect env i w;
         give_up = (\<lambda>v. Inr (-1, process_abandoned_streams conf i v)) in
     if new_connection_requested (cl w1 i) then
       (let w2 = upd i (\<lambda>c. c \<lparr> new_connection_requested := False \<rparr>) w1 in
        if req_left (cl w2 i) \<noteq> 0 then
          (let w3 = (if phase_of w2 = MAIN_DURATION then
                upd i (\<lambda>c. c \<lparr> req_inflight := 0 \<rparr>) (upd_stats (count_abandoned (req_inflight (cl w2 i))) w2)
              else w2) in
           andthen (connect conf env i w3) (\<lambda>(rv, w4). if rv = 0 then Inr (0, w4) else give_up w4))
        else give_up w2)
     else give_up w1)"

definition reconnect_to_used_host :: "(nat \<Rightarrow> client_env) \<Rightarrow> nat \<Rightarrow> world \<Rightarrow> world result" where
  "reconnect_to_used_host env i w =
    (let c = cl w i in
     if state c = CLIENT_CONNECTED then Inr w
     else case used_addresses c of
         a # rest \<Rightarrow> connect_to_host env (cl_schema c) a i
             (upd i (\<lambda>c. c \<lparr> cl_authority := a, used_addresses := rest \<rparr>) w)
       | [] \<Rightarrow> connect_to_host env (cl_schema c) (cl_authority c) i w)"

definition reconnect_to_alt_addr :: "load_config \<Rightarrow> (nat \<Rightarrow> client_env) \<Rightarrow> nat \<Rightarrow> world \<Rightarrow> (bool \<times> world) result" where
  "reconnect_to_alt_addr conf env i w =
    (let c = cl w i in
     if state c = CLIENT_CONNECTED then Inr (False, w)
     else if should_reconnect_on_disconnect conf i w then
       andthen
        (if cl_authority c \<noteq> preferred_authority c then
           connect_to_host env (cl_schema c) (preferred_authority c) i
             (upd i (\<lambda>c. c \<lparr> used_addresses := used_addresses c @ [cl_authority c],
                cl_authority := preferred_authority c \<rparr>) w)
         else case candidate_addresses c of
             a # rest \<Rightarrow> connect_to_host env (cl_schema c) a i
               (upd i (\<lambda>c. c \<lparr> cl_authority := a, candidate_addresses := rest \<rparr>) w)
           | [] \<Rightarrow> Inr (start_timer Delayed_Reconnect_Timer i w))
        (\<lambda>w'. Inr (True, w'))
     else Inr (False, w))"

definition connection_timeout_handler :: "load_config \<Rightarrow> (nat \<Rightarrow> client_env) \<Rightarrow> nat \<Rightarrow> world \<Rightarrow> world result" where
  "connection_timeout_handler conf env i w =
     andthen (reconnect_to_alt_addr conf env i (fail conf env i (stop_timer Connect_Timer i w))) (\<lambda>(_, w'). Inr w')"

definition on_prefered_host_up :: "(nat \<Rightarrow> client_env) \<Rightarrow> nat \<Rightarrow> world \<Rightarrow> world result" where
  "on_prefered_host_up env i w =
    (let c = cl w i in
     if cl_authority c \<noteq> preferred_authority c \<and> state c = CLIENT_CONNECTED then
       (let w1 = disconnect env i w;
            w2 = upd i (\<lambda>c. c \<lparr> candidate_addresses := candidate_addresses c @ [cl_authority c],
                   cl_authority := preferred_authority c \<rparr>) w1
        in connect_to_host env (cl_schema (cl w2 i)) (cl_authority (cl w2 i)) i w2)
     else Inr w)"

text \<open>\<^verbatim>\<open>handle_connection_error\<close> of \<^verbatim>\<open>asio_client_connection\<close>\<close>

definition handle_connection_error :: "load_config \<Rightarrow> (nat \<Rightarrow> client_env) \<Rightarrow> nat \<Rightarrow> world \<Rightarrow> world result" where
  "handle_connection_error conf env i w =
     andthen (try_again_or_fail conf env i w) (\<lambda>(rv, w1).
       if rv = 0 then Inr w1
       else andthen (reconnect_to_alt_addr conf env i (fail conf env i w1)) (\<lambda>(again, w2).
         if again then Inr (upd i (\<lambda>c. c \<lparr> is_client_stopped := False \<rparr>) w2)
         else Inr (post (Free_Client i) w2)))"

section \<open>Creating and freeing clients\<close>

definition dest_of :: "client \<Rightarrow> string" where
  "dest_of c = cl_schema c @ ''://'' @ cl_authority c"

text \<open>The first entry for the client is erased, then it is entered under its present address.\<close>

fun erase_client :: "nat \<Rightarrow> (string \<times> nat) list \<Rightarrow> (string \<times> nat) list" where
  "erase_client i [] = []"
| "erase_client i ((d, j) # m) = (if j = i then m else (d, j) # erase_client i m)"

definition update_this_in_dest_client_map :: "nat \<Rightarrow> world \<Rightarrow> world" where
  "update_this_in_dest_client_map i w =
    (let owner = (case parent_client (cl w i) of Some p \<Rightarrow> p | None \<Rightarrow> i) in
     upd owner (\<lambda>c. c \<lparr> dest_clients := omap_set str_less (erase_client i (dest_clients c)) (dest_of (cl w i)) i \<rparr>) w)"

definition bracketed :: "client_env \<Rightarrow> string \<Rightarrow> string" where
  "bracketed e host = (if is_ipv6 e host then ''['' @ host @ '']'' else host)"

definition init_hosts :: "load_config \<Rightarrow> client_env \<Rightarrow> string \<Rightarrow> string list" where
  "init_hosts conf e auth =
    (let hosts = map (\<lambda>(h, p). bracketed e h @ (if p \<noteq> 0 then '':'' @ utos p else [])) (load_share_hosts_opt conf) in
     if auth \<in> set hosts then hosts else hosts @ [auth])"

definition init_connection_targert :: "load_config \<Rightarrow> (nat \<Rightarrow> client_env) \<Rightarrow> nat \<Rightarrow> world \<Rightarrow> world" where
  "init_connection_targert conf env i w0 =
    (let e = env (calls w0); w = called w0; c = cl w i;
         sch = (if cl_schema c = [] then scheme_opt conf else cl_schema c);
         auth = (if cl_authority c = [] then
                   bracketed e (if connect_to_host_opt conf = [] then host_opt conf else connect_to_host_opt conf)
                     @ '':'' @ utos (port_opt conf)
                 else cl_authority c)
     in
     if is_controller_client i w \<and> load_share_hosts_opt conf \<noteq> [] then
       (let hosts = (case shared_hosts w of Some hs \<Rightarrow> hs | None \<Rightarrow> init_hosts conf e auth);
            n = length hosts; start = my_id c mod n; first = hosts ! start
        in upd i (\<lambda>c. c \<lparr> cl_schema := sch, cl_authority := first, preferred_authority := first,
             candidate_addresses := shuffle e (candidate_addresses c @ map (\<lambda>k. hosts ! ((start + Suc k) mod n)) [0..<n - 1]) \<rparr>)
             (w \<lparr> shared_hosts := Some hosts \<rparr>))
     else upd i (\<lambda>c. c \<lparr> cl_schema := sch, cl_authority := auth, preferred_authority := auth \<rparr>) w)"

definition fresh_client :: "load_config \<Rightarrow> nat \<Rightarrow> nat \<Rightarrow> nat option \<Rightarrow> string \<Rightarrow> string
    \<Rightarrow> scenario_data_per_client list \<Rightarrow> client" where
  "fresh_client conf uid todo parent sch auth cursors =
     \<lparr> cstat = client_stat_init, stream_timestamp = [], streams = [], session = None, state = CLIENT_IDLE,
       reqidx = 0, cl_req_todo = todo, req_left = (if todo = 0 then 1 else todo), req_inflight = 0,
       cl_req_started = 0, cl_req_done = 0, new_connection_requested = False, rps_req_pending = 0,
       rps_req_inflight = 0,
       source = \<lparr> requests_to_submit = [], delayed_requests_to_submit = [], scenario_data_per_connection = cursors \<rparr>,
       requests_awaiting_response = [], dest_clients = [], parent_client = parent, cl_schema = sch,
       cl_authority = auth, preferred_authority = [], candidate_addresses = [], used_addresses = [],
       my_id = uid, write_clear_callback = None, write_signaled = False, is_client_stopped = False,
       resolving = None, timers = [] \<rparr>"

text \<open>The constructors of \<^verbatim>\<open>base_client\<close> and \<^verbatim>\<open>asio_client_connection\<close>; the new client's number is
  its unique id.\<close>

definition new_client :: "load_config \<Rightarrow> (nat \<Rightarrow> client_env) \<Rightarrow> nat \<Rightarrow> nat option \<Rightarrow> string \<Rightarrow> string \<Rightarrow> world
    \<Rightarrow> (nat \<times> world) result" where
  "new_client conf env todo parent sch auth w =
    (let uid = n_created w in
     andthen (slice_var_ids (nclients_opt conf) (parent = None) uid (worker_id (wk w)) (slice_draw (env (calls w))) (scenarios_of conf))
       (\<lambda>cursors.
         let w1 = (called w) \<lparr> n_created := uid + 1, cl := (cl w)(uid := fresh_client conf uid todo parent sch auth cursors) \<rparr>
         in Inr (uid, init_connection_targert conf env uid (update_this_in_dest_client_map uid w1))))"

definition check_in_client :: "nat \<Rightarrow> world \<Rightarrow> world" where
  "check_in_client i = upd_worker (\<lambda>k. k \<lparr> managed_clients := List.insert i (managed_clients k) \<rparr>)"

definition find_or_create_of_controller :: "load_config \<Rightarrow> (nat \<Rightarrow> client_env) \<Rightarrow> request_data \<Rightarrow> nat \<Rightarrow> world
    \<Rightarrow> (nat \<times> world) result" where
  "find_or_create_of_controller conf env r i w =
     andthen (deref (schema r)) (\<lambda>s. andthen (deref (authority r)) (\<lambda>a.
       let dest = s @ ''://'' @ a in
       case omap_find str_less (dest_clients (cl w i)) dest of
         Some j \<Rightarrow> Inr (j, w)
       | None \<Rightarrow>
           andthen (new_client conf env (cl_req_todo (cl w i)) (Some i) s a w) (\<lambda>(j, w1).
             let w2 = upd i (\<lambda>c. c \<lparr> dest_clients := omap_set str_less (dest_clients c) dest j \<rparr>) (check_in_client j w1)
             in andthen (connect_to_host env (cl_schema (cl w2 j)) (cl_authority (cl w2 j)) j w2)
                  (\<lambda>w3. Inr (j, w3)))))"

definition find_or_create_dest_client :: "load_config \<Rightarrow> (nat \<Rightarrow> client_env) \<Rightarrow> request_data \<Rightarrow> nat \<Rightarrow> world
    \<Rightarrow> (nat \<times> world) result" where
  "find_or_create_dest_client conf env r i w =
    (let controller = (case parent_client (cl w i) of Some p \<Rightarrow> p | None \<Rightarrow> i) in
     if \<not> open_new_connection_based_on_authority_header conf then Inr (controller, w)
     else find_or_create_of_controller conf env r controller w)"

text \<open>\<^verbatim>\<open>final_cleanup\<close>, and the destructor of a client.\<close>

definition final_cleanup :: "(nat \<Rightarrow> client_env) \<Rightarrow> nat \<Rightarrow> world \<Rightarrow> world" where
  "final_cleanup env i w =
    (let k = wk w; r = sample (sample_draw (env (calls w))) (client_smp k) (client_stats (w_stats k)) (cstat (cl w i));
         w1 = upd_worker (\<lambda>k. k \<lparr> client_smp := (fst r) \<lparr> smp_n := smp_n (fst r) + 1 \<rparr>,
                w_stats := (w_stats k) \<lparr> client_stats := snd r \<rparr> \<rparr>) (called w)
     in case parent_client (cl w i) of
          None \<Rightarrow> w1
        | Some p \<Rightarrow>
            if omap_find str_less (dest_clients (cl w1 p)) (dest_of (cl w1 i)) = Some i then
              upd p (\<lambda>c. c \<lparr> dest_clients := omap_erase str_less (dest_clients c) (dest_of (cl w1 i)) \<rparr>) w1
            else w1)"

definition destroy_client :: "(nat \<Rightarrow> client_env) \<Rightarrow> nat \<Rightarrow> world \<Rightarrow> world" where
  "destroy_client env i w = final_cleanup env i (disconnect env i w)"

text \<open>\<^verbatim>\<open>free_client\<close>: a client of the list settles for the requests it has done; taking it out of the
  managed clients drops the last reference to it.\<close>

definition free_client :: "(nat \<Rightarrow> client_env) \<Rightarrow> nat \<Rightarrow> world \<Rightarrow> world" where
  "free_client env i w =
    (let w1 = (if Some i \<in> set (w_clients (wk w)) then
                 upd_worker (\<lambda>k. k \<lparr> w_stats := (w_stats k) \<lparr> req_todo := req_todo (w_stats k) + cl_req_done (cl w i) \<rparr>,
                     w_clients := map (\<lambda>x. if x = Some i then None else x) (w_clients k) \<rparr>)
                   (upd i (\<lambda>c. c \<lparr> cl_req_todo := cl_req_done c \<rparr>) w)
               else w)
     in if i \<in> set (managed_clients (wk w1)) then
          destroy_client env i (upd_worker (\<lambda>k. k \<lparr> managed_clients := removeAll i (managed_clients k) \<rparr>) w1)
        else w1)"

end
