(* ===== verification/Client.thy ===== *)
theory Client
  imports Client_State
begin

text \<open>
  The life of a request in a client (\<^verbatim>\<open>src/base_client.cc\<close>, \<^verbatim>\<open>src/h2load_http2_session.cc\<close>): taking
  it from the queue and submitting it to the HTTP/2 session, receiving the response, judging it,
  counting it, preparing the request that follows it, and giving up when the connection fails. The
  handlers are those the event loop calls; each takes the number of the client and the world.
\<close>

section \<open>Sending a request\<close>

text \<open>The fields of an HTTP/2 request as \<^verbatim>\<open>Http2Session::_submit_request\<close> lists them.\<close>

definition is_pseudo :: "string \<Rightarrow> bool" where
  "is_pseudo n \<longleftrightarrow> n = '':path'' \<or> n = '':scheme'' \<or> n = '':authority'' \<or> n = '':method''"

definition merged_headers :: "request_data \<Rightarrow> (string \<times> string) list result" where
  "merged_headers r =
    (case req_headers_from_config r of
       None \<Rightarrow> Inl Null_Dereference
     | Some from_config \<Rightarrow> Inr
         (filter (\<lambda>(n, _). omap_find ci_less (req_headers_of_individual r) n = None \<and> \<not> is_pseudo n) from_config @
          filter (\<lambda>(n, _). \<not> is_pseudo n) (req_headers_of_individual r)))"

definition http2_fields :: "request_data \<Rightarrow> (string \<times> string) list result" where
  "http2_fields r =
     andthen (deref (path r)) (\<lambda>p. andthen (deref (schema r)) (\<lambda>s.
     andthen (deref (authority r)) (\<lambda>a. andthen (deref (req_method r)) (\<lambda>m.
     andthen (merged_headers r) (\<lambda>hs.
       Inr ([('':path'', p), ('':scheme'', s), ('':authority'', a), ('':method'', m)] @ hs))))))"

text \<open>\<^verbatim>\<open>on_request_start\<close>: without an entry among the awaited responses the code reads through
  \<^verbatim>\<open>end()\<close>.\<close>

definition eligible_phase :: "phase \<Rightarrow> bool" where
  "eligible_phase p \<longleftrightarrow> p = MAIN_DURATION \<or> p = MAIN_DURATION_GRACEFUL_SHUTDOWN"

definition on_request_start :: "load_config \<Rightarrow> (nat \<Rightarrow> client_env) \<Rightarrow> int \<Rightarrow> nat \<Rightarrow> world \<Rightarrow> world result" where
  "on_request_start conf env stream_id i w =
    (case omap_find int_less (requests_awaiting_response (cl w i)) stream_id of
       None \<Rightarrow> Inl Null_Dereference
     | Some r \<Rightarrow>
        (let e = env (calls w);
             indices = (if scenario_stats (wk w) \<noteq> [] then (scenario_index r, curr_request_idx r) else (0, 0));
             s = stream_of (junk_offset e) (junk_completed e) (fst indices) (snd indices) (eligible_phase (phase_of w));
             timeout_interval = (if stream_timeout_in_ms r \<noteq> 0 then stream_timeout_in_ms r else stream_timeout_opt conf)
         in Inr (upd i (\<lambda>c. c \<lparr>
              streams := omap_set int_less (streams c) stream_id s,
              stream_timestamp := mmap_insert nat_less (stream_timestamp c) (now e + timeout_interval) stream_id \<rparr>)
             (called w))))"

text \<open>\<^verbatim>\<open>Http2Session::_submit_request\<close> with the value it returns; -2 is
  \<^verbatim>\<open>MAX_STREAM_TO_BE_EXHAUSTED\<close>.\<close>

definition submit_scenario_request :: "load_config \<Rightarrow> (nat \<Rightarrow> client_env) \<Rightarrow> http2_session \<Rightarrow> nat \<Rightarrow> world
    \<Rightarrow> (int \<times> world) result" where
  "submit_scenario_request conf env s i w0 =
    (let e = env (calls w0); w = called w0 in
     if near_exhaustion e (curr_stream_id s) \<or> curr_stream_id s \<ge> 2 ^ 31 - 1 - 1 then Inr (-2, w)
     else case requests_to_submit (source (cl w i)) of
         [] \<Rightarrow> Inl Abort
       | r # rest \<Rightarrow>
          (let w1 = upd i (\<lambda>c. c \<lparr> source := (source c) \<lparr> requests_to_submit := rest \<rparr> \<rparr>) w in
           if is_empty r then Inr (-1, w1)
           else
             andthen (http2_fields r) (\<lambda>_.
               if new_stream_id e < 0 then Inr (-1, w1)
               else
                 let w2 = upd i (\<lambda>c. c \<lparr> session := Some (s \<lparr> curr_stream_id := new_stream_id e \<rparr>),
                       requests_awaiting_response :=
                         omap_insert int_less (requests_awaiting_response c) (new_stream_id e) r \<rparr>) w1
                 in andthen (on_request_start conf env (new_stream_id e) i w2) (\<lambda>w3. Inr (0, w3)))))"

definition session_submit_request :: "load_config \<Rightarrow> (nat \<Rightarrow> client_env) \<Rightarrow> nat \<Rightarrow> world \<Rightarrow> (int \<times> world) result" where
  "session_submit_request conf env i w0 =
    (case session (cl w0 i) of
       None \<Rightarrow> Inl Null_Dereference
     | Some s \<Rightarrow>
        (let e = env (calls w0); w = called w0 in
         if \<not> request_allowed e then Inr (-1, w)
         else if scenarios_of conf \<noteq> [] then submit_scenario_request conf env s i w
         else
           let idx = reqidx (cl w i) in
           if nva_size conf \<le> idx then Inl Out_Of_Range
           else
             let w1 = upd i (\<lambda>c. c \<lparr> reqidx := (if idx + 1 = nva_size conf then 0 else idx + 1) \<rparr>) w in
             if new_stream_id e < 0 then Inr (-1, w1)
             else andthen (on_request_start conf env (new_stream_id e) i w1) (\<lambda>w2. Inr (0, w2))))"

definition process_request_failure :: "load_config \<Rightarrow> int \<Rightarrow> nat \<Rightarrow> world \<Rightarrow> world result" where
  "process_request_failure conf errCode i w =
    (if phase_of w \<noteq> MAIN_DURATION then Inr w
     else
       let w1 = upd_stats (count_abandoned (req_left (cl w i))) w in
       if errCode = -2 then graceful_restart_connection i w1
       else
         let w2 = (if \<not> should_reconnect_on_disconnect conf i w1 then upd i (\<lambda>c. c \<lparr> req_left := 0 \<rparr>) w1 else w1)
         in if streams (cl w2 i) = [] then terminate_session i w2 else Inr w2)"

text \<open>The counters that \<^verbatim>\<open>submit_request\<close> moves once a request has been handed to the session.\<close>

definition count_scenario :: "nat \<Rightarrow> nat \<Rightarrow> (stats \<Rightarrow> stats) \<Rightarrow> world \<Rightarrow> world" where
  "count_scenario s r f = upd_worker (\<lambda>k.
     if s < length (scenario_stats k) \<and> r < length (scenario_stats k ! s)
     then k \<lparr> scenario_stats := (scenario_stats k)[s := (scenario_stats k ! s)[r := f (scenario_stats k ! s ! r)]] \<rparr>
     else k)"

definition count_submitted :: "load_config \<Rightarrow> nat \<Rightarrow> nat \<Rightarrow> nat \<Rightarrow> world \<Rightarrow> world" where
  "count_submitted conf s r i w =
     count_scenario s r count_started
       (upd i (\<lambda>c. c \<lparr> cl_req_started := cl_req_started c + 1, req_inflight := req_inflight c + 1,
            req_left := (if is_timing_based_mode conf then req_left c else sub64 (req_left c) 1) \<rparr>)
         (upd_stats count_started w))"

definition start_active_watchers :: "load_config \<Rightarrow> nat \<Rightarrow> world \<Rightarrow> world" where
  "start_active_watchers conf i w =
    (if conn_active_timeout_positive conf \<and> req_left (cl w i) = 0 then
       foldl (\<lambda>v (_, j). start_timer Conn_Activity_Timer j v) w (dest_clients (cl w i))
     else w)"

text \<open>Fill the queue of a controlling client if it is empty.\<close>

definition refill :: "load_config \<Rightarrow> (nat \<Rightarrow> client_env) \<Rightarrow> nat \<Rightarrow> world \<Rightarrow> world result" where
  "refill conf env i w =
    (if requests_to_submit (source (cl w i)) = [] \<and> scenarios_of conf \<noteq> [] then
       andthen (prepare_first_request (env (calls w)) (distr (env (calls w))) (now (env (calls w))) (scenarios_of conf)
           (config_update_sequence_number conf) (cl_schema (cl w i)) (cl_authority (cl w i)) (sched w) (source (cl w i)))
         (\<lambda>(r, sched', src). Inr (upd i (\<lambda>c. c \<lparr> source := src \<lparr> requests_to_submit := requests_to_submit src @ [r] \<rparr> \<rparr>)
            ((called w) \<lparr> sched := sched' \<rparr>)))
     else Inr w)"

text \<open>Choose the destination of the first request in the queue and hand the request over to it.\<close>

definition dispatch :: "load_config \<Rightarrow> (nat \<Rightarrow> client_env) \<Rightarrow> nat \<Rightarrow> world \<Rightarrow> (nat \<times> world) result" where
  "dispatch conf env i w =
    (if open_new_connection_based_on_authority_header conf then
       case requests_to_submit (source (cl w i)) of
         [] \<Rightarrow> Inl Null_Dereference
       | r # rest \<Rightarrow>
           andthen (find_or_create_dest_client conf env r i w) (\<lambda>(j, w1).
             if j \<noteq> i then
               Inr (j, upd i (\<lambda>c. c \<lparr> source := (source c) \<lparr> requests_to_submit := rest \<rparr> \<rparr>)
                 (upd j (\<lambda>c. c \<lparr> source := (source c) \<lparr> requests_to_submit := requests_to_submit (source c) @ [r] \<rparr> \<rparr>) w1))
             else Inr (j, w1))
     else Inr (i, w))"

text \<open>The part of \<^verbatim>\<open>submit_request\<close> that a connected destination \<open>j\<close> takes.\<close>

definition send_to :: "load_config \<Rightarrow> (nat \<Rightarrow> client_env) \<Rightarrow> nat \<Rightarrow> nat \<Rightarrow> world \<Rightarrow> (int \<times> world) result" where
  "send_to conf env i j w =
    (let indices = (if scenarios_of conf \<noteq> [] then
           (case requests_to_submit (source (cl w j)) of [] \<Rightarrow> (0, 0) | r # _ \<Rightarrow> (scenario_index r, curr_request_idx r))
         else (0, 0)) in
     andthen (session_submit_request conf env j w) (\<lambda>(rv, w1).
       if rv \<noteq> 0 then andthen (process_request_failure conf rv j w1) (\<lambda>w2. Inr (rv, w2))
       else
         let w2 = signal_write j w1 in
         if phase_of w2 \<noteq> MAIN_DURATION then Inr (0, w2)
         else Inr (0, start_active_watchers conf i (count_submitted conf (fst indices) (snd indices) i w2))))"

definition submit_of_controller :: "load_config \<Rightarrow> (nat \<Rightarrow> client_env) \<Rightarrow> nat \<Rightarrow> world \<Rightarrow> (int \<times> world) result" where
  "submit_of_controller conf env i w =
    (if session (cl w i) = None then Inl Null_Dereference
     else if max_concurrent_streams_opt conf \<le> get_total_pending_streams i w then Inr (-1, w)
     else if phase_of w = MAIN_DURATION_GRACEFUL_SHUTDOWN then Inr (-1, w)
     else
       andthen (refill conf env i w) (\<lambda>w1.
       andthen (dispatch conf env i w1) (\<lambda>(j, w2).
         if state (cl w2 j) = CLIENT_CONNECTED then send_to conf env i j w2 else Inr (0, w2))))"

text \<open>\<^verbatim>\<open>submit_request\<close>; a client with a parent leaves the work to it.\<close>

definition submit_request :: "load_config \<Rightarrow> (nat \<Rightarrow> client_env) \<Rightarrow> nat \<Rightarrow> world \<Rightarrow> (int \<times> world) result" where
  "submit_request conf env i w =
    (if is_null_destination conf \<and> requests_to_submit (source (cl w i)) = [] then Inr (0, w)
     else case parent_client (cl w i) of
         None \<Rightarrow> submit_of_controller conf env i w
       | Some p \<Rightarrow>
          (if is_null_destination conf \<and> requests_to_submit (source (cl w p)) = [] then Inr (0, w)
           else submit_of_controller conf env p w))"

text \<open>The loops that submit up to \<open>n\<close> requests and stop at the first that cannot be sent.\<close>

fun submit_up_to :: "load_config \<Rightarrow> (nat \<Rightarrow> client_env) \<Rightarrow> nat \<Rightarrow> nat \<Rightarrow> world \<Rightarrow> world result" where
  "submit_up_to conf env i 0 w = Inr w"
| "submit_up_to conf env i (Suc n) w =
     andthen (submit_request conf env i w) (\<lambda>(rv, w1).
       if rv \<noteq> 0 then Inr w1 else submit_up_to conf env i n w1)"

section \<open>Receiving a response\<close>

definition upd_stream :: "int \<Rightarrow> (stream \<Rightarrow> stream) \<Rightarrow> nat \<Rightarrow> world \<Rightarrow> world" where
  "upd_stream stream_id f i w =
    (case omap_find int_less (streams (cl w i)) stream_id of
       None \<Rightarrow> w
     | Some s \<Rightarrow> upd i (\<lambda>c. c \<lparr> streams := omap_set int_less (streams c) stream_id (f s) \<rparr>) w)"

definition upd_awaiting :: "int \<Rightarrow> (request_data \<Rightarrow> request_data) \<Rightarrow> nat \<Rightarrow> world \<Rightarrow> world" where
  "upd_awaiting stream_id f i w =
    (case omap_find int_less (requests_awaiting_response (cl w i)) stream_id of
       None \<Rightarrow> w
     | Some r \<Rightarrow> upd i (\<lambda>c. c \<lparr> requests_awaiting_response :=
         omap_set int_less (requests_awaiting_response c) stream_id (f r) \<rparr>) w)"

definition on_status_code :: "int \<Rightarrow> nat \<Rightarrow> nat \<Rightarrow> world \<Rightarrow> world" where
  "on_status_code stream_id status i w =
     upd_stream stream_id (\<lambda>s. s \<lparr> req_stat := (req_stat s) \<lparr> rs_status := status \<rparr> \<rparr>) i
       (upd_awaiting stream_id (\<lambda>r. r \<lparr> rd_status_code := status \<rparr>) i w)"

text \<open>\<open>end_stream\<close> is the flag \<^verbatim>\<open>NGHTTP2_FLAG_END_STREAM\<close>.\<close>

definition on_header_frame_begin :: "int \<Rightarrow> bool \<Rightarrow> nat \<Rightarrow> world \<Rightarrow> world" where
  "on_header_frame_begin stream_id end_stream =
     upd_awaiting stream_id (\<lambda>r. r \<lparr> resp_headers := resp_headers r @ [[]],
       resp_trailer_present := resp_trailer_present r \<or> (length (resp_headers r) + 1 > 1 \<and> end_stream) \<rparr>)"

definition on_data_chunk :: "int \<Rightarrow> string \<Rightarrow> nat \<Rightarrow> world \<Rightarrow> world" where
  "on_data_chunk stream_id data =
     upd_awaiting stream_id (\<lambda>r. r \<lparr> resp_payload := resp_payload r @ data \<rparr>)"

text \<open>One header field entered into the last block; repeated fields are joined.\<close>

definition add_header :: "string \<Rightarrow> string \<Rightarrow> header_map \<Rightarrow> header_map" where
  "add_header name v block =
    (case omap_find ci_less block name of
       Some old \<Rightarrow> omap_set ci_less block name (old @ ''; '' @ v)
     | None \<Rightarrow> omap_set ci_less block name v)"

text \<open>The digits of a \<^verbatim>\<open>:status\<close> field; \<open>None\<close> when the number exceeds 999.\<close>

fun parse_status :: "string \<Rightarrow> nat \<Rightarrow> nat option" where
  "parse_status [] status = Some status"
| "parse_status (c # cs) status =
     (if is_digit c then
        (let status' = status * 10 + digit_val c in if status' > 999 then None else parse_status cs status')
      else Some status)"

definition on_header :: "int \<Rightarrow> string \<Rightarrow> string \<Rightarrow> nat \<Rightarrow> world \<Rightarrow> world result" where
  "on_header stream_id name v i w =
    (case omap_find int_less (streams (cl w i)) stream_id of
       None \<Rightarrow> Inr w
     | Some s \<Rightarrow>
         andthen
          (case omap_find int_less (requests_awaiting_response (cl w i)) stream_id of
             None \<Rightarrow> Inr w
           | Some r \<Rightarrow>
              (if resp_headers r = [] then Inl Assertion
               else Inr (upd_awaiting stream_id (\<lambda>r. r \<lparr> resp_headers := butlast (resp_headers r) @
                 [add_header name (dropWhile (\<lambda>c. c = CHR '' '') v) (last (resp_headers r))] \<rparr>) i w)))
          (\<lambda>w1.
            if status_success s = -1 \<and> name = '':status'' then
              (case parse_status v 0 of
                 None \<Rightarrow> Inr (upd_stream stream_id (\<lambda>s. s \<lparr> status_success := 0 \<rparr>) i w1)
               | Some status \<Rightarrow> Inr (on_status_code stream_id status i w1))
            else Inr w1))"

section \<open>Judging a response\<close>

definition validate_response_with_lua :: "client_env \<Rightarrow> string \<Rightarrow> request_data \<Rightarrow> bool result" where
  "validate_response_with_lua e script r =
    (case validate_response e script (concat (resp_headers r)) (resp_payload r) of
       No_Validator \<Rightarrow> Inr True
     | Validator_Error \<Rightarrow> Inl Exit_Failure
     | Validator_Results vs \<Rightarrow> Inr (foldl (\<lambda>_ v. case v of Some b \<Rightarrow> b | None \<Rightarrow> False) True vs))"

fun all_rules_match :: "client_env \<Rightarrow> match_rule list \<Rightarrow> request_data \<Rightarrow> json \<Rightarrow> bool \<Rightarrow> bool result" where
  "all_rules_match e [] r d matched = Inr matched"
| "all_rules_match e (m # ms) r d matched =
     andthen (match_response e m (resp_headers r) d) (\<lambda>b. if b then all_rules_match e ms r d True else Inr False)"

text \<open>The verdict on an eligible stream whose request is known.\<close>

definition judge :: "client_env \<Rightarrow> request_template \<Rightarrow> request_data \<Rightarrow> nat \<Rightarrow> bool result" where
  "judge e t r status =
    (if validate_response_function_present t then validate_response_with_lua e (rt_luaScript t) r
     else if response_match_rules t \<noteq> [] then
       (if response_payload_match t \<noteq> [] \<and> json_parse_error e (c_str (resp_payload r)) then Inr False
        else all_rules_match e (response_match_rules t) r
          (if response_payload_match t \<noteq> [] then parse_json e (c_str (resp_payload r)) else JNull) False)
     else if expected_status_code r \<noteq> 0 then Inr (status = expected_status_code r)
     else Inr (status < 400))"

definition set_verdict :: "int \<Rightarrow> bool \<Rightarrow> nat \<Rightarrow> world \<Rightarrow> world" where
  "set_verdict stream_id b = upd_stream stream_id (\<lambda>s. s \<lparr> status_success := (if b then 1 else 0) \<rparr>)"

definition inc_status_counter_and_validate_response ::
  "load_config \<Rightarrow> (nat \<Rightarrow> client_env) \<Rightarrow> int \<Rightarrow> nat \<Rightarrow> world \<Rightarrow> world result" where
  "inc_status_counter_and_validate_response conf env stream_id i w =
    (case omap_find int_less (streams (cl w i)) stream_id of
       None \<Rightarrow> Inr w
     | Some s \<Rightarrow>
        (if \<not> statistics_eligible s then Inr (set_verdict stream_id True i w)
         else
           let status = rs_status (req_stat s); w1 = upd_stats (count_status status) w in
           case omap_find int_less (requests_awaiting_response (cl w i)) stream_id of
             None \<Rightarrow> Inr (set_verdict stream_id (status < 400) i w1)
           | Some r \<Rightarrow>
               let w2 = count_scenario (scenario_index r) (curr_request_idx r) (count_status status) w1 in
               andthen (template_at (scenarios_of conf) (scenario_index r) (curr_request_idx r)) (\<lambda>t.
               andthen (judge (env (calls w2)) t r status) (\<lambda>b.
                 Inr (set_verdict stream_id b i (called w2))))))"

section \<open>Closing a stream\<close>

text \<open>\<^verbatim>\<open>update_scenario_based_stats\<close>, which trusts the indices.\<close>

definition update_scenario_based_stats :: "nat \<Rightarrow> nat \<Rightarrow> bool \<Rightarrow> bool \<Rightarrow> world \<Rightarrow> world result" where
  "update_scenario_based_stats s r success status_ok w =
    (if scenario_stats (wk w) = [] then Inr w
     else if s < length (scenario_stats (wk w)) \<and> r < length (scenario_stats (wk w) ! s)
       then Inr (count_scenario s r (count_close success status_ok) w)
     else Inl Out_Of_Range)"

text \<open>A successful request is sampled; the number of samples seen is counted up here and in \<open>sample\<close>.\<close>

definition sample_request :: "(nat \<Rightarrow> client_env) \<Rightarrow> request_stat \<Rightarrow> world \<Rightarrow> world" where
  "sample_request env rs w =
     upd_worker (\<lambda>k.
       let r = sample (sample_draw (env (calls w))) (request_times_smp k) (req_stats (w_stats k)) rs in
       k \<lparr> request_times_smp := (fst r) \<lparr> smp_n := smp_n (fst r) + 1 \<rparr>,
           w_stats := (w_stats k) \<lparr> req_stats := snd r \<rparr> \<rparr>) (called w)"

text \<open>The statistics of an eligible stream.\<close>

definition count_eligible_close :: "(nat \<Rightarrow> client_env) \<Rightarrow> int \<Rightarrow> stream \<Rightarrow> bool \<Rightarrow> request_data option \<Rightarrow> nat \<Rightarrow> world
    \<Rightarrow> world result" where
  "count_eligible_close env stream_id s success finished i w =
    (let status_ok = (status_success s = 1);
         w1 = (if success then
                 sample_request env ((req_stat s) \<lparr> completed := True \<rparr>)
                  (upd i (\<lambda>c. c \<lparr> cstat := (cstat c) \<lparr> cs_req_success := cs_req_success (cstat c) + 1 \<rparr> \<rparr>)
                    (upd_stream stream_id (\<lambda>s. s \<lparr> req_stat := (req_stat s) \<lparr> completed := True \<rparr> \<rparr>) i w))
               else w);
         w2 = upd i (\<lambda>c. c \<lparr> cl_req_done := cl_req_done c + 1 \<rparr>) (upd_stats (count_close success status_ok) w1)
     in case finished of
          None \<Rightarrow> Inr w2
        | Some r \<Rightarrow> update_scenario_based_stats (scenario_index r) (curr_request_idx r) success status_ok w2)"

text \<open>The first half of \<^verbatim>\<open>on_stream_close\<close>; \<open>None\<close> is the early return for an unknown stream.\<close>

definition count_stream_close :: "load_config \<Rightarrow> (nat \<Rightarrow> client_env) \<Rightarrow> int \<Rightarrow> bool \<Rightarrow> nat \<Rightarrow> world
    \<Rightarrow> (bool \<times> world) result" where
  "count_stream_close conf env stream_id success i w =
    (if \<not> eligible_phase (phase_of w) then Inr (True, w)
     else
       let w1 = upd i (\<lambda>c. c \<lparr> req_inflight := req_inflight c - 1,
             rps_req_inflight := (if rps_mode conf then rps_req_inflight c - 1 else rps_req_inflight c) \<rparr>) w in
       case omap_find int_less (streams (cl w1 i)) stream_id of
         None \<Rightarrow> Inr (False, w1)
       | Some s \<Rightarrow>
           if statistics_eligible s then
             andthen (count_eligible_close env stream_id s success
                 (omap_find int_less (requests_awaiting_response (cl w1 i)) stream_id) i w1) (\<lambda>w2. Inr (True, w2))
           else Inr (True, w1))"

text \<open>The request that follows is put into the queue of the controlling client.\<close>

definition controller_of :: "nat \<Rightarrow> world \<Rightarrow> nat" where
  "controller_of i w = (case parent_client (cl w i) of Some p \<Rightarrow> p | None \<Rightarrow> i)"

definition follow_up :: "load_config \<Rightarrow> (nat \<Rightarrow> client_env) \<Rightarrow> int \<Rightarrow> nat \<Rightarrow> world \<Rightarrow> world result" where
  "follow_up conf env stream_id i w =
    (case omap_find int_less (requests_awaiting_response (cl w i)) stream_id of
       None \<Rightarrow> Inr w
     | Some r \<Rightarrow>
         andthen (vec_at (scenarios_of conf) (scenario_index r)) (\<lambda>s.
         andthen
          (if run_requests_in_parallel s then Inr w
           else
             let e = env (calls w); p = controller_of i w in
             andthen (prepare_next_request e (now e) (scenarios_of conf) (cl_schema (cl w i)) (cl_authority (cl w i)) r
                 (source (cl w p)))
               (\<lambda>(_, _, src). Inr (upd p (\<lambda>c. c \<lparr> source := src \<rparr>) (called w))))
          (\<lambda>w1. Inr (upd i (\<lambda>c. c \<lparr> requests_awaiting_response :=
             omap_erase int_less (requests_awaiting_response c) stream_id \<rparr>) w1))))"

text \<open>The end of \<^verbatim>\<open>on_stream_close\<close>: finish the client, or send the next request.\<close>

definition after_close :: "load_config \<Rightarrow> (nat \<Rightarrow> client_env) \<Rightarrow> bool \<Rightarrow> nat \<Rightarrow> world \<Rightarrow> world result" where
  "after_close conf env final i w =
    (if req_left (cl w i) = 0 \<and> req_inflight (cl w i) = 0 then
       terminate_session i (setup_graceful_shutdown i w)
     else if \<not> final \<and> req_left (cl w i) > 0 then
       (if timing_script conf then Inr (post (Activity_Timeout i) w)
        else if \<not> rps_mode conf then andthen (submit_request conf env i w) (\<lambda>(_, w1). Inr w1)
        else if rps_req_pending (cl w i) \<noteq> 0 then
          andthen (submit_request conf env i w) (\<lambda>(rv, w1).
            Inr (if rv = 0 then upd i (\<lambda>c. c \<lparr> rps_req_pending := sub64 (rps_req_pending c) 1 \<rparr>) w1 else w1))
        else Inr w)
     else Inr w)"

definition on_stream_close :: "load_config \<Rightarrow> (nat \<Rightarrow> client_env) \<Rightarrow> int \<Rightarrow> bool \<Rightarrow> bool \<Rightarrow> nat \<Rightarrow> world \<Rightarrow> world result" where
  "on_stream_close conf env stream_id success final i w =
    (let t = now (env (calls w));
         w1 = upd_stream stream_id (\<lambda>s. s \<lparr> req_stat := (req_stat s) \<lparr> stream_close_time := t \<rparr> \<rparr>) i (called w) in
     andthen (inc_status_counter_and_validate_response conf env stream_id i w1) (\<lambda>w2.
     andthen (count_stream_close conf env stream_id success i w2) (\<lambda>(known, w3).
       if \<not> known then Inr w3
       else
         andthen (follow_up conf env stream_id i w3) (\<lambda>w4.
           after_close conf env final i (upd i (\<lambda>c. c \<lparr> streams := omap_erase int_less (streams c) stream_id \<rparr>) w4)))))"

section \<open>Timeouts and timers\<close>

fun reset_streams :: "int list \<Rightarrow> nat \<Rightarrow> world \<Rightarrow> bool \<Rightarrow> (bool \<times> world) result" where
  "reset_streams [] i w signal = Inr (signal, w)"
| "reset_streams (s # ss) i w signal =
     (case omap_find int_less (streams (cl w i)) s of
        None \<Rightarrow> reset_streams ss i w signal
      | Some x \<Rightarrow>
          if session (cl w i) = None then Inl Null_Dereference
          else reset_streams ss i
            (if statistics_eligible x then upd_stats (\<lambda>s. s \<lparr> req_timedout := req_timedout s + 1 \<rparr>) w else w) True)"

definition reset_timeout_requests :: "(nat \<Rightarrow> client_env) \<Rightarrow> nat \<Rightarrow> world \<Rightarrow> world result" where
  "reset_timeout_requests env i w =
    (if stream_timestamp (cl w i) = [] then Inr w
     else
       let due = takeWhile (\<lambda>(t, _). t \<le> now (env (calls w))) (stream_timestamp (cl w i));
           w1 = upd i (\<lambda>c. c \<lparr> stream_timestamp := drop (length due) (stream_timestamp c) \<rparr>) (called w)
       in andthen (reset_streams (map snd due) i w1 False)
            (\<lambda>(signal, w2). Inr (if signal then signal_write i w2 else w2)))"

fun submit_at_rate :: "load_config \<Rightarrow> (nat \<Rightarrow> client_env) \<Rightarrow> nat \<Rightarrow> nat \<Rightarrow> world \<Rightarrow> world result" where
  "submit_at_rate conf env i 0 w = Inr w"
| "submit_at_rate conf env i (Suc n) w =
     andthen (submit_request conf env i w) (\<lambda>(rv, w1).
       if rv \<noteq> 0 then Inr w1
       else submit_at_rate conf env i n (upd i (\<lambda>c. c \<lparr> rps_req_inflight := rps_req_inflight c + 1,
         rps_req_pending := sub64 (rps_req_pending c) 1 \<rparr>) w1))"

definition on_rps_timer :: "load_config \<Rightarrow> (nat \<Rightarrow> client_env) \<Rightarrow> nat \<Rightarrow> world \<Rightarrow> world result" where
  "on_rps_timer conf env i w0 =
     andthen (reset_timeout_requests env i w0) (\<lambda>w.
       if timing_script conf then Inl Assertion
       else if state (cl w i) \<noteq> CLIENT_CONNECTED then Inr w
       else if req_left (cl w i) = 0 then Inr (stop_timer Rps_Timer i w)
       else case rps_due (env (calls w)) of
           None \<Rightarrow> Inr (called w)
         | Some n \<Rightarrow>
            (let w1 = upd i (\<lambda>c. c \<lparr> rps_req_pending := n \<rparr>) (called w) in
             if n = 0 then Inr w1
             else if session (cl w1 i) = None then Inl Null_Dereference
             else
               let nreq = sub64 (max_concurrent_streams_opt conf) (length (streams (cl w1 i))) in
               if nreq = 0 then Inr w1
               else submit_at_rate conf env i
                 (min (if is_timing_based_mode conf then max nreq (req_left (cl w1 i)) else min nreq (req_left (cl w1 i))) n) w1))"

section \<open>A connection is there\<close>

text \<open>The requests a new connection has been waiting for go back to the front of the parent's queue,
  last first; \<open>n\<close> bounds the loop by the number of such requests.\<close>

fun requeue :: "load_config \<Rightarrow> (nat \<Rightarrow> client_env) \<Rightarrow> nat \<Rightarrow> nat \<Rightarrow> nat \<Rightarrow> world \<Rightarrow> world result" where
  "requeue conf env p i 0 w = Inr w"
| "requeue conf env p i (Suc n) w =
    (let q = requests_to_submit (source (cl w i)) in
     if q = [] then Inr w
     else
       let w1 = upd p (\<lambda>c. c \<lparr> source := (source c) \<lparr> requests_to_submit := last q # requests_to_submit (source c) \<rparr> \<rparr>)
             (upd i (\<lambda>c. c \<lparr> source := (source c) \<lparr> requests_to_submit := butlast q \<rparr> \<rparr>) w)
       in if rps_mode conf then requeue conf env p i n w1
          else andthen (submit_request conf env p w1) (\<lambda>(rv, w2).
            if rv \<noteq> 0 then Inr w2 else requeue conf env p i n w2))"

text \<open>The loop over a timing script; it ends at the latest when the index has gone once around.\<close>

fun submit_by_script :: "load_config \<Rightarrow> (nat \<Rightarrow> client_env) \<Rightarrow> nat \<Rightarrow> nat \<Rightarrow> world \<Rightarrow> (bool \<times> world) result" where
  "submit_by_script conf env i 0 w = Inr (\<not> timing_due conf (reqidx (cl w i)), w)"
| "submit_by_script conf env i (Suc n) w =
    (if timing_due conf (reqidx (cl w i)) then
       andthen (submit_request conf env i w) (\<lambda>(rv, w1).
         if rv \<noteq> 0 then Inr (\<not> timing_due conf (reqidx (cl w i)), w1)
         else if reqidx (cl w1 i) = 0 then Inr (\<not> timing_due conf 0, w1)
         else submit_by_script conf env i n w1)
     else Inr (True, w))"

definition first_requests :: "load_config \<Rightarrow> (nat \<Rightarrow> client_env) \<Rightarrow> nat \<Rightarrow> world \<Rightarrow> world result" where
  "first_requests conf env i w =
    (if rps_mode conf then
       (if req_left (cl w i) = 0 then Inl Assertion
        else andthen (submit_request conf env i (upd i (\<lambda>c. c \<lparr> rps_req_inflight := rps_req_inflight c + 1 \<rparr>) w))
               (\<lambda>(_, w1). Inr w1))
     else if \<not> timing_script conf then
       submit_up_to conf env i
         (if is_timing_based_mode conf then max (req_left (cl w i)) (max_concurrent_streams_opt conf)
          else min (req_left (cl w i)) (max_concurrent_streams_opt conf)) w
     else
       andthen (submit_by_script conf env i (nva_size conf) w) (\<lambda>(wait, w1).
         Inr (if wait then start_timer Timing_Script_Timer i w1 else w1)))"

text \<open>\<^verbatim>\<open>connection_made\<close> up to the point where requests are sent.\<close>

definition enter_connection :: "(nat \<Rightarrow> client_env) \<Rightarrow> nat \<Rightarrow> world \<Rightarrow> world" where
  "enter_connection env i w =
    (let t = now (env (calls w)); c = cl w i;
         w1 = upd_worker (\<lambda>k. k \<lparr>
                client_pool := omap_set str_less (client_pool k) (dest_of c)
                  (List.insert i (case omap_find str_less (client_pool k) (dest_of c) of Some cs \<Rightarrow> cs | None \<Rightarrow> [])),
                client_ids := omap_set nat_less (client_ids k) (my_id c) i \<rparr>) (called w);
         w2 = signal_write i (upd i (\<lambda>c. c \<lparr> session := Some \<lparr> curr_stream_id = 0, terminating = False \<rparr>,
                state := CLIENT_CONNECTED \<rparr>) w1)
     in update_this_in_dest_client_map i
          (upd i (\<lambda>c. c \<lparr> cstat := (cstat c) \<lparr> connect_time := t \<rparr> \<rparr>) w2))"

definition connection_made :: "load_config \<Rightarrow> (nat \<Rightarrow> client_env) \<Rightarrow> nat \<Rightarrow> world \<Rightarrow> (int \<times> world) result" where
  "connection_made conf env i w0 =
    (let w = stop_timer Connect_Timer i w0 in
     if \<not> http2_negotiated (env (calls w)) then Inr (-1, disconnect env i (called w))
     else
       let w1 = enter_connection env i w in
       case parent_client (cl w1 i) of
         Some p \<Rightarrow>
           andthen (requeue conf env p i (length (requests_to_submit (source (cl w1 i)))) w1) (\<lambda>w2. Inr (0, w2))
       | None \<Rightarrow>
           (let w2 = start_timer Delay_Request_Timer i w1;
                w3 = (if rps_mode conf then start_timer Rps_Timer i w2 else w2);
                w4 = start_timer Stream_Timeout_Timer i w3
            in andthen (first_requests conf env i w4) (\<lambda>w5.
              let w6 = signal_write i w5; c = cl w6 i in
              Inr (0, if cl_authority c \<noteq> preferred_authority c \<and> connect_back_to_preferred_host conf \<and>
                    \<not> is_test_finished i w6
                  then start_timer Preferred_Host_Timer i w6 else w6))))"

text \<open>\<^verbatim>\<open>connected\<close> and what its callers do when it fails.\<close>

definition connected :: "load_config \<Rightarrow> (nat \<Rightarrow> client_env) \<Rightarrow> nat \<Rightarrow> world \<Rightarrow> world result" where
  "connected conf env i w =
     andthen (connection_made conf env i (upd i (\<lambda>c. c \<lparr> is_client_stopped := False \<rparr>) w)) (\<lambda>(rv, w1).
       if rv \<noteq> 0 then handle_connection_error conf env i w1 else Inr w1)"

definition restart_timeout_timer :: "load_config \<Rightarrow> nat \<Rightarrow> world \<Rightarrow> world" where
  "restart_timeout_timer conf i w =
    (let w1 = (if conn_inactivity_timeout_positive conf then start_timer Conn_Inactivity_Timer i w else w)
     in if ping_interval_positive conf then start_timer Ping_Timer i w1 else w1)"

text \<open>\<^verbatim>\<open>handle_write_complete\<close> without an error: the callback runs once.\<close>

definition handle_write_complete :: "load_config \<Rightarrow> (nat \<Rightarrow> client_env) \<Rightarrow> nat \<Rightarrow> world \<Rightarrow> world result" where
  "handle_write_complete conf env i w0 =
    (let w = restart_timeout_timer conf i w0;
         w1 = upd i (\<lambda>c. c \<lparr> write_clear_callback := None \<rparr>) w in
     case write_clear_callback (cl w i) of
       None \<Rightarrow> Inr w
     | Some Shutdown_When_Written \<Rightarrow> Inr (post (Free_Client i) (disconnect env i w1))
     | Some Restart_When_Written \<Rightarrow>
        (let w2 = disconnect env i w1 in
         connect_to_host env (cl_schema (cl w2 i)) (cl_authority (cl w2 i)) i w2))"

end
