(* ===== verification/Worker.thy ===== *)
theory Worker
  imports Client
begin

text \<open>
  The worker (\<^verbatim>\<open>src/base_worker.cc\<close>, the timers of \<^verbatim>\<open>src/asio_worker.cc\<close>): it creates the clients and
  shares the requests among them, moves through the phases of a timed test, and frees clients. The
  events that the event loop delivers to clients and worker form a step relation; runs of it are
  what the invariants of the load generator are about.
\<close>

section \<open>Starting\<close>

definition init_worker :: "load_config \<Rightarrow> nat \<Rightarrow> nat \<Rightarrow> nat \<Rightarrow> nat \<Rightarrow> nat \<Rightarrow> worker result" where
  "init_worker conf wid todo ncl rt max_smp =
    (if ncl = 0 then Inl Division_By_Zero
     else Inr \<lparr> w_stats = stats_of todo,
        scenario_stats = map (\<lambda>s. map (\<lambda>_. stats_of todo) (requests s)) (scenarios_of conf),
        request_times_smp = sampling_init max_smp, client_smp = sampling_init max_smp,
        worker_id = wid, nconns_made = 0, nclients = ncl, nreqs_per_client = todo div ncl, nreqs_rem = todo mod ncl,
        rate = rt, current_phase = (if is_timing_based_mode conf then INITIAL_IDLE else MAIN_DURATION),
        w_clients = [], managed_clients = [], client_pool = [], client_ids = [],
        rate_timer = False, warmup_timer = False, duration_timer = False \<rparr>)"

text \<open>The next share of the requests.\<close>

definition next_share :: "worker \<Rightarrow> nat \<times> worker" where
  "next_share k = (if nreqs_rem k > 0 then (nreqs_per_client k + 1, k \<lparr> nreqs_rem := nreqs_rem k - 1 \<rparr>)
     else (nreqs_per_client k, k))"

definition create_with_share :: "load_config \<Rightarrow> (nat \<Rightarrow> client_env) \<Rightarrow> world \<Rightarrow> (nat \<times> world) result" where
  "create_with_share conf env w =
    (case next_share (wk w) of (todo, k) \<Rightarrow> new_client conf env todo None [] [] (w \<lparr> wk := k \<rparr>))"

fun run_clients :: "load_config \<Rightarrow> (nat \<Rightarrow> client_env) \<Rightarrow> nat \<Rightarrow> world \<Rightarrow> world result" where
  "run_clients conf env 0 w = Inr w"
| "run_clients conf env (Suc n) w =
     andthen (create_with_share conf env w) (\<lambda>(i, w1).
     andthen (connect conf env i w1) (\<lambda>(rv, w2).
       run_clients conf env n (check_in_client i (if rv \<noteq> 0 then fail conf env i w2 else w2))))"

fun rate_clients :: "load_config \<Rightarrow> (nat \<Rightarrow> client_env) \<Rightarrow> nat \<Rightarrow> world \<Rightarrow> world result" where
  "rate_clients conf env 0 w = Inr w"
| "rate_clients conf env (Suc n) w =
     andthen (create_with_share conf env w) (\<lambda>(i, w1).
     andthen (connect conf env i (upd_worker (\<lambda>k. k \<lparr> nconns_made := nconns_made k + 1 \<rparr>) w1)) (\<lambda>(rv, w2).
       rate_clients conf env n
        (if rv \<noteq> 0 then destroy_client env i (fail conf env i w2)
         else check_in_client i
           (if is_timing_based_mode conf then upd_worker (\<lambda>k. k \<lparr> w_clients := w_clients k @ [Some i] \<rparr>) w2 else w2))))"

definition rate_period_timeout_handler :: "load_config \<Rightarrow> (nat \<Rightarrow> client_env) \<Rightarrow> world \<Rightarrow> world result" where
  "rate_period_timeout_handler conf env w =
     andthen (rate_clients conf env (min (rate (wk w)) (sub64 (nclients (wk w)) (nconns_made (wk w)))) w) (\<lambda>w1.
       if nconns_made (wk w1) \<ge> nclients (wk w1) then
         (if is_timing_based_mode conf \<and> nclients (wk w1) \<noteq> length (w_clients (wk w1)) then Inl Exit_Failure
          else Inr (upd_worker (\<lambda>k. k \<lparr> rate_timer := False \<rparr>) w1))
       else Inr w1)"

definition run :: "load_config \<Rightarrow> (nat \<Rightarrow> client_env) \<Rightarrow> world \<Rightarrow> world result" where
  "run conf env w =
    (if \<not> is_rate_mode conf \<and> \<not> is_timing_based_mode conf then run_clients conf env (nclients (wk w)) w
     else if is_rate_mode conf then
       rate_period_timeout_handler conf env (upd_worker (\<lambda>k. k \<lparr> rate_timer := True \<rparr>) w)
     else rate_period_timeout_handler conf env w)"

section \<open>Phases\<close>

fun stop_clients :: "nat list \<Rightarrow> world \<Rightarrow> world result" where
  "stop_clients [] w = Inr w"
| "stop_clients (i # is) w = andthen (terminate_session i (setup_graceful_shutdown i w)) (stop_clients is)"

definition stop_all_clients :: "world \<Rightarrow> world result" where
  "stop_all_clients w = stop_clients (concat (map snd (client_pool (wk w)))) w"

definition duration_timeout_handler :: "load_config \<Rightarrow> world \<Rightarrow> world result" where
  "duration_timeout_handler conf w =
    (if phase_of w = MAIN_DURATION \<and> scenarios_of conf \<noteq> [] then
       Inr (upd_worker (\<lambda>k. k \<lparr> current_phase := MAIN_DURATION_GRACEFUL_SHUTDOWN, duration_timer := True \<rparr>) w)
     else
       andthen (stop_all_clients (upd_worker (\<lambda>k. k \<lparr> current_phase := DURATION_OVER \<rparr>) w))
         (\<lambda>w1. Inr (upd_worker (\<lambda>k. k \<lparr> rate_timer := False \<rparr>) w1)))"

text \<open>\<open>untouched\<close> is what the assertions on a client demand.\<close>

definition untouched :: "client \<Rightarrow> bool" where
  "untouched c \<longleftrightarrow> cl_req_todo c = 0 \<and> req_left c = 1 \<and> req_inflight c = 0 \<and> cl_req_started c = 0 \<and> cl_req_done c = 0"

fun start_measuring :: "nat \<Rightarrow> nat option list \<Rightarrow> world \<Rightarrow> world result" where
  "start_measuring t [] w = Inr w"
| "start_measuring t (None # cs) w = start_measuring t cs w"
| "start_measuring t (Some i # cs) w =
     (if \<not> untouched (cl w i) then Inl Assertion
      else start_measuring t cs (restart_connect_times t i (record_client_start_time t i w)))"

definition warmup_timeout_handler :: "(nat \<Rightarrow> client_env) \<Rightarrow> world \<Rightarrow> world result" where
  "warmup_timeout_handler env w =
    (if req_started (w_stats (wk w)) \<noteq> 0 \<or> req_done (w_stats (wk w)) \<noteq> 0 then Inl Assertion
     else andthen (start_measuring (now (env (calls w))) (w_clients (wk w)) (called w))
       (\<lambda>w1. Inr (upd_worker (\<lambda>k. k \<lparr> current_phase := MAIN_DURATION, duration_timer := True \<rparr>) w1)))"

section \<open>The start of a run\<close>

definition init_world :: "load_config \<Rightarrow> worker \<Rightarrow> world" where
  "init_world conf k = \<lparr> wk = k, cl = (\<lambda>_. fresh_client conf 0 0 None [] [] []), n_created = 0, tasks = [], calls = 0,
     sched = None, shared_hosts = None \<rparr>"

section \<open>Handlers of the event loop\<close>

definition start_conn_active_watcher :: "load_config \<Rightarrow> nat \<Rightarrow> world \<Rightarrow> world" where
  "start_conn_active_watcher conf i w =
    (if conn_active_timeout_positive conf then start_timer Conn_Activity_Timer i w else w)"

definition handle_con_activity_timer_timeout :: "load_config \<Rightarrow> (nat \<Rightarrow> client_env) \<Rightarrow> nat \<Rightarrow> world \<Rightarrow> world" where
  "handle_con_activity_timer_timeout conf env i w = start_conn_active_watcher conf i (timeout conf env i w)"

definition handle_rps_timer_timeout :: "load_config \<Rightarrow> (nat \<Rightarrow> client_env) \<Rightarrow> nat \<Rightarrow> world \<Rightarrow> world result" where
  "handle_rps_timer_timeout conf env i w = on_rps_timer conf env i (start_timer Rps_Timer i w)"

definition handle_stream_timeout_timer_timeout :: "(nat \<Rightarrow> client_env) \<Rightarrow> nat \<Rightarrow> world \<Rightarrow> world result" where
  "handle_stream_timeout_timer_timeout env i w =
     andthen (reset_timeout_requests env i w) (\<lambda>w1. Inr (start_timer Stream_Timeout_Timer i w1))"

definition handle_request_execution_timer_timeout :: "(nat \<Rightarrow> client_env) \<Rightarrow> nat \<Rightarrow> world \<Rightarrow> world" where
  "handle_request_execution_timer_timeout env i w =
     start_timer Delay_Request_Timer i
       (upd i (\<lambda>c. c \<lparr> source := resume_delayed_request_execution (now (env (calls w))) (source c) \<rparr>) (called w))"

definition submit_ping :: "nat \<Rightarrow> world \<Rightarrow> world result" where
  "submit_ping i w = (if session (cl w i) = None then Inl Null_Dereference else Inr (signal_write i w))"

definition handle_ping_timeout :: "load_config \<Rightarrow> nat \<Rightarrow> world \<Rightarrow> world result" where
  "handle_ping_timeout conf i w =
     andthen (submit_ping i w) (\<lambda>w1. Inr (if ping_interval_positive conf then start_timer Ping_Timer i w1 else w1))"

text \<open>The probe that this handler starts reports through \<^verbatim>\<open>on_prefered_host_up\<close>.\<close>

definition connect_to_prefered_host_timer_handler :: "nat \<Rightarrow> world \<Rightarrow> world" where
  "connect_to_prefered_host_timer_handler i w =
    (if state (cl w i) \<noteq> CLIENT_CONNECTED \<or> cl_authority (cl w i) = preferred_authority (cl w i) then w
     else start_timer Preferred_Host_Timer i w)"

text \<open>\<open>parsed\<close> is whether the session could process the bytes; the callbacks it makes are events of
  their own.\<close>

definition handle_read_complete :: "load_config \<Rightarrow> (nat \<Rightarrow> client_env) \<Rightarrow> nat \<Rightarrow> bool \<Rightarrow> nat \<Rightarrow> world \<Rightarrow> world result" where
  "handle_read_complete conf env bytes parsed i w =
    (if session (cl w i) = None then Inr w
     else
       let w1 = restart_timeout_timer conf i (upd_stats (\<lambda>s. s \<lparr> bytes_total := bytes_total s + int bytes \<rparr>) w)
       in if parsed then Inr w1 else handle_connection_error conf env i w1)"

text \<open>A posted task: the output of the session is not part of this model; the handler that
  \<^verbatim>\<open>feed_timing_script_request_timeout_timer\<close> posts is called with an error code and returns at once.\<close>

definition run_task :: "(nat \<Rightarrow> client_env) \<Rightarrow> task \<Rightarrow> world \<Rightarrow> world" where
  "run_task env t w =
    (case t of
       Write_Signal i \<Rightarrow> upd i (\<lambda>c. c \<lparr> write_signaled := False \<rparr>) w
     | Free_Client i \<Rightarrow> free_client env i w
     | Activity_Timeout i \<Rightarrow> w)"

definition run_tasks :: "(nat \<Rightarrow> client_env) \<Rightarrow> world \<Rightarrow> world" where
  "run_tasks env w = (case tasks w of [] \<Rightarrow> w | t # ts \<Rightarrow> run_task env t (w \<lparr> tasks := ts \<rparr>))"

section \<open>Events\<close>

text \<open>What the event loop delivers to a client, and to the worker.\<close>

datatype client_event =
    Connection_Up
  | Connection_Error
  | Bytes_Read nat bool
  | Bytes_Written
  | Header_Block int bool
  | Header_Field int string string
  | Data_Chunk int string
  | Stream_Closed int bool
  | Timer_Fired timer
  | Preferred_Host_Up

datatype event =
    Client_Event nat client_event
  | Rate_Period
  | Warm_Up_Over
  | Duration_Over
  | Posted_Task

definition handle_timer :: "load_config \<Rightarrow> (nat \<Rightarrow> client_env) \<Rightarrow> timer \<Rightarrow> nat \<Rightarrow> world \<Rightarrow> world result" where
  "handle_timer conf env t i w0 =
    (let w = stop_timer t i w0 in
     case t of
       Connect_Timer \<Rightarrow> handle_connection_error conf env i w
     | Rps_Timer \<Rightarrow> handle_rps_timer_timeout conf env i w
     | Stream_Timeout_Timer \<Rightarrow> handle_stream_timeout_timer_timeout env i w
     | Delay_Request_Timer \<Rightarrow> Inr (handle_request_execution_timer_timeout env i w)
     | Delayed_Reconnect_Timer \<Rightarrow> reconnect_to_used_host env i w
     | Conn_Activity_Timer \<Rightarrow> Inr (handle_con_activity_timer_timeout conf env i w)
     | Conn_Inactivity_Timer \<Rightarrow>
         Inr (if Conn_Activity_Timer \<in> set (timers (cl w i)) then w else handle_con_activity_timer_timeout conf env i w)
     | Ping_Timer \<Rightarrow> handle_ping_timeout conf i w
     | Preferred_Host_Timer \<Rightarrow> Inr (connect_to_prefered_host_timer_handler i w)
     | Ssl_Handshake_Timer \<Rightarrow> handle_connection_error conf env i w
     | Timing_Script_Timer \<Rightarrow> Inr w)"

definition handle_client :: "load_config \<Rightarrow> (nat \<Rightarrow> client_env) \<Rightarrow> client_event \<Rightarrow> nat \<Rightarrow> world \<Rightarrow> world result" where
  "handle_client conf env ev i w =
    (case ev of
       Connection_Up \<Rightarrow> connected conf env i w
     | Connection_Error \<Rightarrow> handle_connection_error conf env i w
     | Bytes_Read n parsed \<Rightarrow> handle_read_complete conf env n parsed i w
     | Bytes_Written \<Rightarrow> handle_write_complete conf env i w
     | Header_Block s end_stream \<Rightarrow> Inr (on_header_frame_begin s end_stream i w)
     | Header_Field s n v \<Rightarrow> on_header s n v i w
     | Data_Chunk s d \<Rightarrow> Inr (on_data_chunk s d i w)
     | Stream_Closed s success \<Rightarrow> on_stream_close conf env s success False i w
     | Timer_Fired t \<Rightarrow> handle_timer conf env t i w
     | Preferred_Host_Up \<Rightarrow> on_prefered_host_up env i w)"

definition handle :: "load_config \<Rightarrow> (nat \<Rightarrow> client_env) \<Rightarrow> event \<Rightarrow> world \<Rightarrow> world result" where
  "handle conf env ev w =
    (case ev of
       Client_Event i e \<Rightarrow> handle_client conf env e i w
     | Rate_Period \<Rightarrow> rate_period_timeout_handler conf env w
     | Warm_Up_Over \<Rightarrow> warmup_timeout_handler env (upd_worker (\<lambda>k. k \<lparr> warmup_timer := False \<rparr>) w)
     | Duration_Over \<Rightarrow> duration_timeout_handler conf (upd_worker (\<lambda>k. k \<lparr> duration_timer := False \<rparr>) w)
     | Posted_Task \<Rightarrow> Inr (run_tasks env w))"

text \<open>When an event can occur: the client exists, its timers are only served while it is not
  stopped, a connection comes up only while it is being opened, the session reports only on streams
  that were opened by the client and have not been closed (server push is disabled). Timing scripts are followed only up to
  the first requests.\<close>

definition client_enabled :: "client_event \<Rightarrow> nat \<Rightarrow> world \<Rightarrow> bool" where
  "client_enabled ev i w \<longleftrightarrow> i \<in> set (managed_clients (wk w)) \<and>
    (case ev of
       Connection_Up \<Rightarrow> state (cl w i) = CLIENT_CONNECTING
     | Header_Block s _ \<Rightarrow> session (cl w i) \<noteq> None
     | Header_Field s _ _ \<Rightarrow> session (cl w i) \<noteq> None
     | Data_Chunk s _ \<Rightarrow> session (cl w i) \<noteq> None
     | Stream_Closed s _ \<Rightarrow> session (cl w i) \<noteq> None \<and> omap_find int_less (streams (cl w i)) s \<noteq> None
     | Timer_Fired t \<Rightarrow> t \<in> set (timers (cl w i)) \<and> t \<noteq> Timing_Script_Timer \<and> \<not> is_client_stopped (cl w i)
     | _ \<Rightarrow> True)"

definition enabled :: "event \<Rightarrow> world \<Rightarrow> bool" where
  "enabled ev w =
    (case ev of
       Client_Event i e \<Rightarrow> client_enabled e i w
     | Rate_Period \<Rightarrow> rate_timer (wk w)
     | Warm_Up_Over \<Rightarrow> warmup_timer (wk w)
     | Duration_Over \<Rightarrow> duration_timer (wk w)
     | Posted_Task \<Rightarrow> True)"

text \<open>The worlds a run goes through.\<close>

inductive reachable :: "load_config \<Rightarrow> (nat \<Rightarrow> client_env) \<Rightarrow> world \<Rightarrow> world \<Rightarrow> bool"
  for conf env w0 where
  started: "run conf env w0 = Inr w \<Longrightarrow> reachable conf env w0 w"
| event: "reachable conf env w0 w \<Longrightarrow> enabled ev w \<Longrightarrow> handle conf env ev w = Inr w' \<Longrightarrow> reachable conf env w0 w'"

end
