(* ===== verification/Runs.thy ===== *)
theory Runs
  imports Worker
begin

text \<open>
  How the events of a run change what is counted. Most of what the handlers do is quiet: it leaves
  the counters, the open streams and the phase alone. What is not quiet is listed as the
  assumptions of a locale, in which every event of a client is shown to respect any relation that
  contains the quiet changes and those listed. The theories of the statistics and of the limits are
  interpretations of it.
\<close>

section \<open>Quiet changes\<close>

named_theorems quiet_intros \<open>introduction rules: an operation is quiet\<close>

definition stream_view :: "client \<Rightarrow> (int \<times> bool) list" where
  "stream_view c = map (\<lambda>(s, x). (s, statistics_eligible x)) (streams c)"

definition counters :: "client \<Rightarrow> nat list" where
  "counters c = [cl_req_todo c, req_left c, req_inflight c, cl_req_started c, cl_req_done c]"

definition tallies :: "stats \<Rightarrow> nat list" where
  "tallies s = [req_started s, req_done s, req_success s, req_status_success s, req_failed s, req_error s,
     length (status_count s), req_todo s]"

definition stream_id_of :: "client \<Rightarrow> int" where
  "stream_id_of c = (case session c of None \<Rightarrow> 0 | Some s \<Rightarrow> curr_stream_id s)"

definition calm :: "client \<Rightarrow> client \<Rightarrow> bool" where
  "calm c c' \<longleftrightarrow> stream_view c' = stream_view c \<and> counters c' = counters c \<and> dest_clients c' = dest_clients c \<and>
     parent_client c' = parent_client c \<and> (session c' \<noteq> None \<longrightarrow> session c \<noteq> None) \<and>
     (stream_id_of c' = stream_id_of c \<or> stream_id_of c' = 0)"

definition shares :: "worker \<Rightarrow> nat list" where
  "shares k = [nconns_made k, nclients k, nreqs_per_client k, nreqs_rem k, rate k]"

definition clock :: "worker \<Rightarrow> phase \<times> bool list" where
  "clock k = (current_phase k, [warmup_timer k, duration_timer k, rate_timer k])"

text \<open>The clients the worker knows.\<close>

definition roster :: "worker \<Rightarrow> nat set" where
  "roster k = set (managed_clients k) \<union> {i. Some i \<in> set (w_clients k)}"

definition calm_worker :: "worker \<Rightarrow> worker \<Rightarrow> bool" where
  "calm_worker k k' \<longleftrightarrow> tallies (w_stats k') = tallies (w_stats k) \<and>
     map (map tallies) (scenario_stats k') = map (map tallies) (scenario_stats k) \<and>
     shares k' = shares k \<and> clock k' = clock k \<and> roster k' \<subseteq> roster k \<and> w_clients k' = w_clients k"

definition quiet :: "world \<Rightarrow> world \<Rightarrow> bool" where
  "quiet w w' \<longleftrightarrow> calm_worker (wk w) (wk w') \<and> n_created w' = n_created w \<and> (\<forall>i. calm (cl w i) (cl w' i))"

lemmas view_defs = stream_view_def counters_def tallies_def stream_id_of_def shares_def clock_def roster_def
lemmas calm_defs = calm_def calm_worker_def view_defs

lemma calm_refl [simp]: "calm c c" by (simp add: calm_def)
lemma calm_worker_refl [simp]: "calm_worker k k" by (simp add: calm_worker_def)

lemma calm_trans: "calm a b \<Longrightarrow> calm b c \<Longrightarrow> calm a c"
  by (auto simp: calm_def)

lemma quiet_refl [simp, quiet_intros]: "quiet w w" by (simp add: quiet_def)

lemma quiet_trans: "quiet a b \<Longrightarrow> quiet b c \<Longrightarrow> quiet a c"
  unfolding quiet_def calm_worker_def by (metis calm_trans subset_trans)

lemma upd_simps [simp]:
  "cl (upd i f w) j = (if j = i then f (cl w i) else cl w j)"
  "wk (upd i f w) = wk w" "n_created (upd i f w) = n_created w" "tasks (upd i f w) = tasks w"
  "calls (upd i f w) = calls w" "sched (upd i f w) = sched w"
  by (simp_all add: upd_def)

lemma upd_worker_simps [simp]:
  "wk (upd_worker g w) = g (wk w)" "cl (upd_worker g w) = cl w" "n_created (upd_worker g w) = n_created w"
  "tasks (upd_worker g w) = tasks w" "calls (upd_worker g w) = calls w"
  by (simp_all add: upd_worker_def)

lemma called_simps [simp]:
  "wk (called w) = wk w" "cl (called w) = cl w" "n_created (called w) = n_created w" "tasks (called w) = tasks w"
  by (simp_all add: called_def)

lemma post_simps [simp]:
  "wk (post t w) = wk w" "cl (post t w) = cl w" "n_created (post t w) = n_created w"
  by (simp_all add: post_def)

lemma upd_stats_simps [simp]:
  "wk (upd_stats f w) = (wk w) \<lparr> w_stats := f (w_stats (wk w)) \<rparr>" "cl (upd_stats f w) = cl w"
  "n_created (upd_stats f w) = n_created w"
  by (simp_all add: upd_stats_def)

lemma quiet_upd [quiet_intros]:
  "quiet w0 w \<Longrightarrow> calm (cl w i) (f (cl w i)) \<Longrightarrow> quiet w0 (upd i f w)"
  by (erule quiet_trans) (simp add: quiet_def)

lemma quiet_worker [quiet_intros]:
  "quiet w0 w \<Longrightarrow> calm_worker (wk w) (g (wk w)) \<Longrightarrow> quiet w0 (upd_worker g w)"
  by (erule quiet_trans) (simp add: quiet_def)

lemma quiet_stats [quiet_intros]:
  "quiet w0 w \<Longrightarrow> tallies (f (w_stats (wk w))) = tallies (w_stats (wk w)) \<Longrightarrow> quiet w0 (upd_stats f w)"
  by (erule quiet_trans) (simp add: quiet_def calm_worker_def shares_def clock_def roster_def)

lemma quiet_called [quiet_intros]: "quiet w0 w \<Longrightarrow> quiet w0 (called w)"
  by (erule quiet_trans) (simp add: quiet_def)

lemma quiet_post [quiet_intros]: "quiet w0 w \<Longrightarrow> quiet w0 (post t w)"
  by (erule quiet_trans) (simp add: quiet_def)

lemma quiet_outside [quiet_intros]:
  "quiet w0 w \<Longrightarrow> quiet w0 (w \<lparr> sched := s \<rparr>)" "quiet w0 w \<Longrightarrow> quiet w0 (w \<lparr> tasks := ts \<rparr>)"
  by (auto elim!: quiet_trans simp: quiet_def)

lemma quiet_start_timer [quiet_intros]: "quiet w0 w \<Longrightarrow> quiet w0 (start_timer t i w)"
  unfolding start_timer_def by (intro quiet_intros) (simp_all add: calm_defs)

lemma quiet_stop_timer [quiet_intros]: "quiet w0 w \<Longrightarrow> quiet w0 (stop_timer t i w)"
  unfolding stop_timer_def by (intro quiet_intros) (simp_all add: calm_defs)

lemma quiet_signal_write [quiet_intros]: "quiet w0 w \<Longrightarrow> quiet w0 (signal_write i w)"
  unfolding signal_write_def by (auto intro!: quiet_intros simp: calm_defs)

lemma quiet_setup_graceful_shutdown [quiet_intros]: "quiet w0 w \<Longrightarrow> quiet w0 (setup_graceful_shutdown i w)"
  unfolding setup_graceful_shutdown_def by (auto intro!: quiet_intros simp: calm_defs)

lemma quiet_times [quiet_intros]:
  "quiet w0 w \<Longrightarrow> quiet w0 (record_client_start_time t i w)"
  "quiet w0 w \<Longrightarrow> quiet w0 (restart_connect_times t i w)"
  unfolding record_client_start_time_def restart_connect_times_def
  by (auto intro!: quiet_intros simp: calm_defs)

lemma quiet_terminate_session:
  "terminate_session i w = Inr w' \<Longrightarrow> quiet w w'"
  unfolding terminate_session_def
  by (auto intro!: quiet_intros simp: calm_defs split: option.splits)

lemma quiet_graceful_restart_connection:
  "graceful_restart_connection i w = Inr w' \<Longrightarrow> quiet w w'"
  unfolding graceful_restart_connection_def
  by (drule quiet_terminate_session, erule quiet_trans [rotated]) (auto intro!: quiet_intros simp: calm_defs)

lemma quiet_connect_to_host:
  "connect_to_host env s a i w = Inr w' \<Longrightarrow> quiet w w'"
  unfolding connect_to_host_def
  by (auto intro!: quiet_intros simp: calm_defs split: option.splits)

lemma stream_view_omap_set:
  "omap_find int_less m s = Some x \<Longrightarrow> g y = g x \<Longrightarrow>
     map (\<lambda>(s, x). (s, g x)) (omap_set int_less m s y) = map (\<lambda>(s, x). (s, g x)) m"
  by (induction m) (auto split: if_splits)

lemma quiet_upd_stream [quiet_intros]:
  assumes "quiet w0 w" and "\<And>x. statistics_eligible (f x) = statistics_eligible x"
  shows "quiet w0 (upd_stream s f i w)"
proof (cases "omap_find int_less (streams (cl w i)) s")
  case (Some x)
  have "map (\<lambda>(s, x). (s, statistics_eligible x)) (omap_set int_less (streams (cl w i)) s (f x)) =
      map (\<lambda>(s, x). (s, statistics_eligible x)) (streams (cl w i))"
    using stream_view_omap_set [OF Some, of statistics_eligible "f x"] assms(2) by simp
  with Some show ?thesis unfolding upd_stream_def using assms(1) by (auto intro!: quiet_intros simp: calm_defs)
qed (simp add: upd_stream_def assms(1))

lemma quiet_upd_awaiting [quiet_intros]: "quiet w0 w \<Longrightarrow> quiet w0 (upd_awaiting s f i w)"
  unfolding upd_awaiting_def by (auto intro!: quiet_intros simp: calm_defs split: option.splits)

lemma quiet_on_status_code [quiet_intros]: "quiet w0 w \<Longrightarrow> quiet w0 (on_status_code s c i w)"
  unfolding on_status_code_def by (intro quiet_intros) simp_all

lemma quiet_on_header: "on_header s n v i w = Inr w' \<Longrightarrow> quiet w w'"
  unfolding on_header_def by (auto intro!: quiet_intros split: option.splits if_splits)

lemma quiet_set_verdict [quiet_intros]: "quiet w0 w \<Longrightarrow> quiet w0 (set_verdict s b i w)"
  unfolding set_verdict_def by (intro quiet_intros) simp_all

lemma tallies_count_status [simp]: "tallies (count_status c s) = tallies s"
  by (simp add: count_status_def tallies_def)

lemma map_tallies_update:
  "tallies (f (m ! s ! r)) = tallies (m ! s ! r) \<Longrightarrow>
     map (map tallies) (m[s := (m ! s)[r := f (m ! s ! r)]]) = map (map tallies) m"
  by (simp add: map_update list_update_same_conv) (metis list_update_beyond list_update_id map_update not_le nth_map)

lemma quiet_count_scenario [quiet_intros]:
  "quiet w0 w \<Longrightarrow> (\<And>x. tallies (f x) = tallies x) \<Longrightarrow> quiet w0 (count_scenario s r f w)"
  unfolding count_scenario_def
  by (erule quiet_worker) (simp add: calm_worker_def shares_def clock_def roster_def map_tallies_update)

lemma quiet_inc_status:
  "inc_status_counter_and_validate_response conf env s i w = Inr w' \<Longrightarrow> quiet w w'"
  unfolding inc_status_counter_and_validate_response_def
  by (auto simp: Let_def intro!: quiet_intros split: option.splits if_splits)

lemma quiet_follow_up: "follow_up conf env s i w = Inr w' \<Longrightarrow> quiet w w'"
  unfolding follow_up_def
  by (auto simp: Let_def calm_defs intro!: quiet_intros split: option.splits if_splits prod.splits)

lemma quiet_reset_streams: "reset_streams ss i w b = Inr (b', w') \<Longrightarrow> quiet w w'"
proof (induction ss i w b rule: reset_streams.induct)
  case (2 s ss i w b)
  show ?case
  proof (cases "omap_find int_less (streams (cl w i)) s")
    case None
    with 2 show ?thesis by simp
  next
    case (Some x)
    let ?w = "if statistics_eligible x then upd_stats (\<lambda>s. s \<lparr> req_timedout := req_timedout s + 1 \<rparr>) w else w"
    have "quiet w ?w" by (auto intro!: quiet_intros simp: tallies_def)
    with 2(2) [OF Some] 2(3) Some show ?thesis by (auto split: if_splits intro: quiet_trans)
  qed
qed simp

lemma quiet_reset_timeout_requests: "reset_timeout_requests env i w = Inr w' \<Longrightarrow> quiet w w'"
  unfolding reset_timeout_requests_def
  by (auto simp: Let_def calm_defs intro!: quiet_intros split: if_splits prod.splits
      dest!: quiet_reset_streams elim!: quiet_trans [rotated])

lemma quiet_refill: "refill conf env i w = Inr w' \<Longrightarrow> quiet w w'"
  unfolding refill_def by (auto simp: calm_defs intro!: quiet_intros split: if_splits)

lemma quiet_timers [quiet_intros]: "quiet w0 w \<Longrightarrow> quiet w0 (start_active_watchers conf i w)"
  unfolding start_active_watchers_def
  by (auto intro!: foldl_invariant [where P = "quiet w0"] quiet_intros)

lemma quiet_restart_timeout_timer [quiet_intros]: "quiet w0 w \<Longrightarrow> quiet w0 (restart_timeout_timer conf i w)"
  unfolding restart_timeout_timer_def by (auto simp: Let_def intro!: quiet_intros)

lemma quiet_reconnect_to_used_host: "reconnect_to_used_host env i w = Inr w' \<Longrightarrow> quiet w w'"
  unfolding reconnect_to_used_host_def
  by (auto simp: Let_def calm_defs intro!: quiet_intros split: if_splits list.splits
      dest!: quiet_connect_to_host elim!: quiet_trans [rotated])

lemma quiet_reconnect_to_alt_addr: "reconnect_to_alt_addr conf env i w = Inr (b, w') \<Longrightarrow> quiet w w'"
  unfolding reconnect_to_alt_addr_def
  by (auto simp: Let_def calm_defs intro!: quiet_intros split: if_splits list.splits
      dest!: quiet_connect_to_host elim!: quiet_trans [rotated])

lemma quietD:
  assumes "quiet w w'"
  shows "stream_view (cl w' i) = stream_view (cl w i)" "length (streams (cl w' i)) = length (streams (cl w i))"
    "counters (cl w' i) = counters (cl w i)" "dest_clients (cl w' i) = dest_clients (cl w i)"
    "parent_client (cl w' i) = parent_client (cl w i)" "phase_of w' = phase_of w"
proof -
  from assms have c: "calm (cl w i) (cl w' i)" by (simp add: quiet_def)
  then show "stream_view (cl w' i) = stream_view (cl w i)" by (simp add: calm_def)
  then show "length (streams (cl w' i)) = length (streams (cl w i))" by (metis length_map stream_view_def)
  from c show "counters (cl w' i) = counters (cl w i)" "dest_clients (cl w' i) = dest_clients (cl w i)"
    "parent_client (cl w' i) = parent_client (cl w i)" by (simp_all add: calm_def)
  from assms show "phase_of w' = phase_of w" by (simp add: quiet_def calm_worker_def clock_def phase_of_def)
qed

lemma pending_calm: "quiet w w' \<Longrightarrow> get_total_pending_streams i w' = get_total_pending_streams i w"
  by (cases "parent_client (cl w i)") (simp_all add: get_total_pending_streams_def pending_of_controller_def quietD)

lemma known_calm:
  assumes "quiet w w'" "omap_find int_less (streams (cl w i)) s \<noteq> None"
  shows "omap_find int_less (streams (cl w' i)) s \<noteq> None"
proof -
  have view: "map_option statistics_eligible (omap_find int_less m s) =
      omap_find int_less (map (\<lambda>(s, x). (s, statistics_eligible x)) m) s" for m :: "(int \<times> stream) list"
    by (induction m) auto
  show ?thesis
    using assms(2) quietD(1) [OF assms(1), of i] view [of "streams (cl w i)"] view [of "streams (cl w' i)"]
    by (metis option.map_disc_iff stream_view_def)
qed

section \<open>Relations that every event respects\<close>

definition erase_stream :: "int \<Rightarrow> nat \<Rightarrow> world \<Rightarrow> world" where
  "erase_stream s i = upd i (\<lambda>c. c \<lparr> streams := omap_erase int_less (streams c) s \<rparr>)"

definition enter_warm_up :: "world \<Rightarrow> world" where
  "enter_warm_up = upd_worker (\<lambda>k. k \<lparr> current_phase := WARM_UP, warmup_timer := True \<rparr>)"

definition abandon_open :: "nat \<Rightarrow> world \<Rightarrow> world" where
  "abandon_open i w = upd i (\<lambda>c. c \<lparr> req_inflight := 0 \<rparr>) (upd_stats (count_abandoned (req_inflight (cl w i))) w)"

definition resign :: "nat \<Rightarrow> world \<Rightarrow> world" where
  "resign i w = upd_worker (\<lambda>k. k \<lparr> w_stats := (w_stats k) \<lparr> req_todo := req_todo (w_stats k) + cl_req_done (cl w i) \<rparr>,
       w_clients := map (\<lambda>x. if x = Some i then None else x) (w_clients k) \<rparr>)
     (upd i (\<lambda>c. c \<lparr> cl_req_todo := cl_req_done c \<rparr>) w)"

text \<open>\<open>R w w'\<close> is what is to be shown of the worlds before and after an event. Under
  \<^verbatim>\<open>open_new_connection_based_on_authority_header\<close> a request may be sent by another client than the one
  that counts it.\<close>

locale event_relation =
  fixes conf :: load_config and env :: "nat \<Rightarrow> client_env" and C :: "nat \<Rightarrow> bool"
    and R :: "world \<Rightarrow> world \<Rightarrow> bool"
  assumes trans: "R w w1 \<Longrightarrow> R w1 w2 \<Longrightarrow> R w w2"
    and calm_step: "quiet w w' \<Longrightarrow> R w w'"
    and disconnected: "C i \<Longrightarrow> R w (disconnect env i w)"
    and given_up: "C i \<Longrightarrow> streams (cl w i) = [] \<Longrightarrow> R w (process_abandoned_streams conf i w)"
    and retried: "C i \<Longrightarrow> streams (cl w i) = [] \<Longrightarrow> phase_of w = MAIN_DURATION \<Longrightarrow> R w (abandon_open i w)"
    and timed_out: "C i \<Longrightarrow> R w (disconnect env i (process_timedout_streams conf env i w))"
    and warming: "phase_of w = INITIAL_IDLE \<Longrightarrow> is_timing_based_mode conf \<Longrightarrow> R w (enter_warm_up w)"
    and entered: "C i \<Longrightarrow> R w (enter_connection env i w)"
    and another: "open_new_connection_based_on_authority_header conf \<Longrightarrow>
          find_or_create_of_controller conf env r i w = Inr (j, w') \<Longrightarrow> R w w'"
    and failed: "C i \<Longrightarrow> session_submit_request conf env i w = Inr (rv, w1) \<Longrightarrow> rv \<noteq> 0 \<Longrightarrow>
          process_request_failure conf rv i w1 = Inr w2 \<Longrightarrow> R w w2"
    and sent_early: "C i \<Longrightarrow> session_submit_request conf env i w = Inr (0, w1) \<Longrightarrow> phase_of w1 \<noteq> MAIN_DURATION \<Longrightarrow>
          open_new_connection_based_on_authority_header conf \<or>
            get_total_pending_streams i w < max_concurrent_streams_opt conf \<Longrightarrow> R w w1"
    and sent: "C i \<Longrightarrow> session_submit_request conf env j w = Inr (0, w1) \<Longrightarrow> phase_of w1 = MAIN_DURATION \<Longrightarrow>
          open_new_connection_based_on_authority_header conf \<or>
            j = i \<and> get_total_pending_streams i w < max_concurrent_streams_opt conf \<Longrightarrow>
          quiet w1 w2 \<Longrightarrow> R w (count_submitted conf n m i w2)"
    and closed: "C i \<Longrightarrow> count_stream_close conf env s b i w = Inr (True, w1) \<Longrightarrow>
          omap_find int_less (streams (cl w i)) s \<noteq> None \<Longrightarrow> quiet w1 w2 \<Longrightarrow> R w (erase_stream s i w2)"
    and resigned: "C i \<Longrightarrow> Some i \<in> set (w_clients (wk w)) \<Longrightarrow> R w (resign i w)"
    and cleaned: "C i \<Longrightarrow> R w (final_cleanup env i w)"
    and all_clients: "open_new_connection_based_on_authority_header conf \<Longrightarrow> C i"
    and parents: "C i \<Longrightarrow> parent_client (cl w i) = Some p \<Longrightarrow> C p \<or> (\<forall>w'. R w w')"
begin

lemma after_calm: "R w0 w \<Longrightarrow> quiet w w' \<Longrightarrow> R w0 w'"
  using trans calm_step by blast

lemma refl [simp]: "R w w"
  by (rule calm_step) simp

lemma upd_R: "R w0 w \<Longrightarrow> calm (cl w i) (f (cl w i)) \<Longrightarrow> R w0 (upd i f w)"
  by (erule after_calm) (intro quiet_intros)

lemma start_timer_R: "R w0 w \<Longrightarrow> R w0 (start_timer t i w)"
  by (erule after_calm) (intro quiet_intros)

lemma signal_write_R: "R w0 w \<Longrightarrow> R w0 (signal_write i w)"
  by (erule after_calm) (intro quiet_intros)

lemma fail_R: "C i \<Longrightarrow> R w (fail conf env i w)"
  unfolding fail_def
  by (rule trans [OF disconnected given_up]) (simp_all add: disconnect_def cleanup_due_to_disconnect_def)

lemma timeout_R: "C i \<Longrightarrow> R w (timeout conf env i w)"
  unfolding timeout_def using timed_out by simp

lemma connect_R:
  assumes "connect conf env i w = Inr (rv, w')"
  shows "R w w'"
proof -
  let ?t = "now (env (calls w))"
  let ?w1 = "if \<not> is_timing_based_mode conf \<or> phase_of w = MAIN_DURATION then
      restart_connect_times ?t i (record_client_start_time ?t i (called w))
    else if phase_of w = INITIAL_IDLE then enter_warm_up w else w"
  let ?w2 = "if conn_inactivity_timeout_positive conf then start_timer Conn_Inactivity_Timer i ?w1 else ?w1"
  have "R w ?w1" using warming by (auto intro!: calm_step quiet_intros)
  then have r: "R w ?w2"
    using after_calm [of w ?w1] quiet_start_timer [OF quiet_refl] by (cases "conn_inactivity_timeout_positive conf") simp_all
  show ?thesis
  proof (cases "is_test_finished i w")
    case False
    with assms obtain w3 where "connect_to_host env (cl_schema (cl ?w2 i)) (cl_authority (cl ?w2 i)) i ?w2 = Inr w3"
      and w': "w' = start_timer Connect_Timer i w3"
      unfolding connect_def Let_def enter_warm_up_def by auto
    then have "R w w3" using r quiet_connect_to_host after_calm by blast
    then show ?thesis unfolding w' by (rule after_calm) (auto intro!: quiet_intros)
  qed (use assms in \<open>simp add: connect_def\<close>)
qed

lemma connect_refused: "connect conf env i w = Inr (rv, w') \<Longrightarrow> rv \<noteq> 0 \<Longrightarrow> w' = w"
  unfolding connect_def Let_def by (auto split: if_splits)

lemma try_again_or_fail_R:
  assumes "try_again_or_fail conf env i w = Inr (rv, w')"
    and client: "C i"
  shows "R w w'"
proof -
  define w1 where "w1 = disconnect env i w"
  define w2 where "w2 = upd i (\<lambda>c. c \<lparr> new_connection_requested := False \<rparr>) w1"
  define w3 where "w3 = (if phase_of w2 = MAIN_DURATION then abandon_open i w2 else w2)"
  have e1: "streams (cl w1 i) = []" by (simp add: w1_def disconnect_def cleanup_due_to_disconnect_def)
  have e2: "streams (cl w2 i) = []" by (simp add: w2_def e1)
  have e3: "streams (cl w3 i) = []" by (simp add: w3_def e2 abandon_open_def)
  have r1: "R w w1" by (simp add: w1_def disconnected client)
  have r2: "R w w2" using r1 by (rule after_calm) (auto simp: w2_def calm_defs intro!: quiet_intros)
  have r3: "R w w3" using r2 retried [OF client e2] by (auto simp: w3_def intro: trans)
  have g: "R w (process_abandoned_streams conf i v)" if "R w v" "streams (cl v i) = []" for v
    using that given_up [OF client] trans by blast
  show ?thesis
    using assms(1) r1 r2 r3 g [OF r1 e1] g [OF r2 e2] g [OF r3 e3] connect_R [of i w3] connect_refused [of i w3]
    unfolding try_again_or_fail_def Let_def w1_def [symmetric] w2_def [symmetric] abandon_open_def [symmetric]
      w3_def [symmetric]
    by (auto split: if_splits intro: trans)
qed

lemma handle_connection_error_R:
  assumes "handle_connection_error conf env i w = Inr w'"
    and client: "C i"
  shows "R w w'"
proof -
  obtain rv w1 where t: "try_again_or_fail conf env i w = Inr (rv, w1)" and
    rest: "(if rv = 0 then Inr w1
       else andthen (reconnect_to_alt_addr conf env i (fail conf env i w1)) (\<lambda>(again, w2).
         if again then Inr (upd i (\<lambda>c. c \<lparr> is_client_stopped := False \<rparr>) w2)
         else Inr (post (Free_Client i) w2))) = Inr w'"
    using assms unfolding handle_connection_error_def by auto
  note r1 = try_again_or_fail_R [OF t client]
  show ?thesis
  proof (cases "rv = 0")
    case False
    then obtain again w2 where "reconnect_to_alt_addr conf env i (fail conf env i w1) = Inr (again, w2)"
      and w': "w' = (if again then upd i (\<lambda>c. c \<lparr> is_client_stopped := False \<rparr>) w2 else post (Free_Client i) w2)"
      using rest by (auto split: if_splits)
    then have "quiet (fail conf env i w1) w2" by (blast dest: quiet_reconnect_to_alt_addr)
    then have "quiet (fail conf env i w1) w'" by (auto simp: w' calm_defs intro!: quiet_intros)
    then show ?thesis using r1 fail_R [OF client] trans after_calm by blast
  qed (use r1 rest in simp)
qed

lemma on_prefered_host_up_R:
  assumes "on_prefered_host_up env i w = Inr w'"
    and client: "C i"
  shows "R w w'"
proof -
  let ?w = "upd i (\<lambda>c. c \<lparr> candidate_addresses := candidate_addresses c @ [cl_authority c],
      cl_authority := preferred_authority c \<rparr>) (disconnect env i w)"
  have "R w ?w" using disconnected [OF client] by (rule after_calm) (auto simp: calm_defs intro!: quiet_intros)
  with assms show ?thesis
    unfolding on_prefered_host_up_def Let_def by (auto split: if_splits dest!: quiet_connect_to_host intro: after_calm)
qed

lemma handle_write_complete_R:
  assumes "handle_write_complete conf env i w = Inr w'"
    and client: "C i"
  shows "R w w'"
proof -
  define w1 where "w1 = restart_timeout_timer conf i w"
  define w2 where "w2 = upd i (\<lambda>c. c \<lparr> write_clear_callback := None \<rparr>) w1"
  have q1: "quiet w w1" by (auto simp: w1_def intro!: quiet_intros)
  then have "quiet w w2" by (auto simp: w2_def calm_defs intro!: quiet_intros)
  then have r2: "R w (disconnect env i w2)" using calm_step disconnected [OF client] trans by blast
  have r3: "R w (post (Free_Client i) (disconnect env i w2))" using r2 by (rule after_calm) (auto intro!: quiet_intros)
  show ?thesis
    using assms calm_step [OF q1] r3 after_calm [OF r2] quiet_connect_to_host
    unfolding handle_write_complete_def Let_def w1_def [symmetric] w2_def [symmetric]
    by (auto split: option.splits write_callback.splits)
qed

lemma dispatch_cases:
  assumes "dispatch conf env i w = Inr (j, w')"
  shows "R w w'" "open_new_connection_based_on_authority_header conf \<or> j = i \<and> w' = w"
proof -
  show "R w w'"
  proof (cases "open_new_connection_based_on_authority_header conf")
    case True
    with assms obtain r w1 where f: "find_or_create_dest_client conf env r i w = Inr (j, w1)" and q: "quiet w1 w'"
      unfolding dispatch_def
      by (fastforce split: list.splits if_splits intro!: quiet_intros simp: calm_defs)
    from f have "R w w1" using another [OF True] True by (auto simp: find_or_create_dest_client_def Let_def)
    with q show ?thesis by (rule after_calm [rotated])
  qed (use assms in \<open>simp add: dispatch_def\<close>)
  show "open_new_connection_based_on_authority_header conf \<or> j = i \<and> w' = w"
    using assms unfolding dispatch_def by (auto split: if_splits)
qed



lemma send_to_R:
  assumes "send_to conf env i j w = Inr (rv, w')"
    and "open_new_connection_based_on_authority_header conf \<or>
      j = i \<and> get_total_pending_streams i w < max_concurrent_streams_opt conf"
    and client: "C i"
  shows "R w w'"
proof -
  obtain rv1 w1 where s: "session_submit_request conf env j w = Inr (rv1, w1)"
    using assms(1) unfolding send_to_def Let_def by auto
  have cj: "C j" using assms(2) all_clients client by auto
  show ?thesis
  proof (cases "rv1 = 0")
    case False
    with assms(1) s failed [OF cj s] show ?thesis unfolding send_to_def Let_def by auto
  next
    case True
    let ?w = "signal_write j w1"
    have q: "quiet w1 ?w" by (auto intro!: quiet_intros)
    then have ph: "phase_of ?w = phase_of w1" by (rule quietD(6))
    show ?thesis
    proof (cases "phase_of w1 = MAIN_DURATION")
      case False
      with assms(1,2) s True ph sent_early [OF cj, of w w1] after_calm [OF _ q, of w] show ?thesis
        unfolding send_to_def Let_def by auto
    next
      case main: True
      obtain n m where w': "w' = start_active_watchers conf i (count_submitted conf n m i ?w)"
        using assms(1) s True ph main unfolding send_to_def Let_def by auto
      have "R w (count_submitted conf n m i ?w)" using sent [OF client] s True main assms(2) q by blast
      then show ?thesis unfolding w' by (rule after_calm) (auto intro!: quiet_intros)
    qed
  qed
qed

lemma submit_of_controller_R:
  assumes "submit_of_controller conf env i w = Inr (rv, w')"
    and client: "C i"
  shows "R w w'"
proof (cases "max_concurrent_streams_opt conf \<le> get_total_pending_streams i w \<or> phase_of w = MAIN_DURATION_GRACEFUL_SHUTDOWN")
  case False
  with assms obtain w1 j w2 where f: "refill conf env i w = Inr w1" and d: "dispatch conf env i w1 = Inr (j, w2)"
    and s: "(if state (cl w2 j) = CLIENT_CONNECTED then send_to conf env i j w2 else Inr (0, w2)) = Inr (rv, w')"
    unfolding submit_of_controller_def by (auto split: if_splits)
  note q = quiet_refill [OF f]
  have r2: "R w w2" using calm_step [OF q] dispatch_cases(1) [OF d] by (rule trans)
  have "open_new_connection_based_on_authority_header conf \<or>
      j = i \<and> get_total_pending_streams i w2 < max_concurrent_streams_opt conf"
    using dispatch_cases(2) [OF d] False pending_calm [OF q] by auto
  with s send_to_R [OF _ _ client, of j w2 rv w'] r2 show ?thesis by (auto split: if_splits intro: trans)
qed (use assms in \<open>auto simp: submit_of_controller_def split: if_splits\<close>)

lemma submit_request_R: "submit_request conf env i w = Inr (rv, w') \<Longrightarrow> C i \<Longrightarrow> R w w'"
proof -
  assume a: "submit_request conf env i w = Inr (rv, w')" and c: "C i"
  show ?thesis
  proof (cases "parent_client (cl w i)")
    case None
    with a c submit_of_controller_R [OF _ c, of w rv w'] show ?thesis unfolding submit_request_def by (auto split: if_splits)
  next
    case (Some p)
    with a parents [OF c Some] submit_of_controller_R [of p w rv w'] show ?thesis
      unfolding submit_request_def by (auto split: if_splits)
  qed
qed

lemma submit_up_to_R: "submit_up_to conf env i n w = Inr w' \<Longrightarrow> C i \<Longrightarrow> R w w'"
  by (induction n arbitrary: w) (auto split: if_splits dest!: submit_request_R intro: trans)

lemma after_close_R: "after_close conf env final i w = Inr w' \<Longrightarrow> C i \<Longrightarrow> R w w'"
  unfolding after_close_def
  by (auto split: if_splits dest!: submit_request_R quiet_terminate_session simp: calm_defs
      intro!: quiet_intros upd_R intro: calm_step after_calm elim: quiet_trans [rotated])

lemma on_stream_close_R:
  assumes "on_stream_close conf env s b final i w = Inr w'"
    and known: "omap_find int_less (streams (cl w i)) s \<noteq> None"
    and client: "C i"
  shows "R w w'"
proof -
  define w1 where "w1 = upd_stream s (\<lambda>x. x \<lparr> req_stat := (req_stat x) \<lparr> stream_close_time := now (env (calls w)) \<rparr> \<rparr>) i (called w)"
  obtain w2 k w3 where i: "inc_status_counter_and_validate_response conf env s i w1 = Inr w2"
    and c: "count_stream_close conf env s b i w2 = Inr (k, w3)"
    and rest: "(if \<not> k then Inr w3
       else andthen (follow_up conf env s i w3) (\<lambda>w4. after_close conf env final i (erase_stream s i w4))) = Inr w'"
    using assms(1) unfolding on_stream_close_def Let_def w1_def [symmetric] erase_stream_def by auto
  have "quiet w w1" by (auto simp: w1_def intro!: quiet_intros)
  then have q: "quiet w w2" using quiet_inc_status [OF i] quiet_trans by blast
  then have known2: "omap_find int_less (streams (cl w2 i)) s \<noteq> None" using known_calm known by blast
  with c have k by (auto simp: count_stream_close_def Let_def split: if_splits option.splits)
  with rest obtain w4 where f: "follow_up conf env s i w3 = Inr w4"
    and a: "after_close conf env final i (erase_stream s i w4) = Inr w'" by auto
  have "R w2 (erase_stream s i w4)" using closed [OF client, of s b w2 w3 w4] c \<open>k\<close> known2 quiet_follow_up [OF f] by auto
  then show ?thesis using calm_step [OF q] after_close_R [OF a client] trans by blast
qed

lemma submit_at_rate_R: "submit_at_rate conf env i n w = Inr w' \<Longrightarrow> C i \<Longrightarrow> R w w'"
proof (induction n arbitrary: w)
  case (Suc n)
  let ?f = "\<lambda>c :: client. c \<lparr> rps_req_inflight := rps_req_inflight c + 1, rps_req_pending := sub64 (rps_req_pending c) 1 \<rparr>"
  from Suc.prems obtain rv w1 where s: "submit_request conf env i w = Inr (rv, w1)" and
    r: "(if rv \<noteq> 0 then Inr w1 else submit_at_rate conf env i n (upd i ?f w1)) = Inr w'"
    by auto
  note c = Suc.prems(2)
  have u: "R w (upd i ?f w1)"
    using submit_request_R [OF s c] by (rule upd_R) (simp add: calm_defs)
  show ?case
  proof (cases "rv = 0")
    case True
    with r have "submit_at_rate conf env i n (upd i ?f w1) = Inr w'" by (simp only: simp_thms if_False)
    then have "R (upd i ?f w1) w'" using c by (rule Suc.IH)
    with u show ?thesis by (rule trans)
  qed (use r submit_request_R [OF s c] in simp)
qed simp

lemma on_rps_timer_R:
  assumes "on_rps_timer conf env i w = Inr w'"
    and client: "C i"
  shows "R w w'"
proof -
  obtain w1 where t: "reset_timeout_requests env i w = Inr w1" using assms unfolding on_rps_timer_def by auto
  have r: "R w w1" using quiet_reset_timeout_requests [OF t] by (rule calm_step)
  have "R w (upd i (\<lambda>c. c \<lparr> rps_req_pending := n \<rparr>) (called w1))" for n
    by (intro upd_R after_calm [OF r] quiet_intros) (simp add: calm_defs)
  moreover have "R w (stop_timer Rps_Timer i w1)" "R w (called w1)" by (intro after_calm [OF r] quiet_intros)+
  ultimately show ?thesis
    using assms r t unfolding on_rps_timer_def
    by (auto simp: Let_def split: if_splits option.splits dest!: submit_at_rate_R intro: trans)
qed

lemma requeue_R: "requeue conf env p i n w = Inr w' \<Longrightarrow> C p \<Longrightarrow> R w w'"
proof (induction n arbitrary: w)
  case (Suc n)
  let ?q = "requests_to_submit (source (cl w i))"
  let ?w1 = "upd p (\<lambda>c. c \<lparr> source := (source c) \<lparr> requests_to_submit := last ?q # requests_to_submit (source c) \<rparr> \<rparr>)
             (upd i (\<lambda>c. c \<lparr> source := (source c) \<lparr> requests_to_submit := butlast ?q \<rparr> \<rparr>) w)"
  have r: "R w ?w1" by (intro upd_R refl) (simp_all add: calm_defs)
  show ?case
  proof (cases "?q = [] \<or> rps_mode conf")
    case True
    with Suc.prems Suc.IH [of ?w1] r show ?thesis by (auto simp: Let_def split: if_splits intro: trans)
  next
    case False
    with Suc.prems obtain rv w2 where s: "submit_request conf env p ?w1 = Inr (rv, w2)"
      and "(if rv \<noteq> 0 then Inr w2 else requeue conf env p i n w2) = Inr w'"
      by (auto simp: Let_def)
    moreover have "R w w2" using r submit_request_R [OF s Suc.prems(2)] by (rule trans)
    ultimately show ?thesis using Suc.IH [of w2] Suc.prems(2) by (auto split: if_splits intro: trans)
  qed
qed simp

lemma submit_by_script_R: "submit_by_script conf env i n w = Inr (b, w') \<Longrightarrow> C i \<Longrightarrow> R w w'"
  by (induction n arbitrary: w) (auto split: if_splits dest!: submit_request_R intro: trans)

lemma first_requests_R: "first_requests conf env i w = Inr w' \<Longrightarrow> C i \<Longrightarrow> R w w'"
proof -
  assume a: "first_requests conf env i w = Inr w'" "C i"
  have "R w (upd i (\<lambda>c. c \<lparr> rps_req_inflight := rps_req_inflight c + 1 \<rparr>) w)"
    by (intro upd_R refl) (simp add: calm_defs)
  with a show ?thesis unfolding first_requests_def
    by (auto split: if_splits prod.splits dest!: submit_request_R submit_up_to_R submit_by_script_R
        intro: trans intro!: start_timer_R)
qed

lemma connection_made_R:
  assumes "connection_made conf env i w0 = Inr (rv, w')"
    and client: "C i"
  shows "R w0 w'"
proof -
  define w where "w = stop_timer Connect_Timer i w0"
  have r: "R w0 w" by (auto simp: w_def intro!: calm_step quiet_intros)
  show ?thesis
  proof (cases "http2_negotiated (env (calls w))")
    case False
    have "R w (disconnect env i (called w))" by (rule trans [OF calm_step disconnected [OF client]]) (intro quiet_intros)
    with assms False r show ?thesis unfolding connection_made_def Let_def w_def [symmetric] by (auto intro: trans)
  next
    case True
    have e: "R w0 (enter_connection env i w)" using r entered [OF client] by (rule trans)
    define w4 where "w4 = start_timer Stream_Timeout_Timer i
      (if rps_mode conf then start_timer Rps_Timer i (start_timer Delay_Request_Timer i (enter_connection env i w))
       else start_timer Delay_Request_Timer i (enter_connection env i w))"
    have "R w0 w4" unfolding w4_def by (auto intro!: start_timer_R e)
    show ?thesis
    proof (cases "parent_client (cl (enter_connection env i w) i)")
      case None
      with assms True \<open>R w0 w4\<close> show ?thesis unfolding connection_made_def Let_def w_def [symmetric] w4_def [symmetric]
        by (auto split: if_splits dest!: first_requests_R intro: trans intro!: start_timer_R signal_write_R)
    next
      case (Some p)
      with assms True e parents [OF client Some] show ?thesis unfolding connection_made_def Let_def w_def [symmetric]
        by (auto dest!: requeue_R intro: trans)
    qed
  qed
qed

lemma connected_R: "connected conf env i w = Inr w' \<Longrightarrow> C i \<Longrightarrow> R w w'"
proof -
  assume a: "connected conf env i w = Inr w'" "C i"
  have "R w (upd i (\<lambda>c. c \<lparr> is_client_stopped := False \<rparr>) w)" by (intro upd_R refl) (simp add: calm_defs)
  with a show ?thesis unfolding connected_def
    by (auto split: if_splits dest!: connection_made_R handle_connection_error_R intro: trans)
qed

lemma activity_R: "C i \<Longrightarrow> R w (handle_con_activity_timer_timeout conf env i w)"
  unfolding handle_con_activity_timer_timeout_def start_conn_active_watcher_def
  by (auto intro!: start_timer_R timeout_R)

lemma handle_timer_R:
  assumes "handle_timer conf env t i w0 = Inr w'"
    and client: "C i"
  shows "R w0 w'"
proof -
  define w where "w = stop_timer t i w0"
  have r: "R w0 w" by (auto simp: w_def intro!: calm_step quiet_intros)
  have "R w w'"
    using assms unfolding handle_timer_def Let_def w_def [symmetric]
    by (auto split: timer.splits if_splits simp: calm_defs handle_rps_timer_timeout_def handle_stream_timeout_timer_timeout_def
        handle_request_execution_timer_timeout_def handle_ping_timeout_def submit_ping_def
        connect_to_prefered_host_timer_handler_def
        dest!: handle_connection_error_R on_rps_timer_R quiet_reset_timeout_requests quiet_reconnect_to_used_host
        intro!: activity_R start_timer_R signal_write_R upd_R quiet_intros
        intro: calm_step trans [OF start_timer_R [OF refl]])
  with r show ?thesis by (rule trans)
qed

lemma destroy_client_R: "C i \<Longrightarrow> R w (destroy_client env i w)"
  unfolding destroy_client_def by (rule trans [OF disconnected cleaned])

lemma freed: "C i \<Longrightarrow> R w (free_client env i w)"
proof -
  define w1 where "w1 = (if Some i \<in> set (w_clients (wk w)) then resign i w else w)"
  assume c: "C i"
  then have r: "R w w1" by (simp add: w1_def resigned)
  have "R w (upd_worker (\<lambda>k. k \<lparr> managed_clients := removeAll i (managed_clients k) \<rparr>) w1)"
    using r by (rule after_calm) (intro quiet_intros, auto simp: calm_worker_def view_defs)
  then show ?thesis
    using r destroy_client_R [OF c] trans unfolding free_client_def resign_def [symmetric] w1_def [symmetric] Let_def by auto
qed

lemma run_tasks_R:
  assumes "\<And>i. i \<in> roster (wk w) \<Longrightarrow> C i"
  shows "R w (run_tasks env w)"
proof -
  have t: "R w (w \<lparr> tasks := ts \<rparr>)" for ts by (intro calm_step quiet_intros)
  have f: "R w (free_client env i (w \<lparr> tasks := ts \<rparr>))" for i ts
  proof (cases "i \<in> roster (wk w)")
    case True
    with assms show ?thesis using trans [OF t freed] by blast
  next
    case False
    then have "free_client env i (w \<lparr> tasks := ts \<rparr>) = w \<lparr> tasks := ts \<rparr>" by (auto simp: free_client_def roster_def)
    with t show ?thesis by simp
  qed
  then show ?thesis using t unfolding run_tasks_def run_task_def
    by (auto split: list.splits task.splits simp: calm_defs intro!: upd_R)
qed

lemma handle_read_complete_R:
  assumes "handle_read_complete conf env n b i w = Inr w'"
    and client: "C i"
  shows "R w w'"
proof -
  let ?w = "restart_timeout_timer conf i (upd_stats (\<lambda>s. s \<lparr> bytes_total := bytes_total s + int n \<rparr>) w)"
  have "R w ?w" by (intro calm_step quiet_intros) (simp_all add: tallies_def)
  with assms show ?thesis unfolding handle_read_complete_def Let_def
    by (auto split: if_splits dest!: handle_connection_error_R intro: trans)
qed

lemma handle_client_R:
  assumes "handle_client conf env ev i w = Inr w'" and "client_enabled ev i w"
    and client: "C i"
  shows "R w w'"
  using assms unfolding handle_client_def client_enabled_def
  by (auto split: client_event.splits simp: on_header_frame_begin_def on_data_chunk_def
      intro: calm_step quiet_intros connected_R handle_connection_error_R handle_read_complete_R
        handle_write_complete_R on_stream_close_R handle_timer_R on_prefered_host_up_R
        calm_step [OF quiet_on_header])

end

end
