(* ===== verification/Invariants.thy ===== *)
theory Invariants
  imports Runs
begin

text \<open>
  Invariants of whole runs of the load generator. A second locale extends the relation on events to the
  worker's own steps (starting clients, the ends of the warm-up and of the test), so that an
  invariant holds in every reachable world. Its interpretations, in the theories that follow: the statistics
  always agree with each other, phases only move forward and nothing is counted before the main phase, every
  request is accounted for exactly once, and the number of open streams is bounded.
\<close>

section \<open>What is not quiet\<close>

definition opened :: "(nat \<Rightarrow> client_env) \<Rightarrow> nat \<Rightarrow> world \<Rightarrow> world \<Rightarrow> bool" where
  "opened env j w w1 \<longleftrightarrow> calm_worker (wk w) (wk w1) \<and> n_created w1 = n_created w \<and>
     (\<forall>i. i \<noteq> j \<longrightarrow> calm (cl w i) (cl w1 i)) \<and>
     counters (cl w1 j) = counters (cl w j) \<and> dest_clients (cl w1 j) = dest_clients (cl w j) \<and>
     parent_client (cl w1 j) = parent_client (cl w j) \<and> session (cl w j) \<noteq> None \<and>
     (\<exists>s. stream_view (cl w1 j) = omap_set int_less (stream_view (cl w j)) s (eligible_phase (phase_of w))) \<and>
     (stream_id_of (cl w1 j) = stream_id_of (cl w j) \<or> stream_id_of (cl w1 j) = 0 \<or>
        (\<exists>n. stream_id_of (cl w1 j) = new_stream_id (env n)))"

lemma map_omap_set: "map (\<lambda>(s, x). (s, g x)) (omap_set lt m k v) = omap_set lt (map (\<lambda>(s, x). (s, g x)) m) k (g v)"
  by (induction m) auto

lemma opened_after:
  assumes "opened env j w' w1" "wk w' = wk w" "n_created w' = n_created w" "\<And>i. i \<noteq> j \<Longrightarrow> cl w' i = cl w i"
    and "stream_view (cl w' j) = stream_view (cl w j)" "counters (cl w' j) = counters (cl w j)"
      "dest_clients (cl w' j) = dest_clients (cl w j)" "parent_client (cl w' j) = parent_client (cl w j)"
      "session (cl w j) \<noteq> None" "stream_id_of (cl w' j) = stream_id_of (cl w j) \<or> (\<exists>n. stream_id_of (cl w' j) = new_stream_id (env n))"
  shows "opened env j w w1"
  using assms unfolding opened_def phase_of_def by auto

lemma on_request_start_opens:
  assumes "on_request_start conf env s j w = Inr w1" and "session (cl w j) \<noteq> None"
  shows "opened env j w w1"
proof -
  have upd: "opened env j w (upd j f (called w))"
    if "stream_view (f (cl w j)) = omap_set int_less (stream_view (cl w j)) s (eligible_phase (phase_of w))"
      "counters (f (cl w j)) = counters (cl w j)" "dest_clients (f (cl w j)) = dest_clients (cl w j)"
      "parent_client (f (cl w j)) = parent_client (cl w j)" "stream_id_of (f (cl w j)) = stream_id_of (cl w j)" for f
    unfolding opened_def using assms(2) that by auto
  show ?thesis
    using assms(1) unfolding on_request_start_def Let_def stream_of_def
    by (auto split: option.splits intro!: upd simp: view_defs map_omap_set)
qed

lemma submit_scenario_cases:
  assumes "submit_scenario_request conf env ss j w = Inr (rv, w1)" and "session (cl w j) = Some ss"
  shows "rv = 0 \<and> opened env j w w1 \<or> rv \<noteq> 0 \<and> quiet w w1"
proof -
  let ?e = "env (calls w)"
  show ?thesis
  proof (cases "rv = 0")
    case False
    with assms(1) show ?thesis
      unfolding submit_scenario_request_def Let_def
      by (auto split: if_splits list.splits simp: calm_defs intro!: quiet_intros)
  next
    case True
    with assms obtain r rest where "requests_to_submit (source (cl w j)) = r # rest"
      and o: "on_request_start conf env (new_stream_id ?e) j
          (upd j (\<lambda>c. c \<lparr> session := Some (ss \<lparr> curr_stream_id := new_stream_id ?e \<rparr>),
                requests_awaiting_response := omap_insert int_less (requests_awaiting_response c) (new_stream_id ?e) r \<rparr>)
            (upd j (\<lambda>c. c \<lparr> source := (source c) \<lparr> requests_to_submit := rest \<rparr> \<rparr>) (called w))) = Inr w1"
        (is "on_request_start _ _ _ _ ?w = _")
      unfolding submit_scenario_request_def Let_def by (auto split: if_splits list.splits)
    have "opened env j ?w w1" using o by (rule on_request_start_opens) simp
    then have "opened env j w w1" by (rule opened_after) (use assms(2) in \<open>auto simp: view_defs\<close>)
    with True show ?thesis by simp
  qed
qed

lemma session_submit_cases:
  assumes "session_submit_request conf env j w = Inr (rv, w1)"
  shows "rv = 0 \<and> opened env j w w1 \<or> rv \<noteq> 0 \<and> quiet w w1"
proof -
  obtain ss where ss: "session (cl w j) = Some ss"
    using assms unfolding session_submit_request_def by (auto split: option.splits)
  let ?idx = "\<lambda>c :: client. c \<lparr> reqidx := (if reqidx (cl w j) + 1 = nva_size conf then 0 else reqidx (cl w j) + 1) \<rparr>"
  have q: "quiet w (called w)" "quiet w (upd j ?idx (called w))"
    by (auto intro!: quiet_intros simp: calm_defs)
  have a: "opened env j w w1" if "opened env j (called w) w1"
    using that by (rule opened_after) (simp_all add: ss)
  have b: "opened env j w w1" if "on_request_start conf env s j (upd j ?idx (called w)) = Inr w1" for s
  proof -
    have "opened env j (upd j ?idx (called w)) w1" using that by (rule on_request_start_opens) (simp add: ss)
    then show ?thesis by (rule opened_after) (auto simp: ss view_defs)
  qed
  show ?thesis
    using assms ss a b q submit_scenario_cases [of conf env ss j "called w" rv w1] quiet_trans [OF q(1)]
    unfolding session_submit_request_def Let_def by (auto split: if_splits)
qed

text \<open>What the remaining steps leave alone.\<close>

lemma shares_update [simp]: "shares (k \<lparr> w_stats := s \<rparr>) = shares k" "clock (k \<lparr> w_stats := s \<rparr>) = clock k"
  "roster (k \<lparr> w_stats := s \<rparr>) = roster k"
  by (simp_all add: shares_def clock_def roster_def)

lemma disconnect_effect:
  "calm_worker (wk w) (wk (disconnect env i w))" "n_created (disconnect env i w) = n_created w"
  "streams (cl (disconnect env i w) i) = []" "session (cl (disconnect env i w) i) = None"
  "counters (cl (disconnect env i w) j) = counters (cl w j)" "dest_clients (cl (disconnect env i w) j) = dest_clients (cl w j)"
  "parent_client (cl (disconnect env i w) j) = parent_client (cl w j)"
  "j \<noteq> i \<Longrightarrow> cl (disconnect env i w) j = cl w j"
  by (auto simp: disconnect_def cleanup_due_to_disconnect_def stop_def calm_worker_def view_defs)

lemma abandoned_effect:
  "wk (process_abandoned_streams conf i w) =
     (if phase_of w = MAIN_DURATION then (wk w) \<lparr> w_stats := count_abandoned
        (req_inflight (cl w i) + (if should_reconnect_on_disconnect conf i w then 0 else req_left (cl w i))) (w_stats (wk w)) \<rparr>
      else wk w)"
  "n_created (process_abandoned_streams conf i w) = n_created w"
  "cl (process_abandoned_streams conf i w) =
     (if phase_of w = MAIN_DURATION then (cl w) (i := (cl w i) \<lparr> req_inflight := 0,
        req_left := (if should_reconnect_on_disconnect conf i w then req_left (cl w i) else 0) \<rparr>) else cl w)"
  by (auto simp: process_abandoned_streams_def upd_def fun_eq_iff)

lemma timedout_effect:
  "\<exists>v. quiet w v \<and> process_timedout_streams conf env i w = process_abandoned_streams conf i v"
proof (cases "phase_of w = MAIN_DURATION")
  case True
  have "\<exists>v. quiet w v \<and> process_timedout_streams conf env i w = process_abandoned_streams conf i v"
    unfolding process_timedout_streams_def Let_def using True
    by (simp, intro exI conjI) (auto intro!: quiet_intros simp: calm_defs split: if_splits)
  then show ?thesis .
qed (auto simp: process_timedout_streams_def process_abandoned_streams_def intro!: exI [of _ w])

lemma signal_write_simps [simp]:
  "cl (signal_write i w) j = (if j = i then (cl w i) \<lparr> write_signaled := True \<rparr> else cl w j)"
  "wk (signal_write i w) = wk w" "n_created (signal_write i w) = n_created w"
  by (simp_all add: signal_write_def)

lemma enter_connection_effect:
  "calm_worker (wk w) (wk (enter_connection env i w))" "n_created (enter_connection env i w) = n_created w"
  "stream_view (cl (enter_connection env i w) j) = stream_view (cl w j)"
  "counters (cl (enter_connection env i w) j) = counters (cl w j)"
  "parent_client (cl (enter_connection env i w) j) = parent_client (cl w j)"
  "session (cl (enter_connection env i w) j) = None \<Longrightarrow> session (cl w j) = None"
  "session (cl (enter_connection env i w) j) \<noteq> None \<Longrightarrow> j = i \<or> session (cl w j) \<noteq> None"
  "stream_id_of (cl (enter_connection env i w) j) = (if j = i then 0 else stream_id_of (cl w j))"
  "dest_clients (cl (enter_connection env i w) j) =
     (if j = (case parent_client (cl w i) of None \<Rightarrow> i | Some p \<Rightarrow> p)
      then omap_set str_less (erase_client i (dest_clients (cl w j))) (dest_of (cl w i)) i else dest_clients (cl w j))"
  by (simp_all add: enter_connection_def Let_def update_this_in_dest_client_map_def calm_worker_def view_defs
      dest_of_def split: option.splits if_splits)

lemma request_failure_effect:
  assumes "process_request_failure conf rv i w = Inr w'"
  shows "if phase_of w = MAIN_DURATION
    then quiet (upd i (\<lambda>c. c \<lparr> req_left := (if rv = -2 \<or> should_reconnect_on_disconnect conf i w then req_left c else 0) \<rparr>)
            (upd_stats (count_abandoned (req_left (cl w i))) w)) w'
    else w' = w"
proof -
  let ?w = "upd_stats (count_abandoned (req_left (cl w i))) w"
  let ?v = "upd i (\<lambda>c. c \<lparr> req_left := (if rv = -2 \<or> should_reconnect_on_disconnect conf i w then req_left c else 0) \<rparr>) ?w"
  have same: "should_reconnect_on_disconnect conf i ?w = should_reconnect_on_disconnect conf i w"
    by (simp add: should_reconnect_on_disconnect_def is_test_finished_def is_controller_client_def phase_of_def)
  have id: "?v = ?w" if "rv = -2 \<or> should_reconnect_on_disconnect conf i w"
    using that by (simp add: upd_def)
  show ?thesis
    using assms id same unfolding process_request_failure_def Let_def
    by (auto split: if_splits dest!: quiet_graceful_restart_connection quiet_terminate_session)
qed

lemma count_submitted_effect:
  "cl (count_submitted conf n m i w) = (cl w) (i := (cl w i) \<lparr> cl_req_started := cl_req_started (cl w i) + 1,
     req_inflight := req_inflight (cl w i) + 1,
     req_left := (if is_timing_based_mode conf then req_left (cl w i) else sub64 (req_left (cl w i)) 1) \<rparr>)"
  "n_created (count_submitted conf n m i w) = n_created w"
  "w_stats (wk (count_submitted conf n m i w)) = count_started (w_stats (wk w))"
  "shares (wk (count_submitted conf n m i w)) = shares (wk w)"
  "clock (wk (count_submitted conf n m i w)) = clock (wk w)" "roster (wk (count_submitted conf n m i w)) = roster (wk w)"
  by (auto simp: count_submitted_def count_scenario_def shares_def clock_def roster_def fun_eq_iff)

lemma final_cleanup_effect:
  "calm_worker (wk w) (wk (final_cleanup env i w))" "n_created (final_cleanup env i w) = n_created w"
  "stream_view (cl (final_cleanup env i w) j) = stream_view (cl w j)"
  "counters (cl (final_cleanup env i w) j) = counters (cl w j)"
  "parent_client (cl (final_cleanup env i w) j) = parent_client (cl w j)"
  "session (cl (final_cleanup env i w) j) = session (cl w j)"
  "parent_client (cl w i) = None \<Longrightarrow> cl (final_cleanup env i w) = cl w"
  by (auto simp: final_cleanup_def Let_def calm_worker_def view_defs split: option.splits)

lemma init_connection_effect:
  "wk (init_connection_targert conf env i w) = wk w" "n_created (init_connection_targert conf env i w) = n_created w"
  "j \<noteq> i \<Longrightarrow> cl (init_connection_targert conf env i w) j = cl w j"
  "streams (cl (init_connection_targert conf env i w) j) = streams (cl w j)"
  "session (cl (init_connection_targert conf env i w) j) = session (cl w j)"
  "parent_client (cl (init_connection_targert conf env i w) j) = parent_client (cl w j)"
  "dest_clients (cl (init_connection_targert conf env i w) j) = dest_clients (cl w j)"
  "cl_req_todo (cl (init_connection_targert conf env i w) j) = cl_req_todo (cl w j)"
  "req_left (cl (init_connection_targert conf env i w) j) = req_left (cl w j)"
  "req_inflight (cl (init_connection_targert conf env i w) j) = req_inflight (cl w j)"
  "cl_req_started (cl (init_connection_targert conf env i w) j) = cl_req_started (cl w j)"
  "cl_req_done (cl (init_connection_targert conf env i w) j) = cl_req_done (cl w j)"
  by (simp_all add: init_connection_targert_def Let_def)

lemma new_client_effect:
  assumes "new_client conf env todo parent sch auth w = Inr (i, w')"
  shows "i = n_created w" "n_created w' = n_created w + 1" "wk w' = wk w"
    "counters (cl w' i) = [todo, if todo = 0 then 1 else todo, 0, 0, 0]" "streams (cl w' i) = []"
    "session (cl w' i) = None" "parent_client (cl w' i) = parent"
    "j \<noteq> i \<Longrightarrow> parent \<noteq> Some j \<Longrightarrow> cl w' j = cl w j"
    "parent = None \<Longrightarrow> \<exists>d. dest_clients (cl w' i) = [(d, i)]"
    "j \<noteq> i \<Longrightarrow> stream_view (cl w' j) = stream_view (cl w j) \<and> counters (cl w' j) = counters (cl w j) \<and>
       parent_client (cl w' j) = parent_client (cl w j) \<and> session (cl w' j) = session (cl w j)"
proof -
  obtain cursors where i: "i = n_created w" and w': "w' = init_connection_targert conf env i (update_this_in_dest_client_map i
      ((called w) \<lparr> n_created := i + 1, cl := (cl w)(i := fresh_client conf i todo parent sch auth cursors) \<rparr>))"
    using assms unfolding new_client_def Let_def by auto
  show "i = n_created w" by (rule i)
  note defs = w' init_connection_effect update_this_in_dest_client_map_def fresh_client_def Let_def view_defs i
  show "n_created w' = n_created w + 1" "wk w' = wk w" "streams (cl w' i) = []" "session (cl w' i) = None"
    "counters (cl w' i) = [todo, if todo = 0 then 1 else todo, 0, 0, 0]" "parent_client (cl w' i) = parent"
    "parent = None \<Longrightarrow> \<exists>d. dest_clients (cl w' i) = [(d, i)]"
    by (simp_all add: defs split: option.splits)
  show "j \<noteq> i \<Longrightarrow> parent \<noteq> Some j \<Longrightarrow> cl w' j = cl w j" by (auto simp: defs split: option.splits)
  show "j \<noteq> i \<Longrightarrow> stream_view (cl w' j) = stream_view (cl w j) \<and> counters (cl w' j) = counters (cl w j) \<and>
       parent_client (cl w' j) = parent_client (cl w j) \<and> session (cl w' j) = session (cl w j)"
    by (simp add: defs split: option.splits)
qed

lemma another_effect:
  assumes "find_or_create_of_controller conf env r i w = Inr (j, w')"
  shows "quiet w w' \<or> (\<exists>u s a. new_client conf env (cl_req_todo (cl w i)) (Some i) s a w = Inr (j, u) \<and>
     calm_worker (wk (check_in_client j u)) (wk w') \<and> n_created w' = n_created u \<and>
     (\<forall>k. stream_view (cl w' k) = stream_view (cl u k) \<and> counters (cl w' k) = counters (cl u k) \<and>
        parent_client (cl w' k) = parent_client (cl u k)))"
proof -
  have post: "calm_worker (wk (check_in_client j u)) (wk w3) \<and> n_created w3 = n_created u \<and>
     (\<forall>k. stream_view (cl w3 k) = stream_view (cl u k) \<and> counters (cl w3 k) = counters (cl u k) \<and>
        parent_client (cl w3 k) = parent_client (cl u k))"
    if "connect_to_host env s2 a2 j (upd i (\<lambda>c. c \<lparr> dest_clients := g c \<rparr>) (check_in_client j u)) = Inr w3" for u w3 s2 a2 g
    using quiet_connect_to_host [OF that] unfolding quiet_def calm_def
    by (auto simp: view_defs check_in_client_def)
  obtain s a where d: "deref (schema r) = Inr s" "deref (authority r) = Inr a"
    using assms unfolding find_or_create_of_controller_def by auto
  show ?thesis
  proof (cases "omap_find str_less (dest_clients (cl w i)) (s @ ''://'' @ a)")
    case None
    with assms d obtain u where n: "new_client conf env (cl_req_todo (cl w i)) (Some i) s a w = Inr (j, u)"
      and c: "connect_to_host env (cl_schema (cl (upd i (\<lambda>c. c \<lparr> dest_clients := omap_set str_less (dest_clients c) (s @ ''://'' @ a) j \<rparr>)
            (check_in_client j u)) j)) (cl_authority (cl (upd i (\<lambda>c. c \<lparr> dest_clients := omap_set str_less (dest_clients c) (s @ ''://'' @ a) j \<rparr>)
            (check_in_client j u)) j)) j
          (upd i (\<lambda>c. c \<lparr> dest_clients := omap_set str_less (dest_clients c) (s @ ''://'' @ a) j \<rparr>) (check_in_client j u)) = Inr w'"
      unfolding find_or_create_of_controller_def Let_def by auto
    from n post [OF c] show ?thesis by blast
  next
    case (Some k)
    with assms d have "w' = w" unfolding find_or_create_of_controller_def Let_def by auto
    then show ?thesis by simp
  qed
qed

lemma sample_request_effect [simp]:
  "cl (sample_request env rs w) = cl w" "n_created (sample_request env rs w) = n_created w"
  "tallies (w_stats (wk (sample_request env rs w))) = tallies (w_stats (wk w))"
  "scenario_stats (wk (sample_request env rs w)) = scenario_stats (wk w)"
  "shares (wk (sample_request env rs w)) = shares (wk w)"
  "clock (wk (sample_request env rs w)) = clock (wk w)" "roster (wk (sample_request env rs w)) = roster (wk w)"
  "w_clients (wk (sample_request env rs w)) = w_clients (wk w)"
  by (simp_all add: sample_request_def Let_def tallies_def shares_def clock_def roster_def)

lemma upd_stream_effect [simp]:
  "wk (upd_stream s f i w) = wk w" "n_created (upd_stream s f i w) = n_created w"
  "cl (upd_stream s f i w) j = (if j = i then (cl w i) \<lparr> streams :=
     (case omap_find int_less (streams (cl w i)) s of None \<Rightarrow> streams (cl w i)
      | Some x \<Rightarrow> omap_set int_less (streams (cl w i)) s (f x)) \<rparr> else cl w j)"
  by (simp_all add: upd_stream_def split: option.splits)

lemma tallies_count_close: "tallies s = tallies s' \<Longrightarrow> tallies (count_close b g s) = tallies (count_close b g s')"
  by (simp add: tallies_def count_close_def Let_def)

lemma count_scenario_effect [simp]:
  "cl (count_scenario m n f w) = cl w" "n_created (count_scenario m n f w) = n_created w"
  "w_stats (wk (count_scenario m n f w)) = w_stats (wk w)"
  "shares (wk (count_scenario m n f w)) = shares (wk w)"
  "clock (wk (count_scenario m n f w)) = clock (wk w)" "roster (wk (count_scenario m n f w)) = roster (wk w)"
  by (simp_all add: count_scenario_def shares_def clock_def roster_def)

text \<open>Closing an eligible stream, in the steps of the code.\<close>

lemma eligible_close_cases:
  assumes "count_eligible_close env s x b fin i w = Inr w'"
  obtains w1 m n g where
    "w1 = (if b then
             sample_request env ((req_stat x) \<lparr> completed := True \<rparr>)
              (upd i (\<lambda>c. c \<lparr> cstat := (cstat c) \<lparr> cs_req_success := cs_req_success (cstat c) + 1 \<rparr> \<rparr>)
                (upd_stream s (\<lambda>s. s \<lparr> req_stat := (req_stat s) \<lparr> completed := True \<rparr> \<rparr>) i w))
           else w)"
    and "w' = upd i (\<lambda>c. c \<lparr> cl_req_done := cl_req_done c + 1 \<rparr>) (upd_stats (count_close b g) w1) \<or>
      w' = count_scenario m n (count_close b g)
        (upd i (\<lambda>c. c \<lparr> cl_req_done := cl_req_done c + 1 \<rparr>) (upd_stats (count_close b g) w1))"
  using assms unfolding count_eligible_close_def update_scenario_based_stats_def Let_def
  by (auto split: option.splits if_splits)

lemma eligible_close_effect:
  assumes "count_eligible_close env s x b fin i w = Inr w'"
    and "omap_find int_less (streams (cl w i)) s = Some x"
  shows "n_created w' = n_created w" "j \<noteq> i \<Longrightarrow> cl w' j = cl w j" "stream_view (cl w' i) = stream_view (cl w i)"
    "dest_clients (cl w' i) = dest_clients (cl w i)" "parent_client (cl w' i) = parent_client (cl w i)"
    "session (cl w' i) = session (cl w i)"
    "cl_req_todo (cl w' i) = cl_req_todo (cl w i)" "req_left (cl w' i) = req_left (cl w i)"
    "req_inflight (cl w' i) = req_inflight (cl w i)" "cl_req_started (cl w' i) = cl_req_started (cl w i)"
    "\<exists>g. tallies (w_stats (wk w')) = tallies (count_close b g (w_stats (wk w)))"
    "clock (wk w') = clock (wk w)" "shares (wk w') = shares (wk w)" "roster (wk w') = roster (wk w)"
proof -
  obtain w1 m n g where
    w1: "w1 = (if b then
             sample_request env ((req_stat x) \<lparr> completed := True \<rparr>)
              (upd i (\<lambda>c. c \<lparr> cstat := (cstat c) \<lparr> cs_req_success := cs_req_success (cstat c) + 1 \<rparr> \<rparr>)
                (upd_stream s (\<lambda>s. s \<lparr> req_stat := (req_stat s) \<lparr> completed := True \<rparr> \<rparr>) i w))
           else w)"
    and w': "w' = upd i (\<lambda>c. c \<lparr> cl_req_done := cl_req_done c + 1 \<rparr>) (upd_stats (count_close b g) w1) \<or>
      w' = count_scenario m n (count_close b g)
        (upd i (\<lambda>c. c \<lparr> cl_req_done := cl_req_done c + 1 \<rparr>) (upd_stats (count_close b g) w1))"
    using assms(1) by (rule eligible_close_cases)
  have cl1: "cl w' j = (if j = i then (cl w1 i) \<lparr> cl_req_done := cl_req_done (cl w1 i) + 1 \<rparr> else cl w1 j)" for j
    using w' by auto
  have n1: "n_created w' = n_created w1" using w' by auto
  have k1: "w_stats (wk w') = count_close b g (w_stats (wk w1))" "clock (wk w') = clock (wk w1)"
    "shares (wk w') = shares (wk w1)" "roster (wk w') = roster (wk w1)"
    using w' by auto
  have t: "tallies (w_stats (wk w1)) = tallies (w_stats (wk w))" by (simp add: w1)
  show "j \<noteq> i \<Longrightarrow> cl w' j = cl w j" by (simp add: cl1 w1)
  show "stream_view (cl w' i) = stream_view (cl w i)"
    using stream_view_omap_set [OF assms(2), of statistics_eligible] assms(2) by (simp add: cl1 w1 stream_view_def)
  show "\<exists>g. tallies (w_stats (wk w')) = tallies (count_close b g (w_stats (wk w)))"
    using tallies_count_close [OF t] k1(1) by auto
  show "n_created w' = n_created w" "dest_clients (cl w' i) = dest_clients (cl w i)"
    "parent_client (cl w' i) = parent_client (cl w i)" "session (cl w' i) = session (cl w i)"
    "cl_req_todo (cl w' i) = cl_req_todo (cl w i)" "req_left (cl w' i) = req_left (cl w i)"
    "req_inflight (cl w' i) = req_inflight (cl w i)" "cl_req_started (cl w' i) = cl_req_started (cl w i)"
    "clock (wk w') = clock (wk w)" "shares (wk w') = shares (wk w)" "roster (wk w') = roster (wk w)"
    by (simp_all add: n1 cl1 k1 w1)
qed

lemma close_cases:
  assumes "count_stream_close conf env s b i w = Inr (known, w')"
    and "omap_find int_less (streams (cl w i)) s = Some x"
  obtains (outside) "\<not> eligible_phase (phase_of w)" "w' = w"
  | (inside) v where "eligible_phase (phase_of w)"
      "v = upd i (\<lambda>c. c \<lparr> req_inflight := req_inflight c - 1,
             rps_req_inflight := (if rps_mode conf then rps_req_inflight c - 1 else rps_req_inflight c) \<rparr>) w"
      "omap_find int_less (streams (cl v i)) s = Some x"
      "statistics_eligible x \<and> count_eligible_close env s x b (omap_find int_less (requests_awaiting_response (cl v i)) s) i v = Inr w' \<or>
       \<not> statistics_eligible x \<and> w' = v"
  using assms unfolding count_stream_close_def Let_def
  by (auto split: option.splits if_splits)

definition steady :: "load_config \<Rightarrow> world \<Rightarrow> world \<Rightarrow> bool" where
  "steady conf w w' \<longleftrightarrow> shares (wk w') = shares (wk w) \<and> last (snd (clock (wk w'))) = last (snd (clock (wk w))) \<and>
     (open_new_connection_based_on_authority_header conf \<or>
        n_created w' = n_created w \<and> roster (wk w') \<subseteq> roster (wk w))"

lemma steady_quiet: "quiet w w' \<Longrightarrow> steady conf w w'"
  by (simp add: steady_def quiet_def calm_worker_def)

lemma steady_trans: "steady conf w w1 \<Longrightarrow> steady conf w1 w2 \<Longrightarrow> steady conf w w2"
  by (auto simp: steady_def)

lemma steady_failure:
  assumes "process_request_failure conf rv i w = Inr w'"
  shows "steady conf w w'"
proof -
  have "steady conf w (upd i f (upd_stats g w))" for f g by (simp add: steady_def)
  then show ?thesis
    using request_failure_effect [OF assms] steady_quiet [OF quiet_refl]
    by (cases "phase_of w = MAIN_DURATION") (auto intro: steady_trans [OF _ steady_quiet])
qed

lemma steady_opened: "opened env j w w' \<Longrightarrow> steady conf w w'"
  by (simp add: steady_def opened_def calm_worker_def)

lemma steady_submitted: "steady conf w (count_submitted conf n m i w)"
  by (simp add: steady_def count_submitted_effect)

interpretation steady: event_relation conf env "\<lambda>_. True" "steady conf" for conf env
proof unfold_locales
  fix w w1 w2 :: world and i j s n m b and rv :: int and r
  show "steady conf w w1 \<Longrightarrow> steady conf w1 w2 \<Longrightarrow> steady conf w w2" by (rule steady_trans)
  show "quiet w w1 \<Longrightarrow> steady conf w w1" by (rule steady_quiet)
  have d: "steady conf v (disconnect env i v)" for v
    using disconnect_effect(1,2) [where w = v and env = env and i = i] by (simp add: steady_def calm_worker_def)
  then show "steady conf w (disconnect env i w)" .
  have a: "steady conf v (process_abandoned_streams conf i v)" for v by (simp add: steady_def abandoned_effect)
  then show "steady conf w (process_abandoned_streams conf i w)" .
  show "steady conf w (abandon_open i w)" by (simp add: steady_def abandon_open_def)
  obtain v where "quiet w v" "process_timedout_streams conf env i w = process_abandoned_streams conf i v"
    using timedout_effect by blast
  then show "steady conf w (disconnect env i (process_timedout_streams conf env i w))"
    using steady_quiet [of w v conf] a [of v] d [of "process_abandoned_streams conf i v"] by (auto simp: steady_def)
  show "steady conf w (enter_warm_up w)" by (simp add: steady_def enter_warm_up_def view_defs)
  show "steady conf w (enter_connection env i w)"
    using enter_connection_effect(1,2) [where w = w and env = env and i = i] by (simp add: steady_def calm_worker_def)
  show "open_new_connection_based_on_authority_header conf \<Longrightarrow>
      find_or_create_of_controller conf env r i w = Inr (j, w1) \<Longrightarrow> steady conf w w1"
    by (auto simp: steady_def calm_worker_def quiet_def check_in_client_def view_defs dest!: another_effect new_client_effect(3))
  show "session_submit_request conf env i w = Inr (rv, w1) \<Longrightarrow> rv \<noteq> 0 \<Longrightarrow>
      process_request_failure conf rv i w1 = Inr w2 \<Longrightarrow> steady conf w w2"
    by (auto dest!: session_submit_cases intro: steady_trans [OF steady_quiet steady_failure])
  show "session_submit_request conf env i w = Inr (0, w1) \<Longrightarrow> steady conf w w1"
    by (auto dest!: session_submit_cases intro: steady_opened)
  show "session_submit_request conf env j w = Inr (0, w1) \<Longrightarrow> quiet w1 w2 \<Longrightarrow> steady conf w (count_submitted conf n m i w2)"
    by (auto dest!: session_submit_cases intro: steady_trans [OF steady_opened steady_trans [OF steady_quiet steady_submitted]])
  show "steady conf w (resign i w)" by (auto simp: steady_def resign_def view_defs)
  show "steady conf w (final_cleanup env i w)"
    using final_cleanup_effect(1,2) [where w = w and env = env and i = i] by (simp add: steady_def calm_worker_def)
next
  fix s b i w w1 w2
  assume c: "count_stream_close conf env s b i w = Inr (True, w1)" and k: "omap_find int_less (streams (cl w i)) s \<noteq> None"
    and q: "quiet w1 w2"
  from k obtain x where x: "omap_find int_less (streams (cl w i)) s = Some x" by blast
  have "steady conf w w1"
    using c x by (rule close_cases) (auto simp: steady_def eligible_close_effect)
  then have "steady conf w w2" using steady_quiet [OF q] by (rule steady_trans)
  then show "steady conf w (erase_stream s i w2)" by (simp add: steady_def erase_stream_def)
qed simp_all

section \<open>Invariants of runs\<close>

text \<open>Clients are made only as long as there are fewer than \<^verbatim>\<open>nclients\<close>, unless a client opens further ones for
  other authorities. \<open>paced\<close> relates the two ways in which the code counts them; the worker only
  knows clients that have been made.\<close>

definition paced :: "load_config \<Rightarrow> world \<Rightarrow> bool" where
  "paced conf w \<longleftrightarrow> nconns_made (wk w) \<le> nclients (wk w) \<and> nclients (wk w) < 2 ^ 64 \<and>
     (open_new_connection_based_on_authority_header conf \<or> n_created w = nconns_made (wk w))"

definition born :: "load_config \<Rightarrow> world \<Rightarrow> bool" where
  "born conf w \<longleftrightarrow> open_new_connection_based_on_authority_header conf \<or> (\<forall>i \<in> roster (wk w). i < n_created w)"

lemma steadyD:
  assumes "steady conf w w'"
  shows "nclients (wk w') = nclients (wk w)" "nconns_made (wk w') = nconns_made (wk w)"
    "rate_timer (wk w') = rate_timer (wk w)"
    "open_new_connection_based_on_authority_header conf \<or> n_created w' = n_created w"
    "paced conf w' = paced conf w" "born conf w \<Longrightarrow> born conf w'"
  using assms by (auto simp: steady_def shares_def clock_def paced_def born_def)

lemma create_effect:
  assumes "create_with_share conf env w = Inr (i, w')"
  shows "i = n_created w" "n_created w' = n_created w + 1" "nclients (wk w') = nclients (wk w)"
    "nconns_made (wk w') = nconns_made (wk w)" "rate_timer (wk w') = rate_timer (wk w)" "roster (wk w') = roster (wk w)"
proof -
  obtain todo k where n: "next_share (wk w) = (todo, k)" by fastforce
  with assms have c: "new_client conf env todo None [] [] (w \<lparr> wk := k \<rparr>) = Inr (i, w')" by (simp add: create_with_share_def)
  from n have "nclients k = nclients (wk w)" "nconns_made k = nconns_made (wk w)" "rate_timer k = rate_timer (wk w)"
    "roster k = roster (wk w)" by (auto simp: next_share_def roster_def split: if_splits)
  with new_client_effect(1-3) [OF c] show "i = n_created w" "n_created w' = n_created w + 1" "nclients (wk w') = nclients (wk w)"
    "nconns_made (wk w') = nconns_made (wk w)" "rate_timer (wk w') = rate_timer (wk w)" "roster (wk w') = roster (wk w)"
    by simp_all
qed

lemma start_measuring_quiet: "start_measuring t cs w = Inr w' \<Longrightarrow> quiet w w'"
proof (induction t cs w rule: start_measuring.induct)
  case (3 t i cs w)
  have "quiet w (restart_connect_times t i (record_client_start_time t i w))" by (intro quiet_intros)
  with 3 show ?case by (auto split: if_splits intro: quiet_trans)
qed simp_all

lemma stop_clients_quiet: "stop_clients is w = Inr w' \<Longrightarrow> quiet w w'"
proof (induction "is" arbitrary: w)
  case (Cons i "is")
  then obtain w1 where "terminate_session i (setup_graceful_shutdown i w) = Inr w1" "stop_clients is w1 = Inr w'" by auto
  with Cons.IH quiet_terminate_session quiet_setup_graceful_shutdown [OF quiet_refl] show ?case by (blast intro: quiet_trans)
qed simp

text \<open>The ends of the two timed phases.\<close>

lemma warmup_effect:
  assumes "warmup_timeout_handler env w = Inr w'"
  obtains v where "quiet w v" "w' = upd_worker (\<lambda>k. k \<lparr> current_phase := MAIN_DURATION, duration_timer := True \<rparr>) v"
    "req_started (w_stats (wk w)) = 0" "req_done (w_stats (wk w)) = 0"
  using assms quiet_called [OF quiet_refl] unfolding warmup_timeout_handler_def
  by (auto split: if_splits dest!: start_measuring_quiet intro: quiet_trans)

lemma duration_effect:
  assumes "duration_timeout_handler conf w = Inr w'"
  obtains (graceful) "phase_of w = MAIN_DURATION" "scenarios_of conf \<noteq> []"
    "w' = upd_worker (\<lambda>k. k \<lparr> current_phase := MAIN_DURATION_GRACEFUL_SHUTDOWN, duration_timer := True \<rparr>) w"
  | (finished) v where "phase_of w \<noteq> MAIN_DURATION \<or> scenarios_of conf = []"
    "quiet (upd_worker (\<lambda>k. k \<lparr> current_phase := DURATION_OVER \<rparr>) w) v" "w' = upd_worker (\<lambda>k. k \<lparr> rate_timer := False \<rparr>) v"
  using assms unfolding duration_timeout_handler_def stop_all_clients_def
  by (auto split: if_splits dest!: stop_clients_quiet)

lemma phases_steady:
  "warmup_timeout_handler env (upd_worker (\<lambda>k. k \<lparr> warmup_timer := False \<rparr>) w) = Inr w' \<Longrightarrow> steady conf w w'"
  "duration_timeout_handler conf (upd_worker (\<lambda>k. k \<lparr> duration_timer := False \<rparr>) w) = Inr w' \<Longrightarrow>
     steady conf w (upd_worker (\<lambda>k. k \<lparr> rate_timer := rate_timer (wk w) \<rparr>) w')"
  by (auto elim!: warmup_effect duration_effect simp: quiet_def calm_worker_def steady_def view_defs)

definition keeps :: "(world \<Rightarrow> bool) \<Rightarrow> nat \<Rightarrow> world \<Rightarrow> world \<Rightarrow> bool" where
  "keeps I n w w' \<longleftrightarrow> (n \<le> n_created w \<and> I w \<longrightarrow> n \<le> n_created w' \<and> I w')"

locale world_invariant =
  fixes conf :: load_config and env :: "nat \<Rightarrow> client_env" and C :: "nat \<Rightarrow> nat \<Rightarrow> bool"
    and I :: "world \<Rightarrow> bool"
  assumes events: "event_relation conf env (C n) (keeps I n)"
    and below: "open_new_connection_based_on_authority_header conf \<or> i < n \<Longrightarrow> C n i"
    and created: "I w \<Longrightarrow> open_new_connection_based_on_authority_header conf \<or> n_created w < nclients (wk w) \<Longrightarrow>
          create_with_share conf env w = Inr (i, w') \<Longrightarrow> I w'"
    and registered: "I w \<Longrightarrow> I (check_in_client i w)" "I w \<Longrightarrow> is_timing_based_mode conf \<Longrightarrow> I (upd_worker (\<lambda>k. k \<lparr> w_clients := w_clients k @ [Some i] \<rparr>) w)"
    and counted_in: "I w \<Longrightarrow> I (upd_worker (\<lambda>k. k \<lparr> nconns_made := nconns_made k + 1 \<rparr>) w)"
    and rate_set: "I w \<Longrightarrow> I (upd_worker (\<lambda>k. k \<lparr> rate_timer := b \<rparr>) w)"
    and warmed_up: "I w \<Longrightarrow> warmup_timer (wk w) \<Longrightarrow>
          warmup_timeout_handler env (upd_worker (\<lambda>k. k \<lparr> warmup_timer := False \<rparr>) w) = Inr w' \<Longrightarrow> I w'"
    and over: "I w \<Longrightarrow> duration_timer (wk w) \<Longrightarrow>
          duration_timeout_handler conf (upd_worker (\<lambda>k. k \<lparr> duration_timer := False \<rparr>) w) = Inr w' \<Longrightarrow> I w'"
begin

lemma kept:
  assumes "\<And>n. C n i \<Longrightarrow> keeps I n w w'" "I w" "open_new_connection_based_on_authority_header conf \<or> i < n_created w"
  shows "I w'"
  using assms(1) [OF below, of "n_created w"] assms(2,3) by (auto simp: keeps_def)

lemmas connect_K = event_relation.connect_R [OF events]
lemmas fail_K = event_relation.fail_R [OF events]
lemmas destroy_K = event_relation.destroy_client_R [OF events]
lemmas handle_client_K = event_relation.handle_client_R [OF events]

text \<open>A new client is connected; if that fails it gives up.\<close>

lemma connect_I: "connect conf env i w = Inr (rv, w') \<Longrightarrow> I w \<Longrightarrow> I w'"
  using connect_K [of i w rv w' 0] by (simp add: keeps_def)

lemma fail_I: "I w \<Longrightarrow> open_new_connection_based_on_authority_header conf \<or> i < n_created w \<Longrightarrow> I (fail conf env i w)"
  using kept fail_K by blast

lemma destroy_I: "I w \<Longrightarrow> open_new_connection_based_on_authority_header conf \<or> i < n_created w \<Longrightarrow> I (destroy_client env i w)"
  using kept destroy_K by blast

lemma run_clients_I:
  "run_clients conf env n w = Inr w' \<Longrightarrow> I w \<Longrightarrow> born conf w \<Longrightarrow>
     open_new_connection_based_on_authority_header conf \<or> n_created w + n \<le> nclients (wk w) \<Longrightarrow>
     I w' \<and> born conf w' \<and> rate_timer (wk w') = rate_timer (wk w)"
proof (induction n arbitrary: w)
  case (Suc n)
  from Suc.prems(1) obtain i w1 rv w2 where c: "create_with_share conf env w = Inr (i, w1)"
    and d: "connect conf env i w1 = Inr (rv, w2)"
    and r: "run_clients conf env n (check_in_client i (if rv \<noteq> 0 then fail conf env i w2 else w2)) = Inr w'"
    by auto
  note ce = create_effect [OF c]
  define w3 where "w3 = (if rv \<noteq> 0 then fail conf env i w2 else w2)"
  have "I w1" using created [OF Suc.prems(2) _ c] Suc.prems(4) by auto
  note s2 = steadyD [OF steady.connect_R [OF d]]
  have "I w2" using connect_I [OF d \<open>I w1\<close>] .
  then have "I w3" using fail_I [of w2 i] s2(4) ce(1,2) by (auto simp: w3_def)
  have st: "steady conf w1 w3" using steady.connect_R [OF d] steady.trans [OF steady.connect_R [OF d] steady.fail_R] by (simp add: w3_def)
  note s3 = steadyD [OF st]
  have "born conf w1" using Suc.prems(3) ce by (fastforce simp: born_def)
  then have "born conf (check_in_client i w3)"
    using s3(4,6) ce(1,2) by (auto simp: born_def check_in_client_def roster_def)
  moreover have "I (check_in_client i w3)" using registered(1) \<open>I w3\<close> .
  moreover have "open_new_connection_based_on_authority_header conf \<or>
      n_created (check_in_client i w3) + n \<le> nclients (wk (check_in_client i w3))"
    using Suc.prems(4) s3(1,4) ce(2,3) by (auto simp: check_in_client_def)
  moreover have "rate_timer (wk (check_in_client i w3)) = rate_timer (wk w)"
    using s3(3) ce(5) by (simp add: check_in_client_def)
  ultimately show ?case using Suc.IH r unfolding w3_def [symmetric] by auto
qed simp

lemma rate_clients_I:
  "rate_clients conf env n w = Inr w' \<Longrightarrow> I w \<Longrightarrow> born conf w \<Longrightarrow> paced conf w \<Longrightarrow>
     nconns_made (wk w) + n \<le> nclients (wk w) \<Longrightarrow> I w' \<and> born conf w' \<and> paced conf w'"
proof (induction n arbitrary: w)
  case (Suc n)
  from Suc.prems(1) obtain i w0 rv w2 where c: "create_with_share conf env w = Inr (i, w0)"
    and d: "connect conf env i (upd_worker (\<lambda>k. k \<lparr> nconns_made := nconns_made k + 1 \<rparr>) w0) = Inr (rv, w2)"
    and r: "rate_clients conf env n
        (if rv \<noteq> 0 then destroy_client env i (fail conf env i w2)
         else check_in_client i
           (if is_timing_based_mode conf then upd_worker (\<lambda>k. k \<lparr> w_clients := w_clients k @ [Some i] \<rparr>) w2 else w2)) = Inr w'"
      (is "rate_clients conf env n ?w = _")
    by auto
  note ce = create_effect [OF c]
  define w1 where "w1 = upd_worker (\<lambda>k. k \<lparr> nconns_made := nconns_made k + 1 \<rparr>) w0"
  have "I w0" using created [OF Suc.prems(2) _ c] Suc.prems(4,5) by (auto simp: paced_def)
  then have "I w1" unfolding w1_def by (rule counted_in)
  have st: "steady conf w1 w2" using steady.connect_R [OF d] by (simp add: w1_def)
  note s2 = steadyD [OF st]
  have "I w2" using connect_I [OF d [folded w1_def] \<open>I w1\<close>] .
  have i2: "open_new_connection_based_on_authority_header conf \<or> i < n_created w2"
    using s2(4) ce(1,2) by (auto simp: w1_def)
  have sf: "steady conf w2 (fail conf env i w2)" "steady conf w2 (destroy_client env i (fail conf env i w2))"
    using steady.fail_R steady.trans [OF steady.fail_R steady.destroy_client_R] by auto
  have "I (fail conf env i w2)" using \<open>I w2\<close> i2 by (rule fail_I)
  moreover have "open_new_connection_based_on_authority_header conf \<or> i < n_created (fail conf env i w2)"
    using i2 steadyD(4) [OF sf(1)] by auto
  ultimately have "I (destroy_client env i (fail conf env i w2))" by (rule destroy_I)
  then have "I ?w"
    using registered(1) [OF \<open>I w2\<close>] registered(1) [OF registered(2) [OF \<open>I w2\<close>]] by simp
  have "roster (wk w1) = roster (wk w0)" by (simp add: w1_def roster_def)
  then have "born conf w1" using Suc.prems(3) ce(2,6) by (auto simp: born_def w1_def)
  with s2(6) have b2: "born conf w2" by blast
  then have "born conf ?w" using i2 steadyD(6) [OF sf(2)] by (auto simp: born_def check_in_client_def roster_def)
  moreover have "paced conf w1" using Suc.prems(4,5) ce by (auto simp: paced_def w1_def)
  then have "paced conf ?w" using s2(5) steadyD(5) [OF sf(2)] by (auto simp: check_in_client_def paced_def)
  moreover have "nconns_made (wk ?w) + n \<le> nclients (wk ?w)"
    using Suc.prems(5) ce(3,4) s2(1,2) steadyD(1,2) [OF sf(2)] by (auto simp: check_in_client_def w1_def)
  ultimately show ?case using Suc.IH [OF r \<open>I ?w\<close>] by blast
qed simp

lemma rate_period_I:
  assumes "rate_period_timeout_handler conf env w = Inr w'" "I w" "born conf w" "paced conf w"
  shows "I w' \<and> born conf w' \<and> paced conf w'"
proof -
  let ?n = "min (rate (wk w)) (sub64 (nclients (wk w)) (nconns_made (wk w)))"
  obtain w1 where r: "rate_clients conf env ?n w = Inr w1"
    and w': "w' = w1 \<or> w' = upd_worker (\<lambda>k. k \<lparr> rate_timer := False \<rparr>) w1"
    using assms(1) unfolding rate_period_timeout_handler_def by (auto split: if_splits)
  have "nconns_made (wk w) + ?n \<le> nclients (wk w)" using assms(4) by (auto simp: paced_def sub64_id)
  with rate_clients_I [OF r assms(2-4)] have "I w1" "born conf w1" "paced conf w1" by auto
  with w' rate_set show ?thesis by (auto simp: paced_def born_def roster_def)
qed

lemma run_I:
  assumes "run conf env w0 = Inr w" "I w0" "born conf w0" "paced conf w0" "n_created w0 = 0" "\<not> rate_timer (wk w0)"
  shows "I w \<and> born conf w \<and> (rate_timer (wk w) \<longrightarrow> paced conf w)"
proof (cases "\<not> is_rate_mode conf \<and> \<not> is_timing_based_mode conf")
  case True
  with assms run_clients_I [of "nclients (wk w0)" w0 w] show ?thesis by (simp add: run_def)
next
  case False
  let ?w = "if is_rate_mode conf then upd_worker (\<lambda>k. k \<lparr> rate_timer := True \<rparr>) w0 else w0"
  have "rate_period_timeout_handler conf env ?w = Inr w" using assms(1) False by (auto simp: run_def split: if_splits)
  moreover have "I ?w" "paced conf ?w" "born conf ?w" using assms(2,3,4) rate_set by (auto simp: paced_def born_def roster_def)
  ultimately show ?thesis using rate_period_I by blast
qed

lemma client_event_I:
  assumes "handle_client conf env e i w = Inr w'" "client_enabled e i w" "I w" "born conf w"
  shows "I w'"
proof -
  have "open_new_connection_based_on_authority_header conf \<or> i < n_created w"
    using assms(2,4) by (auto simp: client_enabled_def born_def roster_def)
  then show ?thesis using kept [of i w w'] handle_client_K [OF assms(1,2)] assms(3) by blast
qed

lemma tasks_I:
  assumes "I w" "born conf w"
  shows "I (run_tasks env w)"
  using event_relation.run_tasks_R [OF events, of w "n_created w"] assms
  by (auto simp: keeps_def born_def below)

lemma step_I:
  assumes "enabled ev w" "handle conf env ev w = Inr w'" "I w" "born conf w" "rate_timer (wk w) \<longrightarrow> paced conf w"
  shows "I w' \<and> born conf w' \<and> (rate_timer (wk w') \<longrightarrow> paced conf w')"
proof (cases ev)
  case (Client_Event i e)
  with assms(1,2) have h: "handle_client conf env e i w = Inr w'" "client_enabled e i w"
    by (simp_all add: handle_def enabled_def)
  with client_event_I [OF h] steadyD(3,5,6) [OF steady.handle_client_R [OF h]] assms show ?thesis by auto
next
  case Rate_Period
  with assms rate_period_I [of w w'] show ?thesis by (auto simp: handle_def enabled_def)
next
  case Warm_Up_Over
  with assms warmed_up [of w w'] steadyD [OF phases_steady(1) [of env w w' conf]] show ?thesis
    by (auto simp: handle_def enabled_def)
next
  case Duration_Over
  with assms have d: "duration_timeout_handler conf (upd_worker (\<lambda>k. k \<lparr> duration_timer := False \<rparr>) w) = Inr w'"
    "duration_timer (wk w)" by (simp_all add: handle_def enabled_def)
  then have "rate_timer (wk w') \<Longrightarrow> rate_timer (wk w)"
    by (auto elim!: duration_effect simp: quiet_def calm_worker_def clock_def)
  with assms over [OF _ d(2,1)] steadyD(5,6) [OF phases_steady(2) [OF d(1)]] show ?thesis
    by (auto simp: paced_def born_def roster_def)
next
  case Posted_Task
  have "steady conf w (run_tasks env w)" by (rule steady.run_tasks_R) simp
  with Posted_Task assms tasks_I [of w] steadyD(3,5,6) [of conf w "run_tasks env w"] show ?thesis
    by (auto simp: handle_def)
qed

lemma reachable_I:
  assumes "reachable conf env w0 w" "I w0" "born conf w0" "paced conf w0" "n_created w0 = 0" "\<not> rate_timer (wk w0)"
  shows "I w \<and> born conf w \<and> (rate_timer (wk w) \<longrightarrow> paced conf w)"
  using assms(1)
proof induction
  case (started w)
  then show ?case using assms run_I by blast
next
  case (event w ev w')
  then show ?case using step_I by blast
qed

end

end
