(* ===== verification/Accounting.thy ===== *)
theory Accounting
  imports Invariants
begin

text \<open>
  What holds in every world a run of the load generator reaches: the statistics agree with each
  other, and a timed test moves forward through its phases and counts nothing before the main phase.
  Both are interpretations of the locale of invariants.
\<close>

section \<open>The statistics agree\<close>

definition scenario_ok :: "stats \<Rightarrow> bool" where
  "scenario_ok s \<longleftrightarrow> stats_ok s \<and> req_done s = req_success s + req_error s"

definition consistent :: "world \<Rightarrow> bool" where
  "consistent w \<longleftrightarrow> stats_ok (w_stats (wk w)) \<and> list_all (list_all scenario_ok) (scenario_stats (wk w))"

lemma tallies_ok:
  assumes "tallies s = tallies s'"
  shows "stats_ok s = stats_ok s'" "scenario_ok s = scenario_ok s'" "settled s = settled s'"
  using assms by (simp_all add: tallies_def stats_ok_def scenario_ok_def settled_def)

lemma scenario_tallies:
  "map (map tallies) m = map (map tallies) m' \<Longrightarrow> list_all (list_all scenario_ok) m = list_all (list_all scenario_ok) m'"
proof -
  have inner: "map tallies a = map tallies b \<Longrightarrow> list_all scenario_ok a = list_all scenario_ok b" for a b
  proof (induction a arbitrary: b)
    case (Cons x a)
    then obtain y c where "b = y # c" "tallies x = tallies y" "map tallies a = map tallies c" by (cases b) auto
    with Cons.IH [of c] tallies_ok(2) [of x y] show ?case by simp
  qed simp
  assume "map (map tallies) m = map (map tallies) m'"
  then show ?thesis
  proof (induction m arbitrary: m')
    case (Cons a m)
    then obtain b n where "m' = b # n" "map tallies a = map tallies b" "map (map tallies) m = map (map tallies) n"
      by (cases m') auto
    with Cons.IH [of n] inner [of a b] show ?case by simp
  qed simp
qed

lemma consistent_calm: "calm_worker (wk w) (wk w') \<Longrightarrow> consistent w' = consistent w"
  using tallies_ok(1) [of "w_stats (wk w)" "w_stats (wk w')"] scenario_tallies [of "scenario_stats (wk w)" "scenario_stats (wk w')"]
  by (auto simp: consistent_def calm_worker_def)

lemma consistent_quiet: "quiet w w' \<Longrightarrow> consistent w' = consistent w"
  by (rule consistent_calm) (simp add: quiet_def)

lemma consistent_stats: "consistent w \<Longrightarrow> stats_ok (f (w_stats (wk w))) \<Longrightarrow> consistent (upd_stats f w)"
  by (simp add: consistent_def)

lemma consistent_upd [simp]: "consistent (upd i f w) = consistent w"
  by (simp add: consistent_def)

lemma consistent_scenario:
  assumes "consistent w" "\<And>s. scenario_ok s \<Longrightarrow> scenario_ok (f s)"
  shows "consistent (count_scenario m n f w)"
proof -
  have "list_all (list_all scenario_ok) (xs[m := (xs ! m)[n := f (xs ! m ! n)]])"
    if "list_all (list_all scenario_ok) xs" "m < length xs" "n < length (xs ! m)" for xs
    using that assms(2) by (auto simp: list_all_length nth_list_update)
  with assms(1) show ?thesis by (simp add: consistent_def count_scenario_def)
qed

lemma scenario_ok_count [simp]:
  "scenario_ok s \<Longrightarrow> scenario_ok (count_close b g s)" "scenario_ok s \<Longrightarrow> scenario_ok (count_started s)"
  by (auto simp: scenario_ok_def) (auto simp: count_close_def count_started_def Let_def)

lemma grows_quiet: "quiet w w' \<Longrightarrow> n_created w' = n_created w"
  by (simp add: quiet_def)

lemma consistent_failure:
  assumes "process_request_failure conf rv i w = Inr w'" "consistent w"
  shows "consistent w'" "n_created w' = n_created w"
proof -
  have c: "consistent (upd_stats (count_abandoned n) w)" for n
    using assms(2) by (intro consistent_stats) (simp_all add: consistent_def)
  show "consistent w'" "n_created w' = n_created w"
    using request_failure_effect [OF assms(1)] assms(2) c
    by (auto split: if_splits dest: consistent_quiet grows_quiet)
qed

lemma consistent_close:
  assumes "count_stream_close conf env s b i w = Inr (True, w')" "omap_find int_less (streams (cl w i)) s = Some x" "consistent w"
  shows "consistent w' \<and> n_created w' = n_created w"
  using assms(1,2)
proof (rule close_cases)
  fix v
  assume v: "v = upd i (\<lambda>c. c \<lparr> req_inflight := req_inflight c - 1,
             rps_req_inflight := (if rps_mode conf then rps_req_inflight c - 1 else rps_req_inflight c) \<rparr>) w"
    and x: "omap_find int_less (streams (cl v i)) s = Some x"
    and e: "statistics_eligible x \<and> count_eligible_close env s x b (omap_find int_less (requests_awaiting_response (cl v i)) s) i v = Inr w' \<or>
       \<not> statistics_eligible x \<and> w' = v"
  have cv: "consistent v" "n_created v = n_created w" using assms(3) by (simp_all add: v)
  have "consistent w'" if c: "count_eligible_close env s x b (omap_find int_less (requests_awaiting_response (cl v i)) s) i v = Inr w'"
    using c
  proof (rule eligible_close_cases)
    fix w1 m n g
    assume w1: "w1 = (if b then
             sample_request env ((req_stat x) \<lparr> completed := True \<rparr>)
              (upd i (\<lambda>c. c \<lparr> cstat := (cstat c) \<lparr> cs_req_success := cs_req_success (cstat c) + 1 \<rparr> \<rparr>)
                (upd_stream s (\<lambda>s. s \<lparr> req_stat := (req_stat s) \<lparr> completed := True \<rparr> \<rparr>) i v))
           else v)"
      and w': "w' = upd i (\<lambda>c. c \<lparr> cl_req_done := cl_req_done c + 1 \<rparr>) (upd_stats (count_close b g) w1) \<or>
        w' = count_scenario m n (count_close b g)
          (upd i (\<lambda>c. c \<lparr> cl_req_done := cl_req_done c + 1 \<rparr>) (upd_stats (count_close b g) w1))"
    have "calm_worker (wk v) (wk w1)" by (simp add: w1 calm_worker_def)
    then have "consistent w1" using cv(1) consistent_calm by blast
    then have "consistent (upd_stats (count_close b g) w1)" by (intro consistent_stats) (simp_all add: consistent_def)
    then show ?thesis using w' by (auto intro: consistent_scenario)
  qed
  with e cv eligible_close_effect(1) [OF _ x] show ?thesis by auto
qed (use assms(3) in simp)

lemma create_worker: "create_with_share conf env w = Inr (i, w') \<Longrightarrow> wk w' = snd (next_share (wk w))"
  unfolding create_with_share_def by (auto split: prod.splits dest: new_client_effect(3))

lemma consistent_submitted: "consistent w \<Longrightarrow> consistent (count_submitted conf m n i w)"
  unfolding count_submitted_def
  by (intro consistent_scenario) (auto simp: consistent_def)

interpretation consistent: world_invariant conf env "\<lambda>_ _. True" consistent for conf env
proof unfold_locales
  fix n w w1 w2 i j s b m and rv :: int and r a
  show "keeps consistent n w w1 \<Longrightarrow> keeps consistent n w1 w2 \<Longrightarrow> keeps consistent n w w2" by (auto simp: keeps_def)
  show "quiet w w1 \<Longrightarrow> keeps consistent n w w1" by (simp add: keeps_def consistent_quiet grows_quiet)
  have d: "consistent (disconnect env i v) = consistent v" "n_created (disconnect env i v) = n_created v" for v
    using consistent_calm disconnect_effect(1) disconnect_effect(2) by blast+
  then show "keeps consistent n w (disconnect env i w)" by (simp add: keeps_def)
  have a: "consistent v \<Longrightarrow> consistent (process_abandoned_streams conf i v)"
    "n_created (process_abandoned_streams conf i v) = n_created v" for v
    by (auto simp: abandoned_effect consistent_def)
  then show "keeps consistent n w (process_abandoned_streams conf i w)" by (simp add: keeps_def)
  show "keeps consistent n w (abandon_open i w)"
    by (auto simp: keeps_def abandon_open_def consistent_def)
  obtain v where "quiet w v" "process_timedout_streams conf env i w = process_abandoned_streams conf i v"
    using timedout_effect by blast
  then show "keeps consistent n w (disconnect env i (process_timedout_streams conf env i w))"
    by (simp add: keeps_def d a consistent_quiet grows_quiet)
  show "keeps consistent n w (enter_warm_up w)" by (simp add: keeps_def enter_warm_up_def consistent_def)
  show "keeps consistent n w (enter_connection env i w)"
    using consistent_calm [OF enter_connection_effect(1)] by (simp add: keeps_def enter_connection_effect(2))
  show "find_or_create_of_controller conf env r i w = Inr (j, w1) \<Longrightarrow> keeps consistent n w w1"
    by (auto simp: keeps_def consistent_quiet grows_quiet check_in_client_def new_client_effect
        dest!: another_effect consistent_calm) (auto simp: consistent_def new_client_effect)
  show "session_submit_request conf env i w = Inr (rv, w1) \<Longrightarrow> rv \<noteq> 0 \<Longrightarrow>
      process_request_failure conf rv i w1 = Inr w2 \<Longrightarrow> keeps consistent n w w2"
    by (auto simp: keeps_def consistent_quiet grows_quiet consistent_failure dest!: session_submit_cases)
  have o: "consistent u' = consistent u" "n_created u' = n_created u" if "opened env l u u'" for u u' l
    using that consistent_calm by (auto simp: opened_def)
  show "session_submit_request conf env i w = Inr (0, w1) \<Longrightarrow> keeps consistent n w w1"
    by (auto simp: keeps_def o dest!: session_submit_cases)
  show "session_submit_request conf env j w = Inr (0, w1) \<Longrightarrow> quiet w1 w2 \<Longrightarrow>
      keeps consistent n w (count_submitted conf m l i w2)" for l
    by (auto simp: keeps_def o consistent_quiet grows_quiet count_submitted_effect(2)
        intro!: consistent_submitted dest!: session_submit_cases)
  show "keeps consistent n w (resign i w)"
    by (auto simp: keeps_def resign_def consistent_def stats_ok_def)
  show "keeps consistent n w (final_cleanup env i w)"
    using consistent_calm [OF final_cleanup_effect(1)] by (simp add: keeps_def final_cleanup_effect(2))
  show "count_stream_close conf env s b i w = Inr (True, w1) \<Longrightarrow> omap_find int_less (streams (cl w i)) s \<noteq> None \<Longrightarrow>
      quiet w1 w2 \<Longrightarrow> keeps consistent n w (erase_stream s i w2)"
    by (auto simp: keeps_def erase_stream_def consistent_quiet grows_quiet dest: consistent_close)
  show "consistent w \<Longrightarrow> create_with_share conf env w = Inr (i, w1) \<Longrightarrow> consistent w1"
    by (drule create_worker) (simp add: consistent_def next_share_def split: if_splits)
  show "consistent w \<Longrightarrow> warmup_timeout_handler env (upd_worker (\<lambda>k. k \<lparr> warmup_timer := False \<rparr>) w) = Inr w1 \<Longrightarrow> consistent w1"
    by (auto elim!: warmup_effect dest!: consistent_quiet) (auto simp: consistent_def)
  show "consistent w \<Longrightarrow> duration_timeout_handler conf (upd_worker (\<lambda>k. k \<lparr> duration_timer := False \<rparr>) w) = Inr w1 \<Longrightarrow> consistent w1"
    by (auto elim!: duration_effect dest!: consistent_quiet) (auto simp: consistent_def)
qed (auto simp: consistent_def check_in_client_def)

section \<open>Phases\<close>

text \<open>Before the main phase nothing has been counted, in the worker and in every client.\<close>

definition cold :: "world \<Rightarrow> bool" where
  "cold w \<longleftrightarrow> req_started (w_stats (wk w)) = 0 \<and> req_done (w_stats (wk w)) = 0 \<and>
     nreqs_per_client (wk w) = 0 \<and> nreqs_rem (wk w) = 0 \<and> (\<forall>i. untouched (cl w i))"

definition orderly :: "world \<Rightarrow> bool" where
  "orderly w \<longleftrightarrow> (warmup_timer (wk w) \<longrightarrow> phase_of w = WARM_UP) \<and>
     (duration_timer (wk w) \<longrightarrow> phase_of w = MAIN_DURATION \<or> phase_of w = MAIN_DURATION_GRACEFUL_SHUTDOWN) \<and>
     (phase_of w < MAIN_DURATION \<longrightarrow> cold w)"

definition at_least :: "phase \<Rightarrow> world \<Rightarrow> bool" where
  "at_least p w \<longleftrightarrow> p \<le> phase_of w \<and> orderly w"

lemma phase_less [simp]:
  "p < MAIN_DURATION \<longleftrightarrow> p = INITIAL_IDLE \<or> p = WARM_UP" "INITIAL_IDLE \<le> p" "p \<le> DURATION_OVER"
  "MAIN_DURATION_GRACEFUL_SHUTDOWN \<le> p \<longleftrightarrow> p = MAIN_DURATION_GRACEFUL_SHUTDOWN \<or> p = DURATION_OVER"
  by (cases p; simp add: less_phase_def less_eq_phase_def phase_number_def)+

lemma phase_up [simp]:
  "p \<le> WARM_UP \<Longrightarrow> p \<le> MAIN_DURATION" "p \<le> MAIN_DURATION \<Longrightarrow> p \<le> MAIN_DURATION_GRACEFUL_SHUTDOWN"
  by (simp_all add: less_eq_phase_def phase_number_def)

lemma untouched_counters: "untouched c \<longleftrightarrow> counters c = [0, 1, 0, 0, 0]"
  by (auto simp: untouched_def counters_def)

text \<open>\<open>same_pace\<close>: the clock stands still, and nothing is counted before the main phase.\<close>

definition same_pace :: "world \<Rightarrow> world \<Rightarrow> bool" where
  "same_pace w w' \<longleftrightarrow> clock (wk w') = clock (wk w) \<and> shares (wk w') = shares (wk w) \<and>
     (phase_of w < MAIN_DURATION \<longrightarrow> req_started (w_stats (wk w')) = req_started (w_stats (wk w)) \<and>
        req_done (w_stats (wk w')) = req_done (w_stats (wk w)) \<and> ((\<forall>i. untouched (cl w i)) \<longrightarrow> (\<forall>i. untouched (cl w' i))))"

lemma same_pace_at_least: "same_pace w w' \<Longrightarrow> at_least p w \<Longrightarrow> at_least p w'"
  by (auto simp: same_pace_def at_least_def orderly_def cold_def clock_def shares_def phase_of_def)

lemma same_pace_trans: "same_pace w w1 \<Longrightarrow> same_pace w1 w2 \<Longrightarrow> same_pace w w2"
  by (auto simp: same_pace_def clock_def phase_of_def)

lemma same_pace_view:
  "calm_worker (wk w) (wk w') \<Longrightarrow> (\<And>i. counters (cl w' i) = counters (cl w i)) \<Longrightarrow> same_pace w w'"
  by (auto simp: same_pace_def calm_worker_def untouched_counters tallies_def)

lemma same_pace_quiet: "quiet w w' \<Longrightarrow> same_pace w w'"
  by (rule same_pace_view) (simp_all add: quiet_def calm_def)

lemma same_pace_main:
  "phase_of w = MAIN_DURATION \<or> eligible_phase (phase_of w) \<Longrightarrow> clock (wk w') = clock (wk w) \<Longrightarrow> shares (wk w') = shares (wk w) \<Longrightarrow> same_pace w w'"
  by (auto simp: same_pace_def eligible_phase_def)

lemma same_pace_failure:
  assumes "process_request_failure conf rv i w = Inr w'"
  shows "same_pace w w'" "n_created w' = n_created w"
proof -
  have "same_pace w (upd i f (upd_stats g w))" if "phase_of w = MAIN_DURATION" for f g
    using that by (intro same_pace_main) simp_all
  then show "same_pace w w'" using request_failure_effect [OF assms] same_pace_quiet [OF quiet_refl]
    by (cases "phase_of w = MAIN_DURATION") (auto intro: same_pace_trans [OF _ same_pace_quiet])
  show "n_created w' = n_created w"
    using request_failure_effect [OF assms] by (auto split: if_splits dest: grows_quiet)
qed

lemma same_pace_close:
  assumes "count_stream_close conf env s b i w = Inr (True, w')" "omap_find int_less (streams (cl w i)) s = Some x"
  shows "same_pace w w' \<and> n_created w' = n_created w"
  using assms
proof (rule close_cases)
  fix v
  assume e: "eligible_phase (phase_of w)" and v: "v = upd i (\<lambda>c. c \<lparr> req_inflight := req_inflight c - 1,
             rps_req_inflight := (if rps_mode conf then rps_req_inflight c - 1 else rps_req_inflight c) \<rparr>) w"
    and x: "omap_find int_less (streams (cl v i)) s = Some x"
    and c: "statistics_eligible x \<and> count_eligible_close env s x b (omap_find int_less (requests_awaiting_response (cl v i)) s) i v = Inr w' \<or>
       \<not> statistics_eligible x \<and> w' = v"
  have "clock (wk w') = clock (wk w)" "shares (wk w') = shares (wk w)" "n_created w' = n_created w"
    using c eligible_close_effect [OF _ x] by (auto simp: v)
  then show ?thesis using e same_pace_main by blast
qed (simp add: same_pace_quiet)

lemma same_pace_another:
  assumes "find_or_create_of_controller conf env r i w = Inr (j, w')"
  shows "same_pace w w'" "n_created w \<le> n_created w'"
proof -
  consider "quiet w w'" | u s a where "new_client conf env (cl_req_todo (cl w i)) (Some i) s a w = Inr (j, u)"
      "calm_worker (wk (check_in_client j u)) (wk w')" "n_created w' = n_created u" "\<And>k. counters (cl w' k) = counters (cl u k)"
    using another_effect [OF assms] by blast
  then have "same_pace w w' \<and> n_created w \<le> n_created w'"
  proof cases
    case 1
    then show ?thesis by (simp add: same_pace_quiet grows_quiet)
  next
    case (2 u s a)
    note e = new_client_effect [OF 2(1)]
    have "same_pace u w'" using 2(2,4)
      by (auto simp: same_pace_def calm_worker_def untouched_counters tallies_def check_in_client_def clock_def shares_def)
    moreover have "untouched (cl u k)" if "\<forall>k. untouched (cl w k)" for k
      using that e(4) e(10) [of k] by (cases "k = j") (auto simp: untouched_counters counters_def)
    then have "same_pace w u" by (simp add: same_pace_def e(3))
    ultimately show ?thesis using same_pace_trans e(2) 2(3) by fastforce
  qed
  then show "same_pace w w'" "n_created w \<le> n_created w'" by auto
qed

lemma create_pace:
  assumes "create_with_share conf env w = Inr (i, w')" "at_least p w"
  shows "at_least p w'"
proof -
  obtain todo k where n: "next_share (wk w) = (todo, k)" by fastforce
  with assms(1) have c: "new_client conf env todo None [] [] (w \<lparr> wk := k \<rparr>) = Inr (i, w')" by (simp add: create_with_share_def)
  note e = new_client_effect [OF c]
  have k: "clock k = clock (wk w)" "w_stats k = w_stats (wk w)"
    using n by (auto simp: next_share_def clock_def split: if_splits)
  have cold: "cold w'" if "cold w"
  proof -
    from that n have "todo = 0" "k = wk w" by (auto simp: cold_def next_share_def)
    with that e(3,4) e(10) have "untouched (cl w' j)" for j
      by (cases "j = i") (auto simp: cold_def untouched_counters)
    with that \<open>k = wk w\<close> e(3) show ?thesis by (simp add: cold_def)
  qed
  then show ?thesis using assms(2) k e(3) by (auto simp: at_least_def orderly_def clock_def phase_of_def)
qed

lemma keeps_pace: "same_pace w w' \<Longrightarrow> n_created w \<le> n_created w' \<Longrightarrow> keeps (at_least p) n w w'"
  by (auto simp: keeps_def intro: same_pace_at_least)

interpretation phases: world_invariant conf env "\<lambda>_ _. True" "at_least p" for conf env p
proof unfold_locales
  fix n w w1 w2 i j s b m and rv :: int and r
  show "keeps (at_least p) n w w1 \<Longrightarrow> keeps (at_least p) n w1 w2 \<Longrightarrow> keeps (at_least p) n w w2" by (auto simp: keeps_def)
  show "quiet w w1 \<Longrightarrow> keeps (at_least p) n w w1" by (simp add: keeps_pace same_pace_quiet grows_quiet)
  have d: "same_pace v (disconnect env i v)" for v
    by (intro same_pace_view disconnect_effect)
  then show "keeps (at_least p) n w (disconnect env i w)" by (simp add: keeps_pace disconnect_effect)
  have a: "same_pace v (process_abandoned_streams conf i v)" for v
    using same_pace_quiet [OF quiet_refl, of v] same_pace_main [of v "process_abandoned_streams conf i v"]
    by (cases "phase_of v = MAIN_DURATION") (simp_all add: abandoned_effect process_abandoned_streams_def)
  then show "keeps (at_least p) n w (process_abandoned_streams conf i w)" by (simp add: keeps_pace abandoned_effect)
  show "phase_of w = MAIN_DURATION \<Longrightarrow> keeps (at_least p) n w (abandon_open i w)"
    by (intro keeps_pace same_pace_main) (simp_all add: abandon_open_def)
  obtain v where "quiet w v" "process_timedout_streams conf env i w = process_abandoned_streams conf i v"
    using timedout_effect by blast
  then show "keeps (at_least p) n w (disconnect env i (process_timedout_streams conf env i w))"
    using d [of "process_abandoned_streams conf i v"] a [of v] same_pace_quiet [of w v]
    by (auto intro!: keeps_pace simp: disconnect_effect abandoned_effect grows_quiet intro: same_pace_trans)
  show "phase_of w = INITIAL_IDLE \<Longrightarrow> keeps (at_least p) n w (enter_warm_up w)"
    by (auto simp: keeps_def at_least_def orderly_def cold_def enter_warm_up_def phase_of_def)
      (metis phase_less(2) order_antisym)
  show "keeps (at_least p) n w (enter_connection env i w)"
    by (intro keeps_pace same_pace_view) (simp_all add: enter_connection_effect)
  show "find_or_create_of_controller conf env r i w = Inr (j, w1) \<Longrightarrow> keeps (at_least p) n w w1"
    by (simp add: keeps_pace same_pace_another)
  show "session_submit_request conf env i w = Inr (rv, w1) \<Longrightarrow> rv \<noteq> 0 \<Longrightarrow>
      process_request_failure conf rv i w1 = Inr w2 \<Longrightarrow> keeps (at_least p) n w w2"
    by (auto intro!: keeps_pace dest!: session_submit_cases simp: same_pace_failure(2) grows_quiet
        intro: same_pace_trans [OF same_pace_quiet same_pace_failure(1)])
  have o: "same_pace u u'" "n_created u' = n_created u" if "opened env l u u'" for u u' l
    using that by (auto simp: opened_def calm_def intro!: same_pace_view)
  show "session_submit_request conf env i w = Inr (0, w1) \<Longrightarrow> keeps (at_least p) n w w1"
    by (auto intro!: keeps_pace simp: o dest!: session_submit_cases)
  show "session_submit_request conf env j w = Inr (0, w1) \<Longrightarrow> phase_of w1 = MAIN_DURATION \<Longrightarrow> quiet w1 w2 \<Longrightarrow>
      keeps (at_least p) n w (count_submitted conf m l i w2)" for l
  proof -
    assume "session_submit_request conf env j w = Inr (0, w1)" and m: "phase_of w1 = MAIN_DURATION" and q: "quiet w1 w2"
    then have "opened env j w w1" by (auto dest: session_submit_cases)
    then have "same_pace w w1" "n_created w1 = n_created w" by (simp_all add: o)
    moreover have "same_pace w2 (count_submitted conf m l i w2)"
      using m quietD(6) [OF q] by (intro same_pace_main) (simp_all add: count_submitted_effect)
    ultimately show ?thesis using same_pace_quiet [OF q] grows_quiet [OF q]
      by (intro keeps_pace) (auto simp: count_submitted_effect intro: same_pace_trans [OF _ same_pace_trans])
  qed
  show "keeps (at_least p) n w (resign i w)"
    by (auto simp: keeps_def resign_def at_least_def orderly_def cold_def untouched_def phase_of_def)
  show "keeps (at_least p) n w (final_cleanup env i w)"
    by (intro keeps_pace same_pace_view) (simp_all add: final_cleanup_effect)
  show "count_stream_close conf env s b i w = Inr (True, w1) \<Longrightarrow> omap_find int_less (streams (cl w i)) s \<noteq> None \<Longrightarrow>
      quiet w1 w2 \<Longrightarrow> keeps (at_least p) n w (erase_stream s i w2)"
  proof -
    assume c: "count_stream_close conf env s b i w = Inr (True, w1)" and q: "quiet w1 w2"
      and "omap_find int_less (streams (cl w i)) s \<noteq> None"
    then obtain x where "omap_find int_less (streams (cl w i)) s = Some x" by blast
    with c have "same_pace w w1" "n_created w1 = n_created w" using same_pace_close by blast+
    moreover have "same_pace w2 (erase_stream s i w2)"
      by (rule same_pace_view) (simp_all add: erase_stream_def counters_def)
    ultimately show ?thesis using same_pace_quiet [OF q] grows_quiet [OF q]
      by (intro keeps_pace) (auto simp: erase_stream_def intro: same_pace_trans)
  qed
  show "at_least p w \<Longrightarrow> create_with_share conf env w = Inr (i, w1) \<Longrightarrow> at_least p w1" by (rule create_pace)
  show "at_least p w \<Longrightarrow> warmup_timer (wk w) \<Longrightarrow> warmup_timeout_handler env (upd_worker (\<lambda>k. k \<lparr> warmup_timer := False \<rparr>) w) = Inr w1 \<Longrightarrow> at_least p w1"
    by (auto elim!: warmup_effect simp: at_least_def orderly_def phase_of_def quiet_def calm_worker_def clock_def)
  show "at_least p w \<Longrightarrow> duration_timer (wk w) \<Longrightarrow> duration_timeout_handler conf (upd_worker (\<lambda>k. k \<lparr> duration_timer := False \<rparr>) w) = Inr w1 \<Longrightarrow> at_least p w1"
    by (auto elim!: duration_effect simp: at_least_def orderly_def phase_of_def quiet_def calm_worker_def clock_def)
qed (auto simp: at_least_def orderly_def cold_def phase_of_def check_in_client_def)

end
