(* ===== verification/Balance.thy ===== *)
theory Balance
  imports Accounting
begin

text \<open>
  A test with a given number of requests accounts for every one of them exactly once, and the
  number of streams a client has open is bounded. Both are invariants of runs in which clients do not
  open further connections for other authorities; the first also needs that there is no
  reconnecting, after which requests counted as failed are sent again, and that the stream
  ids of a connection are not used up.
\<close>

section \<open>Lone clients\<close>

text \<open>Without further connections a client has no parent and is the only destination it knows.\<close>

definition lone :: "nat \<Rightarrow> client \<Rightarrow> bool" where
  "lone i c \<longleftrightarrow> parent_client c = None \<and> (dest_clients c = [] \<or> (\<exists>d. dest_clients c = [(d, i)])) \<and>
     (session c \<noteq> None \<longrightarrow> dest_clients c \<noteq> [])"

lemma lone_calm: "calm c c' \<Longrightarrow> lone i c \<Longrightarrow> lone i c'"
  by (auto simp: calm_def lone_def)

lemma lone_dropped:
  "lone i c \<Longrightarrow> parent_client c' = parent_client c \<Longrightarrow> dest_clients c' = dest_clients c \<Longrightarrow>
     session c' = None \<or> session c \<noteq> None \<Longrightarrow> lone i c'"
  by (auto simp: lone_def)

lemma lone_entered:
  assumes "\<forall>j. lone j (cl w j)"
  shows "lone j (cl (enter_connection env i w) j)"
proof -
  from assms have p: "parent_client (cl w i) = None" and "dest_clients (cl w i) = [] \<or> (\<exists>d. dest_clients (cl w i) = [(d, i)])"
    by (auto simp: lone_def)
  then have e: "erase_client i (dest_clients (cl w i)) = []" by auto
  show ?thesis using assms [rule_format, of j] e p enter_connection_effect(7) [of env i w j]
    by (auto simp: lone_def enter_connection_effect)
qed

lemma lone_pending:
  assumes "\<forall>j. lone j (cl w j)" "session (cl w i) \<noteq> None"
  shows "get_total_pending_streams i w = 2 * length (streams (cl w i))"
proof -
  from assms obtain d where "parent_client (cl w i) = None" "dest_clients (cl w i) = [(d, i)]" by (auto simp: lone_def)
  then show ?thesis by (simp add: get_total_pending_streams_def pending_of_controller_def)
qed

lemma stays_down:
  assumes "\<forall>j. lone j (cl w j)" "\<not> connection_retry_on_disconnect conf"
  shows "\<not> should_reconnect_on_disconnect conf i w"
  using assms(1) [rule_format, of i] assms(2) by (auto simp: should_reconnect_on_disconnect_def lone_def)

section \<open>Streams and stream ids\<close>

lemma length_omap_set: "length (omap_set lt m k v) \<le> length m + 1"
  by (induction m) auto

lemma length_omap_erase: "omap_find int_less m k \<noteq> None \<Longrightarrow> length (omap_erase int_less m k) + 1 = length m"
  by (induction m) (auto split: if_splits)

lemma omap_find_in: "omap_find lt m k = Some v \<Longrightarrow> v \<in> snd ` set m"
  by (induction m) (auto split: if_splits)

lemma values_omap_set: "x \<in> set (omap_set lt m k v) \<Longrightarrow> snd x = v \<or> x \<in> set m"
  by (induction m) (auto split: if_splits)

lemma values_omap_erase: "set (omap_erase lt m k) \<subseteq> set m"
  by (induction m) (auto split: if_splits)

lemma exhausted_only:
  assumes "session_submit_request conf env j w = Inr (-2, w1)"
  shows "\<exists>n x. near_exhaustion (env n) x \<or> stream_id_of (cl w j) \<ge> 2 ^ 31 - 2"
  using assms unfolding session_submit_request_def submit_scenario_request_def
  by (auto simp: Let_def stream_id_of_def split: option.splits if_splits list.splits)

section \<open>The bound on open streams\<close>

definition bounded_streams :: "load_config \<Rightarrow> world \<Rightarrow> bool" where
  "bounded_streams conf w \<longleftrightarrow> open_new_connection_based_on_authority_header conf \<or>
     (\<forall>i. lone i (cl w i) \<and> 2 * length (streams (cl w i)) \<le> max_concurrent_streams_opt conf + 1)"

lemma bounded_view:
  assumes "bounded_streams conf w"
    and "\<not> open_new_connection_based_on_authority_header conf \<Longrightarrow> \<forall>i. lone i (cl w i) \<Longrightarrow> \<forall>i. lone i (cl w' i)"
    and "\<And>i. \<not> open_new_connection_based_on_authority_header conf \<Longrightarrow> \<forall>i. lone i (cl w i) \<Longrightarrow>
      length (streams (cl w' i)) \<le> length (streams (cl w i))"
  shows "bounded_streams conf w'"
proof (cases "open_new_connection_based_on_authority_header conf")
  case False
  with assms(1) have l: "\<forall>i. lone i (cl w i)" and b: "2 * length (streams (cl w i)) \<le> max_concurrent_streams_opt conf + 1" for i
    by (auto simp: bounded_streams_def)
  have "2 * length (streams (cl w' i)) \<le> max_concurrent_streams_opt conf + 1" for i
    using b [of i] assms(3) [OF False l, of i] by linarith
  with assms(2) [OF False l] show ?thesis by (auto simp: bounded_streams_def)
qed (simp add: bounded_streams_def)

lemma stream_view_length: "stream_view c' = stream_view c \<Longrightarrow> length (streams c') = length (streams c)"
  by (metis length_map stream_view_def)

lemma bounded_quiet: "quiet w w' \<Longrightarrow> bounded_streams conf w \<Longrightarrow> bounded_streams conf w'"
  by (erule bounded_view) (auto simp: quietD(2) intro: lone_calm simp: quiet_def)

lemma bounded_opened:
  assumes "opened env j w w'" "bounded_streams conf w"
    and "open_new_connection_based_on_authority_header conf \<or> get_total_pending_streams j w < max_concurrent_streams_opt conf"
  shows "bounded_streams conf w'"
proof (cases "open_new_connection_based_on_authority_header conf")
  case False
  with assms(2) have l: "\<forall>i. lone i (cl w i)" and b: "\<And>i. 2 * length (streams (cl w i)) \<le> max_concurrent_streams_opt conf + 1"
    by (auto simp: bounded_streams_def)
  from assms(1) have s: "session (cl w j) \<noteq> None" by (simp add: opened_def)
  from assms(1) obtain x where "stream_view (cl w' j) = omap_set int_less (stream_view (cl w j)) x (eligible_phase (phase_of w))"
    by (auto simp: opened_def)
  then have "length (streams (cl w' j)) \<le> length (streams (cl w j)) + 1"
    by (metis length_map length_omap_set stream_view_def)
  with lone_pending [OF l s] assms(3) False have "2 * length (streams (cl w' j)) \<le> max_concurrent_streams_opt conf + 1" by simp
  moreover have "length (streams (cl w' i)) = length (streams (cl w i))" if "i \<noteq> j" for i
    using assms(1) that by (auto simp: opened_def calm_def intro: stream_view_length)
  moreover have "lone i (cl w' i)" for i
    using assms(1) l [rule_format, of i] s by (cases "i = j") (auto simp: opened_def lone_def calm_def)
  ultimately show ?thesis using b by (auto simp: bounded_streams_def) (metis le_refl)
qed (simp add: bounded_streams_def)

lemma keepsI: "n_created w \<le> n_created w' \<Longrightarrow> (I w \<Longrightarrow> I w') \<Longrightarrow> keeps I n w w'"
  by (auto simp: keeps_def)

lemma bounded_cl: "(\<And>i. cl w' i = cl w i) \<Longrightarrow> bounded_streams conf w \<Longrightarrow> bounded_streams conf w'"
  by (simp add: bounded_streams_def)

lemma bounded_failure:
  assumes "process_request_failure conf rv i w = Inr w'" "bounded_streams conf w"
  shows "bounded_streams conf w'" "n_created w' = n_created w"
proof -
  have "bounded_streams conf (upd i (\<lambda>c. c \<lparr> req_left := h c \<rparr>) (upd_stats g w))" for g h
    using assms(2) by (rule bounded_view) (auto simp: lone_def)
  with request_failure_effect [OF assms(1)] assms(2) show "bounded_streams conf w'"
    by (auto split: if_splits intro: bounded_quiet)
  show "n_created w' = n_created w" using assms(1) by (rule same_pace_failure(2))
qed

lemma lone_disconnect: "\<forall>j. lone j (cl w j) \<Longrightarrow> lone j (cl (disconnect env i w) j)"
  using disconnect_effect(4,6,7,8) [where env = env and i = i and w = w] by (cases "j = i") (auto intro: lone_dropped)

lemma close_view:
  assumes "count_stream_close conf env s b i w = Inr (True, w1)" "omap_find int_less (streams (cl w i)) s = Some x"
  shows "stream_view (cl w1 i) = stream_view (cl w i) \<and> (\<forall>j. j \<noteq> i \<longrightarrow> cl w1 j = cl w j) \<and>
    dest_clients (cl w1 i) = dest_clients (cl w i) \<and> parent_client (cl w1 i) = parent_client (cl w i) \<and>
    session (cl w1 i) = session (cl w i) \<and> req_left (cl w1 i) = req_left (cl w i)"
  using assms
proof (rule close_cases)
  fix v
  assume v: "v = upd i (\<lambda>c. c \<lparr> req_inflight := req_inflight c - 1,
             rps_req_inflight := (if rps_mode conf then rps_req_inflight c - 1 else rps_req_inflight c) \<rparr>) w"
    and x: "omap_find int_less (streams (cl v i)) s = Some x"
    and c: "statistics_eligible x \<and> count_eligible_close env s x b (omap_find int_less (requests_awaiting_response (cl v i)) s) i v = Inr w1 \<or>
       \<not> statistics_eligible x \<and> w1 = v"
  have "stream_view (cl v i) = stream_view (cl w i)" by (simp add: v stream_view_def)
  with c eligible_close_effect(2-8) [OF _ x] show ?thesis by (auto simp: v)
qed simp

lemma bounded_close:
  assumes "count_stream_close conf env s b i w = Inr (True, w1)" "omap_find int_less (streams (cl w i)) s = Some x"
    "quiet w1 w2" "bounded_streams conf w"
  shows "bounded_streams conf (erase_stream s i w2)"
proof -
  have view: "stream_view (cl w1 i) = stream_view (cl w i)" "\<And>j. j \<noteq> i \<Longrightarrow> cl w1 j = cl w j"
    "dest_clients (cl w1 i) = dest_clients (cl w i)" "parent_client (cl w1 i) = parent_client (cl w i)"
    "session (cl w1 i) = session (cl w i)"
    using close_view [OF assms(1,2)] by auto
  have "bounded_streams conf w1" using assms(4)
  proof (rule bounded_view)
    show "length (streams (cl w1 j)) \<le> length (streams (cl w j))" for j
      using view stream_view_length [OF view(1)] by (cases "j = i") auto
    show "\<forall>i. lone i (cl w1 i)" if "\<forall>i. lone i (cl w i)"
      using that view by (metis lone_def)
  qed
  then have "bounded_streams conf w2" using assms(3) bounded_quiet by blast
  then show ?thesis
  proof (rule bounded_view)
    show "length (streams (cl (erase_stream s i w2) j)) \<le> length (streams (cl w2 j))" for j
    proof -
      have "length (omap_erase int_less m s) \<le> length m" for m :: "(int \<times> stream) list" by (induction m) auto
      then show ?thesis by (simp add: erase_stream_def)
    qed
  qed (auto simp: erase_stream_def lone_def)
qed

lemma grows_erase [simp]: "n_created (erase_stream s i w) = n_created w"
  by (simp add: erase_stream_def)

lemma bounded_create:
  assumes "bounded_streams conf w" "create_with_share conf env w = Inr (i, w')"
  shows "bounded_streams conf w'"
proof -
  obtain todo k where "next_share (wk w) = (todo, k)" by fastforce
  with assms(2) have "new_client conf env todo None [] [] (w \<lparr> wk := k \<rparr>) = Inr (i, w')" by (simp add: create_with_share_def)
  note e = new_client_effect(5-9) [OF this]
  have "lone j (cl w' j) \<and> length (streams (cl w' j)) \<le> length (streams (cl w j))" if "\<forall>j. lone j (cl w j)" for j
    using that e(1,2,3,5) e(4) [of j] by (cases "j = i") (auto simp: lone_def)
  with assms(1) show ?thesis by (intro bounded_view [OF assms(1)]) auto
qed

interpretation limit: world_invariant conf env "\<lambda>_ _. True" "bounded_streams conf" for conf env
proof unfold_locales
  fix n w w1 w2 i j s b m and rv :: int and r
  show "keeps (bounded_streams conf) n w w1 \<Longrightarrow> keeps (bounded_streams conf) n w1 w2 \<Longrightarrow> keeps (bounded_streams conf) n w w2"
    by (auto simp: keeps_def)
  show "quiet w w1 \<Longrightarrow> keeps (bounded_streams conf) n w w1" by (auto intro!: keepsI intro: bounded_quiet simp: grows_quiet)
  have d: "bounded_streams conf v \<Longrightarrow> bounded_streams conf (disconnect env i v)" for v
    by (erule bounded_view, blast intro: lone_disconnect) (metis disconnect_effect(3,8) le0 le_refl list.size(3))
  then show "keeps (bounded_streams conf) n w (disconnect env i w)" by (intro keepsI) (simp_all add: disconnect_effect)
  have a: "bounded_streams conf v \<Longrightarrow> bounded_streams conf (process_abandoned_streams conf i v)" for v
    by (erule bounded_view) (auto simp: abandoned_effect lone_def)
  then show "keeps (bounded_streams conf) n w (process_abandoned_streams conf i w)" by (intro keepsI) (simp_all add: abandoned_effect)
  have "bounded_streams conf w \<Longrightarrow> bounded_streams conf (abandon_open i w)"
    by (erule bounded_view) (auto simp: abandon_open_def lone_def)
  then show "keeps (bounded_streams conf) n w (abandon_open i w)" by (intro keepsI) (simp_all add: abandon_open_def)
  obtain v where "quiet w v" "process_timedout_streams conf env i w = process_abandoned_streams conf i v"
    using timedout_effect by blast
  then show "keeps (bounded_streams conf) n w (disconnect env i (process_timedout_streams conf env i w))"
    by (intro keepsI) (auto simp: disconnect_effect abandoned_effect grows_quiet intro!: d a intro: bounded_quiet)
  show "keeps (bounded_streams conf) n w (enter_warm_up w)"
    by (simp add: keeps_def bounded_streams_def enter_warm_up_def)
  have "bounded_streams conf w \<Longrightarrow> bounded_streams conf (enter_connection env i w)"
    by (erule bounded_view) (auto simp: stream_view_length [OF enter_connection_effect(3)] intro: lone_entered)
  then show "keeps (bounded_streams conf) n w (enter_connection env i w)" by (intro keepsI) (simp_all add: enter_connection_effect)
  show "open_new_connection_based_on_authority_header conf \<Longrightarrow> find_or_create_of_controller conf env r i w = Inr (j, w1) \<Longrightarrow>
      keeps (bounded_streams conf) n w w1"
    by (intro keepsI) (simp_all add: same_pace_another bounded_streams_def)
  show "session_submit_request conf env i w = Inr (rv, w1) \<Longrightarrow> rv \<noteq> 0 \<Longrightarrow>
      process_request_failure conf rv i w1 = Inr w2 \<Longrightarrow> keeps (bounded_streams conf) n w w2"
    by (auto simp: keeps_def grows_quiet bounded_failure bounded_quiet dest!: session_submit_cases)
  show "session_submit_request conf env i w = Inr (0, w1) \<Longrightarrow> open_new_connection_based_on_authority_header conf \<or>
      get_total_pending_streams i w < max_concurrent_streams_opt conf \<Longrightarrow> keeps (bounded_streams conf) n w w1"
    by (intro keepsI) (auto dest!: session_submit_cases intro: bounded_opened simp: opened_def)
  show "session_submit_request conf env j w = Inr (0, w1) \<Longrightarrow>
      open_new_connection_based_on_authority_header conf \<or>
        j = i \<and> get_total_pending_streams i w < max_concurrent_streams_opt conf \<Longrightarrow> quiet w1 w2 \<Longrightarrow>
      keeps (bounded_streams conf) n w (count_submitted conf m l i w2)" for l
  proof -
    assume s: "session_submit_request conf env j w = Inr (0, w1)" and q: "quiet w1 w2" and
      p: "open_new_connection_based_on_authority_header conf \<or>
        j = i \<and> get_total_pending_streams i w < max_concurrent_streams_opt conf"
    have o: "opened env j w w1" using session_submit_cases [OF s] by simp
    have c: "bounded_streams conf v \<Longrightarrow> bounded_streams conf (count_submitted conf m l i v)" for v
      by (erule bounded_view) (auto simp: count_submitted_effect lone_def)
    show ?thesis
      using o p by (intro keepsI c bounded_quiet [OF q] bounded_opened [OF o]) (auto simp: count_submitted_effect grows_quiet [OF q] opened_def)
  qed
  show "keeps (bounded_streams conf) n w (resign i w)"
    by (intro keepsI, simp add: resign_def, erule bounded_view) (auto simp: resign_def lone_def)
  have "bounded_streams conf w \<Longrightarrow> bounded_streams conf (final_cleanup env i w)"
    by (erule bounded_view) (auto simp: stream_view_length [OF final_cleanup_effect(3)] final_cleanup_effect(7) lone_def)
  then show "keeps (bounded_streams conf) n w (final_cleanup env i w)" by (intro keepsI) (simp_all add: final_cleanup_effect)
  show "count_stream_close conf env s b i w = Inr (True, w1) \<Longrightarrow> omap_find int_less (streams (cl w i)) s \<noteq> None \<Longrightarrow>
      quiet w1 w2 \<Longrightarrow> keeps (bounded_streams conf) n w (erase_stream s i w2)"
    by (auto intro!: keepsI intro: bounded_close dest: same_pace_close simp: grows_erase grows_quiet)
  show "bounded_streams conf w \<Longrightarrow> create_with_share conf env w = Inr (i, w1) \<Longrightarrow> bounded_streams conf w1"
    by (rule bounded_create)
  show "bounded_streams conf w \<Longrightarrow> warmup_timeout_handler env (upd_worker (\<lambda>k. k \<lparr> warmup_timer := False \<rparr>) w) = Inr w1 \<Longrightarrow> bounded_streams conf w1"
    by (auto elim!: warmup_effect dest!: bounded_quiet [where conf = conf]) (simp_all add: bounded_streams_def)
  show "bounded_streams conf w \<Longrightarrow> duration_timeout_handler conf (upd_worker (\<lambda>k. k \<lparr> duration_timer := False \<rparr>) w) = Inr w1 \<Longrightarrow> bounded_streams conf w1"
    by (auto elim!: duration_effect dest!: bounded_quiet [where conf = conf]) (simp_all add: bounded_streams_def)
qed (auto simp: bounded_streams_def check_in_client_def)

section \<open>Every request is accounted for\<close>

text \<open>What a client still owes: the requests it has open and those it has left. Counters are 64 bit
  numbers, so the account is kept modulo $2^{64}$.\<close>

definition debt :: "client \<Rightarrow> nat" where
  "debt c = req_inflight c + req_left c"

definition due :: "world \<Rightarrow> nat" where
  "due w = settled (w_stats (wk w)) + (\<Sum>i < n_created w. debt (cl w i)) +
     (nclients (wk w) - n_created w) * nreqs_per_client (wk w) + nreqs_rem (wk w)"

definition plain_conf :: "load_config \<Rightarrow> (nat \<Rightarrow> client_env) \<Rightarrow> bool" where
  "plain_conf conf env \<longleftrightarrow> \<not> open_new_connection_based_on_authority_header conf \<and> \<not> connection_retry_on_disconnect conf \<and>
     \<not> is_timing_based_mode conf \<and> (\<forall>n x. \<not> near_exhaustion (env n) x) \<and> (\<forall>n. new_stream_id (env n) < 2 ^ 31 - 2)"

text \<open>The streams a client has open are among the requests it counts as open, and are counted.\<close>

definition open_ok :: "nat \<Rightarrow> client \<Rightarrow> bool" where
  "open_ok i c \<longleftrightarrow> lone i c \<and> length (stream_view c) \<le> req_inflight c \<and> (\<forall>x \<in> set (stream_view c). snd x) \<and>
     stream_id_of c < 2 ^ 31 - 2"

definition balanced :: "load_config \<Rightarrow> (nat \<Rightarrow> client_env) \<Rightarrow> nat \<Rightarrow> world \<Rightarrow> bool" where
  "balanced conf env todo w \<longleftrightarrow> plain_conf conf env \<and> phase_of w = MAIN_DURATION \<and>
     \<not> warmup_timer (wk w) \<and> \<not> duration_timer (wk w) \<and> (\<forall>i. open_ok i (cl w i)) \<and>
     n_created w \<le> nclients (wk w) \<and> nreqs_rem (wk w) \<le> nclients (wk w) - n_created w \<and> nreqs_per_client (wk w) > 0 \<and>
     due w mod 2 ^ 64 = todo mod 2 ^ 64"

text \<open>A step of one client keeps the account if it does so for this client.\<close>

definition pays :: "nat \<Rightarrow> world \<Rightarrow> world \<Rightarrow> bool" where
  "pays i w w' \<longleftrightarrow> clock (wk w') = clock (wk w) \<and> shares (wk w') = shares (wk w) \<and> n_created w' = n_created w \<and>
     (\<forall>j. j \<noteq> i \<longrightarrow> debt (cl w' j) = debt (cl w j)) \<and> (\<forall>j. open_ok j (cl w' j)) \<and>
     (settled (w_stats (wk w')) + debt (cl w' i)) mod 2 ^ 64 = (settled (w_stats (wk w)) + debt (cl w i)) mod 2 ^ 64"

lemma pays_due:
  assumes "pays i w w'" "i < n_created w"
  shows "due w' mod 2 ^ 64 = due w mod 2 ^ 64"
proof -
  let ?rest = "\<lambda>v. (\<Sum>j \<in> {..< n_created w} - {i}. debt (cl v j))"
  have split: "(\<Sum>j < n_created w. debt (cl v j)) = debt (cl v i) + ?rest v" for v
    using assms(2) by (simp add: sum.remove)
  have rest: "?rest w' = ?rest w" using assms(1) by (intro sum.cong) (auto simp: pays_def)
  from assms(1) have k: "n_created w' = n_created w" "nclients (wk w') = nclients (wk w)"
    "nreqs_per_client (wk w') = nreqs_per_client (wk w)" "nreqs_rem (wk w') = nreqs_rem (wk w)"
    by (auto simp: pays_def shares_def)
  define u where "u = ?rest w + (nclients (wk w) - n_created w) * nreqs_per_client (wk w) + nreqs_rem (wk w)"
  have w: "due w = (settled (w_stats (wk w)) + debt (cl w i)) + u"
    by (simp only: due_def split u_def ac_simps)
  have w': "due w' = (settled (w_stats (wk w')) + debt (cl w' i)) + u"
    by (simp only: due_def k split rest u_def ac_simps)
  from assms(1) have e: "(settled (w_stats (wk w')) + debt (cl w' i)) mod 2 ^ 64 = (settled (w_stats (wk w)) + debt (cl w i)) mod 2 ^ 64"
    by (simp only: pays_def)
  show ?thesis unfolding w w' using mod_add_cong [OF e HOL.refl [of "u mod 2 ^ 64"]] by this
qed

lemma pays_keeps:
  assumes "i < n \<or> open_new_connection_based_on_authority_header conf"
    and "balanced conf env todo w \<Longrightarrow> pays i w w'"
  shows "keeps (balanced conf env todo) n w w'"
proof -
  have "balanced conf env todo w'" "n_created w' = n_created w" if b: "balanced conf env todo w" "n \<le> n_created w"
  proof -
    from assms(1) b have i: "i < n_created w" by (auto simp: balanced_def plain_conf_def)
    note p = assms(2) [OF b(1)]
    show "n_created w' = n_created w" using p by (simp add: pays_def)
    show "balanced conf env todo w'"
      using b(1) p pays_due [OF p i] by (auto simp: balanced_def pays_def clock_def shares_def phase_of_def)
  qed
  then show ?thesis by (auto simp: keeps_def)
qed

text \<open>A step that changes no debt keeps the account whatever client makes it.\<close>

lemma balanced_same:
  assumes "balanced conf env todo w" "clock (wk w') = clock (wk w)" "shares (wk w') = shares (wk w)" "n_created w' = n_created w"
    and "settled (w_stats (wk w')) = settled (w_stats (wk w))" "\<And>j. debt (cl w' j) = debt (cl w j)" "\<And>j. open_ok j (cl w' j)"
  shows "balanced conf env todo w'"
proof -
  have k: "nclients (wk w') = nclients (wk w)" "nreqs_per_client (wk w') = nreqs_per_client (wk w)" "nreqs_rem (wk w') = nreqs_rem (wk w)"
    using assms(3) by (auto simp: shares_def)
  have "due w' = due w" by (simp only: due_def k assms(4,5,6))
  with assms k show ?thesis by (auto simp: balanced_def clock_def phase_of_def)
qed

lemma debt_counters: "counters c' = counters c \<Longrightarrow> debt c' = debt c \<and> req_inflight c' = req_inflight c"
  by (simp add: counters_def debt_def)

lemma open_ok_view:
  assumes "open_ok i c" "lone i c'" "stream_view c' = stream_view c \<or> stream_view c' = []" "req_inflight c' = req_inflight c"
    "stream_id_of c' = stream_id_of c \<or> stream_id_of c' = 0"
  shows "open_ok i c'"
  using assms by (auto simp: open_ok_def)

lemma open_ok_calm:
  assumes "calm c c'" "open_ok i c"
  shows "open_ok i c'"
  using assms(2) lone_calm [OF assms(1), of i] assms(1) debt_counters [of c' c] by (auto simp: open_ok_def calm_def)

lemma calm_settled: "calm_worker k k' \<Longrightarrow> settled (w_stats k') = settled (w_stats k) \<and> clock k' = clock k \<and> shares k' = shares k"
  by (auto simp: calm_worker_def intro: tallies_ok(3))

lemma balanced_open: "balanced conf env todo w \<Longrightarrow> open_ok i (cl w i)"
  by (simp add: balanced_def)

lemma balanced_lone: "balanced conf env todo w \<Longrightarrow> \<forall>i. lone i (cl w i)"
  by (simp add: balanced_def open_ok_def)

lemma balanced_down: "balanced conf env todo w \<Longrightarrow> \<not> should_reconnect_on_disconnect conf i w"
  using balanced_lone stays_down by (auto simp: balanced_def plain_conf_def)

lemma balanced_quiet:
  assumes "quiet w w'" "balanced conf env todo w"
  shows "balanced conf env todo w'"
proof (rule balanced_same [OF assms(2)])
  show "clock (wk w') = clock (wk w)" "shares (wk w') = shares (wk w)" "n_created w' = n_created w"
    "settled (w_stats (wk w')) = settled (w_stats (wk w))"
    using assms(1) calm_settled [of "wk w" "wk w'"] by (auto simp: quiet_def)
  fix j
  show "debt (cl w' j) = debt (cl w j)" using quietD(3) [OF assms(1)] debt_counters by blast
  from assms(1) have "calm (cl w j) (cl w' j)" by (simp add: quiet_def)
  then show "open_ok j (cl w' j)" using balanced_open [OF assms(2)] by (rule open_ok_calm)
qed

lemma balanced_disconnect:
  assumes "balanced conf env todo w"
  shows "balanced conf env todo (disconnect env' i w)"
proof (rule balanced_same [OF assms])
  let ?w = "disconnect env' i w"
  show "clock (wk ?w) = clock (wk w)" "shares (wk ?w) = shares (wk w)" "n_created ?w = n_created w"
    "settled (w_stats (wk ?w)) = settled (w_stats (wk w))"
    using calm_settled [OF disconnect_effect(1) [where w = w and env = env' and i = i]] by (auto simp: disconnect_effect)
  fix j
  show "debt (cl ?w j) = debt (cl w j)" using disconnect_effect(5) debt_counters by blast
  show "open_ok j (cl ?w j)"
  proof (cases "j = i")
    case True
    show ?thesis unfolding True
      using lone_disconnect [OF balanced_lone [OF assms], of i] disconnect_effect(3,4) [of env' i w]
      by (simp add: open_ok_def stream_view_def stream_id_of_def)
  next
    case False
    then show ?thesis using balanced_open [OF assms] disconnect_effect(8) by auto
  qed
qed

lemma settled_stats [simp]: "settled (s \<lparr> req_todo := n \<rparr>) = settled s"
  by (simp add: settled_def)

lemma pays_abandoned:
  assumes "balanced conf env todo w" "streams (cl w i) = []"
  shows "pays i w (process_abandoned_streams conf i w)"
proof -
  have l: "lone j (cl w j)" "open_ok j (cl w j)" for j using balanced_lone balanced_open assms(1) by blast+
  have "open_ok i ((cl w i) \<lparr> req_inflight := 0, req_left := 0 \<rparr>)"
    using l [of i] assms(2) by (simp add: open_ok_def lone_def stream_view_def stream_id_of_def)
  then show ?thesis using balanced_down [OF assms(1)] assms(1) l
    by (auto simp: pays_def abandoned_effect debt_def balanced_def)
qed

lemma pays_retried:
  assumes "balanced conf env todo w" "streams (cl w i) = []"
  shows "pays i w (abandon_open i w)"
proof -
  have l: "lone j (cl w j)" "open_ok j (cl w j)" for j using balanced_lone balanced_open assms(1) by blast+
  have "open_ok i ((cl w i) \<lparr> req_inflight := 0 \<rparr>)"
    using l [of i] assms(2) by (simp add: open_ok_def lone_def stream_view_def stream_id_of_def)
  then show ?thesis using l by (auto simp: pays_def abandon_open_def debt_def add.assoc)
qed

lemma quiet_account:
  assumes "quiet w v"
  shows "settled (w_stats (wk v)) = settled (w_stats (wk w))" "clock (wk v) = clock (wk w)" "shares (wk v) = shares (wk w)"
    "n_created v = n_created w" "debt (cl v j) = debt (cl w j)"
proof -
  from assms have "calm_worker (wk w) (wk v)" and n: "n_created v = n_created w" by (simp_all add: quiet_def)
  from calm_settled [OF this(1)] show "settled (w_stats (wk v)) = settled (w_stats (wk w))" "clock (wk v) = clock (wk w)"
    "shares (wk v) = shares (wk w)" by simp_all
  show "n_created v = n_created w" by (rule n)
  show "debt (cl v j) = debt (cl w j)" using debt_counters [OF quietD(3) [OF assms]] by simp
qed

lemma pays_timedout:
  assumes "balanced conf env todo w"
  shows "pays i w (disconnect env' i (process_timedout_streams conf env' i w))"
proof -
  obtain v where q: "quiet w v" and v: "process_timedout_streams conf env' i w = process_abandoned_streams conf i v"
    using timedout_effect by blast
  have b: "balanced conf env todo v" using q assms by (rule balanced_quiet)
  let ?u = "process_abandoned_streams conf i v"
  let ?x = "disconnect env' i ?u"
  have main: "phase_of v = MAIN_DURATION" and nr: "\<not> should_reconnect_on_disconnect conf i v"
    using b balanced_down [OF b] by (auto simp: balanced_def)
  have dd: "debt (cl ?x j) = debt (cl ?u j)" for j
    using debt_counters [OF disconnect_effect(5)] by simp
  have k: "settled (w_stats (wk ?x)) = settled (w_stats (wk v)) + debt (cl v i)" "clock (wk ?x) = clock (wk v)"
    "shares (wk ?x) = shares (wk v)"
    using calm_settled [OF disconnect_effect(1) [where w = ?u and env = env' and i = i]] main nr
    by (auto simp: abandoned_effect debt_def)
  note kv = quiet_account [OF q]
  have ok: "open_ok j (cl ?x j)" for j
  proof (cases "j = i")
    case True
    have "lone i (cl ?x i)"
    proof (rule lone_disconnect)
      show "\<forall>j. lone j (cl ?u j)" using balanced_lone [OF b] by (auto simp: abandoned_effect lone_def)
    qed
    then show ?thesis unfolding True using disconnect_effect(3,4) [of env' i ?u]
      by (simp add: open_ok_def stream_view_def stream_id_of_def)
  next
    case False
    then show ?thesis using balanced_open [OF b, of j] disconnect_effect(8) [OF False, of env' ?u] by (simp add: abandoned_effect)
  qed
  have z: "debt (cl ?u i) = 0" and other: "j \<noteq> i \<Longrightarrow> debt (cl ?u j) = debt (cl v j)" for j
    using main nr by (simp_all add: abandoned_effect debt_def)
  have n: "n_created ?x = n_created v" by (simp add: disconnect_effect abandoned_effect)
  have e: "settled (w_stats (wk ?x)) + debt (cl ?x i) = settled (w_stats (wk w)) + debt (cl w i)"
    unfolding k dd z kv by simp
  show ?thesis unfolding v pays_def e n k(2,3) kv(2-4) using ok other kv(5) dd by simp
qed

lemma balanced_enter:
  assumes "balanced conf env todo w"
  shows "balanced conf env todo (enter_connection env' i w)"
proof (rule balanced_same [OF assms])
  let ?w = "enter_connection env' i w"
  show "clock (wk ?w) = clock (wk w)" "shares (wk ?w) = shares (wk w)" "n_created ?w = n_created w"
    "settled (w_stats (wk ?w)) = settled (w_stats (wk w))"
    using calm_settled [OF enter_connection_effect(1) [where w = w and env = env' and i = i]] by (auto simp: enter_connection_effect)
  fix j
  have c: "debt (cl ?w j) = debt (cl w j) \<and> req_inflight (cl ?w j) = req_inflight (cl w j)"
    using enter_connection_effect(4) debt_counters by blast
  then show "debt (cl ?w j) = debt (cl w j)" by simp
  show "open_ok j (cl ?w j)"
    using balanced_open [OF assms, of j] lone_entered [OF balanced_lone [OF assms]] c
    by (rule_tac open_ok_view) (auto simp: enter_connection_effect)
qed

lemma balanced_cleanup:
  assumes "balanced conf env todo w"
  shows "balanced conf env todo (final_cleanup env' i w)"
proof (rule balanced_same [OF assms])
  let ?w = "final_cleanup env' i w"
  show "clock (wk ?w) = clock (wk w)" "shares (wk ?w) = shares (wk w)" "n_created ?w = n_created w"
    "settled (w_stats (wk ?w)) = settled (w_stats (wk w))"
    using calm_settled [OF final_cleanup_effect(1) [where w = w and env = env' and i = i]] by (auto simp: final_cleanup_effect)
  have "parent_client (cl w i) = None" using balanced_lone [OF assms] by (simp add: lone_def)
  then have "cl ?w = cl w" by (rule final_cleanup_effect(7))
  then show "debt (cl ?w j) = debt (cl w j)" "open_ok j (cl ?w j)" for j using balanced_open [OF assms] by simp_all
qed

lemma no_exhaustion:
  assumes "balanced conf env todo w" "session_submit_request conf env i w = Inr (rv, w1)"
  shows "rv \<noteq> -2"
proof
  assume "rv = -2"
  with exhausted_only [of conf env i w w1] assms(2) obtain n x where
    "near_exhaustion (env n) x \<or> stream_id_of (cl w i) \<ge> 2 ^ 31 - 2" by blast
  moreover have "stream_id_of (cl w i) < 2 ^ 31 - 2" using balanced_open [OF assms(1), of i] by (simp only: open_ok_def)
  moreover have "\<not> near_exhaustion (env n) x" using assms(1) by (simp add: balanced_def plain_conf_def)
  ultimately show False by linarith
qed

lemma pays_failure:
  assumes b: "balanced conf env todo w" and s: "session_submit_request conf env i w = Inr (rv, w1)" "rv \<noteq> 0"
    and p: "process_request_failure conf rv i w1 = Inr w2"
  shows "pays i w w2"
proof -
  have q1: "quiet w w1" using session_submit_cases [OF s(1)] s(2) by simp
  have b1: "balanced conf env todo w1" using q1 b by (rule balanced_quiet)
  let ?v = "upd i (\<lambda>c. c \<lparr> req_left := 0 \<rparr>) (upd_stats (count_abandoned (req_left (cl w1 i))) w1)"
  have q2: "quiet ?v w2"
    using request_failure_effect [OF p] b1 balanced_down [OF b1] no_exhaustion [OF b s(1)] by (simp add: balanced_def)
  have ok1: "open_ok j (cl ?v j)" for j
    using balanced_open [OF b1, of j] by (auto simp: open_ok_def lone_def stream_view_def stream_id_of_def)
  have calm2: "calm (cl ?v j) (cl w2 j)" for j using q2 by (simp only: quiet_def)
  have c1: "debt (cl w1 j) = debt (cl w j)" "debt (cl w2 j) = debt (cl ?v j)" "open_ok j (cl w2 j)" for j
    using debt_counters [OF quietD(3) [OF q1]] debt_counters [OF quietD(3) [OF q2]] open_ok_calm [OF calm2 ok1] by simp_all
  note k = quiet_account(1-4) [OF q1] and k2 = quiet_account(1-4) [OF q2]
  have e: "settled (w_stats (wk w2)) + debt (cl w2 i) = settled (w_stats (wk w)) + debt (cl w i)"
    using k(1) k2(1) c1(1) [of i] c1(2) [of i] by (simp add: debt_def)
  show ?thesis unfolding pays_def e using k k2 c1 by simp
qed

lemma sub64_one: "sub64 a 1 mod 2 ^ 64 = (a + (2 ^ 64 - 1)) mod 2 ^ 64"
  by (simp add: sub64_def u64_def)

lemma pays_sent:
  assumes b: "balanced conf env todo w" and o: "opened env i w w1" and q: "quiet w1 w2"
  shows "pays i w (count_submitted conf n m i w2)"
proof -
  let ?v = "count_submitted conf n m i w2"
  have nt: "\<not> is_timing_based_mode conf" and main: "phase_of w = MAIN_DURATION" and ids: "\<And>n. new_stream_id (env n) < 2 ^ 31 - 2"
    using b by (auto simp: balanced_def plain_conf_def)
  note k2 = quiet_account [OF q]
  from o have k1: "clock (wk w1) = clock (wk w)" "shares (wk w1) = shares (wk w)" "n_created w1 = n_created w"
    "settled (w_stats (wk w1)) = settled (w_stats (wk w))"
    using calm_settled [of "wk w" "wk w1"] by (auto simp: opened_def)
  have c: "counters (cl w2 j) = counters (cl w j)" for j
    using o quietD(3) [OF q, of j] by (cases "j = i") (auto simp: opened_def calm_def)
  have d: "debt (cl w2 j) = debt (cl w j)" "req_inflight (cl w2 j) = req_inflight (cl w j)" "req_left (cl w2 j) = req_left (cl w j)" for j
    using c [of j] by (auto simp: counters_def debt_def)
  have ok: "open_ok j (cl ?v j)" for j
  proof (cases "j = i")
    case True
    obtain x where x: "stream_view (cl w1 i) = omap_set int_less (stream_view (cl w i)) x (eligible_phase (phase_of w))"
      using o by (auto simp: opened_def)
    have view: "stream_view (cl ?v i) = stream_view (cl w1 i)" "stream_id_of (cl ?v i) = stream_id_of (cl w2 i)" "lone i (cl ?v i) = lone i (cl w2 i)"
      using quietD(1) [OF q, of i] by (auto simp: count_submitted_effect stream_view_def stream_id_of_def lone_def)
    have "length (stream_view (cl w1 i)) \<le> length (stream_view (cl w i)) + 1" unfolding x by (rule length_omap_set)
    moreover have "snd y" if "y \<in> set (stream_view (cl w1 i))" for y
      using values_omap_set [OF that [unfolded x]] main balanced_open [OF b, of i] by (auto simp: open_ok_def eligible_phase_def)
    moreover have "stream_id_of (cl w1 i) < 2 ^ 31 - 2"
      using o ids balanced_open [OF b, of i] by (auto simp: opened_def open_ok_def)
    then have "stream_id_of (cl w2 i) < 2 ^ 31 - 2" using q by (auto simp: quiet_def calm_def) (metis zero_less_numeral)
    moreover have "lone i (cl w1 i)" using o balanced_lone [OF b] by (auto simp: opened_def lone_def)
    then have "lone i (cl w2 i)" using q lone_calm by (auto simp: quiet_def)
    moreover have "req_inflight (cl ?v i) = req_inflight (cl w i) + 1" using d(2) [of i] by (simp add: count_submitted_effect)
    ultimately show ?thesis unfolding True open_ok_def view using balanced_open [OF b, of i] by (auto simp: open_ok_def)
  next
    case False
    have "open_ok j (cl w1 j)" using o False balanced_open [OF b, of j] open_ok_calm by (auto simp: opened_def)
    then have "open_ok j (cl w2 j)" using q open_ok_calm by (auto simp: quiet_def)
    with False show ?thesis by (simp add: count_submitted_effect)
  qed
  have "(settled (w_stats (wk w)) + (req_inflight (cl w i) + 1 + sub64 (req_left (cl w i)) 1)) mod 2 ^ 64 =
      (settled (w_stats (wk w)) + (req_inflight (cl w i) + 1) + sub64 (req_left (cl w i)) 1 mod 2 ^ 64) mod 2 ^ 64"
    unfolding mod_add_right_eq by (simp only: add.assoc)
  also have "\<dots> = (settled (w_stats (wk w)) + debt (cl w i) + 2 ^ 64) mod 2 ^ 64"
    unfolding sub64_one mod_add_right_eq debt_def by (rule arg_cong [where f = "\<lambda>x. x mod 2 ^ 64"]) simp
  finally have e: "(settled (w_stats (wk w)) + (req_inflight (cl w i) + 1 + sub64 (req_left (cl w i)) 1)) mod 2 ^ 64 =
      (settled (w_stats (wk w)) + debt (cl w i)) mod 2 ^ 64"
    by (simp only: mod_add_self2)
  have dv: "debt (cl ?v i) = req_inflight (cl w i) + 1 + sub64 (req_left (cl w i)) 1"
    using nt d [of i] by (simp add: count_submitted_effect debt_def)
  have other: "j \<noteq> i \<Longrightarrow> debt (cl ?v j) = debt (cl w j)" for j using d(1) by (simp add: count_submitted_effect)
  have st: "settled (w_stats (wk ?v)) = settled (w_stats (wk w))" using k1 k2 by (simp add: count_submitted_effect)
  show ?thesis unfolding pays_def dv st e using ok other k1 k2 by (simp add: count_submitted_effect)
qed

lemma map_omap_erase: "map (\<lambda>(s, x). (s, g x)) (omap_erase lt m k) = omap_erase lt (map (\<lambda>(s, x). (s, g x)) m) k"
  by (induction m) auto

lemma stream_view_find:
  "omap_find int_less (streams c) s = Some x \<Longrightarrow> omap_find int_less (stream_view c) s = Some (statistics_eligible x)"
proof -
  have "omap_find int_less (map (\<lambda>(s, x). (s, statistics_eligible x)) m) s = map_option statistics_eligible (omap_find int_less m s)"
    for m :: "(int \<times> stream) list" by (induction m) auto
  then show "omap_find int_less (streams c) s = Some x \<Longrightarrow> ?thesis" by (simp add: stream_view_def)
qed

lemma eligible_of_open: "open_ok i c \<Longrightarrow> omap_find int_less (streams c) s = Some x \<Longrightarrow> statistics_eligible x"
  by (drule stream_view_find, drule omap_find_in) (auto simp: open_ok_def)

text \<open>Closing a stream: one request fewer is open, one more is settled.\<close>

lemma close_account:
  assumes "count_stream_close conf env s b i w = Inr (True, w1)" "omap_find int_less (streams (cl w i)) s = Some x"
    "statistics_eligible x" "phase_of w = MAIN_DURATION"
  shows "settled (w_stats (wk w1)) = settled (w_stats (wk w)) + 1" "req_inflight (cl w1 i) = req_inflight (cl w i) - 1"
    "clock (wk w1) = clock (wk w)" "shares (wk w1) = shares (wk w)" "n_created w1 = n_created w"
proof -
  define v where "v = upd i (\<lambda>c. c \<lparr> req_inflight := req_inflight c - 1,
      rps_req_inflight := (if rps_mode conf then rps_req_inflight c - 1 else rps_req_inflight c) \<rparr>) w"
  have x: "omap_find int_less (streams (cl v i)) s = Some x" using assms(2) by (simp add: v_def)
  obtain f where c: "count_eligible_close env s x b f i v = Inr w1"
    using assms x by (auto simp: count_stream_close_def Let_def v_def eligible_phase_def)
  note e = eligible_close_effect [OF c x]
  from e(11) obtain g where "tallies (w_stats (wk w1)) = tallies (count_close b g (w_stats (wk v)))" by blast
  then have "settled (w_stats (wk w1)) = settled (count_close b g (w_stats (wk v)))" by (rule tallies_ok(3))
  then show "settled (w_stats (wk w1)) = settled (w_stats (wk w)) + 1" by (simp add: v_def)
  show "req_inflight (cl w1 i) = req_inflight (cl w i) - 1" "clock (wk w1) = clock (wk w)" "shares (wk w1) = shares (wk w)"
    "n_created w1 = n_created w"
    using e(1,9,12,13) by (simp_all add: v_def)
qed

lemma pays_close:
  assumes b: "balanced conf env todo w" and c: "count_stream_close conf env s bb i w = Inr (True, w1)"
    and x: "omap_find int_less (streams (cl w i)) s = Some x" and q: "quiet w1 w2"
  shows "pays i w (erase_stream s i w2)"
proof -
  let ?v = "erase_stream s i w2"
  note ok = balanced_open [OF b]
  have main: "phase_of w = MAIN_DURATION" using b by (simp add: balanced_def)
  note a = close_account [OF c x eligible_of_open [OF ok x] main]
  note k2 = quiet_account [OF q]
  note view = close_view [OF c x]
  have known: "omap_find int_less (stream_view (cl w i)) s \<noteq> None" using stream_view_find [OF x] by simp
  have len: "length (omap_erase int_less (stream_view (cl w i)) s) + 1 = length (stream_view (cl w i))"
    using known by (rule length_omap_erase)
  have infl: "length (stream_view (cl w i)) \<le> req_inflight (cl w i)" using ok [of i] by (simp add: open_ok_def)
  have dw1: "debt (cl w1 i) + 1 = debt (cl w i)" using view a(2) len infl by (simp add: debt_def)
  have dv: "debt (cl ?v j) = debt (cl w2 j)" "req_inflight (cl ?v j) = req_inflight (cl w2 j)" "stream_id_of (cl ?v j) = stream_id_of (cl w2 j)"
    "lone j (cl ?v j) = lone j (cl w2 j)" for j
    by (auto simp: erase_stream_def debt_def stream_id_of_def lone_def)
  have calm2: "calm (cl w1 j) (cl w2 j)" for j using q by (simp only: quiet_def)
  have okv: "open_ok j (cl ?v j)" for j
  proof (cases "j = i")
    case True
    have "stream_view (cl ?v i) = omap_erase int_less (stream_view (cl w i)) s"
      using quietD(1) [OF q, of i] view by (simp add: erase_stream_def stream_view_def map_omap_erase)
    moreover have "lone i (cl w1 i)" using view ok [of i] by (auto simp: open_ok_def lone_def)
    then have "lone i (cl w2 i)" using lone_calm [OF calm2] by blast
    moreover have "stream_id_of (cl w1 i) = stream_id_of (cl w i)" using view by (simp add: stream_id_of_def)
    then have "stream_id_of (cl w2 i) < 2 ^ 31 - 2" using calm2 [of i] ok [of i] by (auto simp: calm_def open_ok_def)
    moreover have "req_inflight (cl w2 i) = req_inflight (cl w i) - 1" using debt_counters [OF quietD(3) [OF q]] a(2) by simp
    ultimately show ?thesis unfolding True open_ok_def dv
      using len infl ok [of i] values_omap_erase [of int_less "stream_view (cl w i)" s] by (auto simp: open_ok_def)
  next
    case False
    then have "open_ok j (cl w1 j)" using view ok [of j] by simp
    with False show ?thesis using open_ok_calm [OF calm2] by (simp add: erase_stream_def)
  qed
  have st: "wk ?v = wk w2" "n_created ?v = n_created w2" by (simp_all add: erase_stream_def)
  have e: "settled (w_stats (wk ?v)) + debt (cl ?v i) = settled (w_stats (wk w)) + debt (cl w i)"
    unfolding st dv k2(1,5) a(1) using dw1 by simp
  have other: "debt (cl ?v j) = debt (cl w j)" if "j \<noteq> i" for j using that view k2(5) dv(1) by simp
  show ?thesis unfolding pays_def e unfolding st k2(2-4) a(3-5) using okv other by simp
qed

lemma balanced_resign:
  assumes "balanced conf env todo w"
  shows "balanced conf env todo (resign i w)"
proof (rule balanced_same [OF assms])
  show "open_ok j (cl (resign i w) j)" for j
    using balanced_open [OF assms, of j] by (auto simp: resign_def open_ok_def lone_def stream_view_def stream_id_of_def)
qed (simp_all add: resign_def debt_def view_defs settled_def)

lemma balanced_create:
  assumes b: "balanced conf env todo w" and c: "create_with_share conf env w = Inr (i, w')" and lt: "n_created w < nclients (wk w)"
  shows "balanced conf env todo w'"
proof -
  obtain n k where s: "next_share (wk w) = (n, k)" by fastforce
  with c have "new_client conf env n None [] [] (w \<lparr> wk := k \<rparr>) = Inr (i, w')" by (simp add: create_with_share_def)
  note e = new_client_effect [OF this]
  have i: "i = n_created w" "n_created w' = n_created w + 1" "wk w' = k" using e(1-3) by simp_all
  have per: "nreqs_per_client (wk w) > 0" using b by (simp add: balanced_def)
  have k: "clock k = clock (wk w)" "nclients k = nclients (wk w)" "nreqs_per_client k = nreqs_per_client (wk w)" "w_stats k = w_stats (wk w)"
    "n > 0" "n + nreqs_rem k = nreqs_per_client (wk w) + nreqs_rem (wk w)" "nreqs_rem k = nreqs_rem (wk w) - 1"
    using s per by (auto simp: next_share_def clock_def split: if_splits)
  have di: "debt (cl w' i) = n" using e(4) k(5) by (simp add: counters_def debt_def)
  have other: "cl w' j = cl w j" if "j \<noteq> i" for j using e(8) [OF that] by simp
  have "(\<Sum>j < n_created w. debt (cl w' j)) = (\<Sum>j < n_created w. debt (cl w j))"
    using other i(1) by (intro sum.cong) auto
  then have "(\<Sum>j < n_created w'. debt (cl w' j)) = (\<Sum>j < n_created w. debt (cl w j)) + n"
    using di unfolding i by simp
  moreover obtain d where d: "nclients (wk w) - n_created w = Suc d" "nclients (wk w) - n_created w' = d"
    using lt i by (cases "nclients (wk w) - n_created w") auto
  ultimately have "due w' = due w" using k(6) by (simp add: due_def i(3) k(2-4))
  moreover have "open_ok j (cl w' j)" for j
    using e(5,6,7,9) other [of j] balanced_open [OF b, of j]
    by (cases "j = i") (auto simp: open_ok_def lone_def stream_view_def stream_id_of_def)
  ultimately show ?thesis
    using b lt i(2,3) d k(1,2,3,7) by (auto simp: balanced_def clock_def phase_of_def)
qed

lemma balanced_conf: "balanced conf env todo w \<Longrightarrow> \<not> open_new_connection_based_on_authority_header conf"
  by (simp add: balanced_def plain_conf_def)

interpretation balance: world_invariant conf env "\<lambda>n i. i < n \<or> open_new_connection_based_on_authority_header conf"
    "balanced conf env todo" for conf env todo
proof unfold_locales
  fix n w w1 w2 i j s b m and rv :: int and r
  let ?K = "keeps (balanced conf env todo) n"
  let ?C = "i < n \<or> open_new_connection_based_on_authority_header conf"
  have same: "?K v v'" if "balanced conf env todo v \<Longrightarrow> balanced conf env todo v'" "n_created v' = n_created v" for v v'
    using that by (auto simp: keeps_def)
  show "?K w w1 \<Longrightarrow> ?K w1 w2 \<Longrightarrow> ?K w w2" by (auto simp: keeps_def)
  show "quiet w w1 \<Longrightarrow> ?K w w1" by (intro same) (auto intro: balanced_quiet simp: grows_quiet)
  show "?K w (disconnect env i w)" by (intro same balanced_disconnect) (simp_all add: disconnect_effect)
  show "?C \<Longrightarrow> streams (cl w i) = [] \<Longrightarrow> ?K w (process_abandoned_streams conf i w)" by (rule pays_keeps) (auto intro: pays_abandoned)
  show "?C \<Longrightarrow> streams (cl w i) = [] \<Longrightarrow> ?K w (abandon_open i w)" by (rule pays_keeps) (auto intro: pays_retried)
  show "?C \<Longrightarrow> ?K w (disconnect env i (process_timedout_streams conf env i w))" by (rule pays_keeps) (auto intro: pays_timedout)
  show "is_timing_based_mode conf \<Longrightarrow> ?K w (enter_warm_up w)" by (simp add: keeps_def balanced_def plain_conf_def)
  show "?K w (enter_connection env i w)" by (intro same balanced_enter) (simp_all add: enter_connection_effect)
  show "open_new_connection_based_on_authority_header conf \<Longrightarrow> ?K w w1" by (simp add: keeps_def balanced_def plain_conf_def)
  show "?C \<Longrightarrow> session_submit_request conf env i w = Inr (rv, w1) \<Longrightarrow> rv \<noteq> 0 \<Longrightarrow>
      process_request_failure conf rv i w1 = Inr w2 \<Longrightarrow> ?K w w2" by (rule pays_keeps) (auto intro: pays_failure)
  show "session_submit_request conf env i w = Inr (0, w1) \<Longrightarrow> phase_of w1 \<noteq> MAIN_DURATION \<Longrightarrow> ?K w w1"
    by (auto simp: keeps_def balanced_def opened_def calm_worker_def clock_def phase_of_def dest!: session_submit_cases)
  show "?C \<Longrightarrow> session_submit_request conf env j w = Inr (0, w1) \<Longrightarrow>
      open_new_connection_based_on_authority_header conf \<or>
        j = i \<and> get_total_pending_streams i w < max_concurrent_streams_opt conf \<Longrightarrow> quiet w1 w2 \<Longrightarrow>
      ?K w (count_submitted conf m l i w2)" for l
    by (rule pays_keeps) (auto dest!: session_submit_cases dest: balanced_conf intro: pays_sent)
  show "?C \<Longrightarrow> count_stream_close conf env s b i w = Inr (True, w1) \<Longrightarrow> omap_find int_less (streams (cl w i)) s \<noteq> None \<Longrightarrow>
      quiet w1 w2 \<Longrightarrow> ?K w (erase_stream s i w2)" by (rule pays_keeps) (auto intro: pays_close)
  show "?K w (resign i w)" by (intro same balanced_resign) (simp_all add: resign_def)
  show "?K w (final_cleanup env i w)" by (intro same balanced_cleanup) (simp_all add: final_cleanup_effect)
  show "parent_client (cl w i) = Some j \<Longrightarrow> (j < n \<or> open_new_connection_based_on_authority_header conf) \<or> (\<forall>v. ?K w v)"
    by (auto simp: keeps_def lone_def dest: balanced_lone)
  show "balanced conf env todo w \<Longrightarrow> open_new_connection_based_on_authority_header conf \<or> n_created w < nclients (wk w) \<Longrightarrow>
      create_with_share conf env w = Inr (i, w1) \<Longrightarrow> balanced conf env todo w1"
    by (auto intro: balanced_create dest: balanced_conf)
  show "balanced conf env todo w \<Longrightarrow> balanced conf env todo (check_in_client i w)"
    "balanced conf env todo w \<Longrightarrow> balanced conf env todo (upd_worker (\<lambda>k. k \<lparr> w_clients := w_clients k @ [Some i] \<rparr>) w)"
    "balanced conf env todo w \<Longrightarrow> balanced conf env todo (upd_worker (\<lambda>k. k \<lparr> nconns_made := nconns_made k + 1 \<rparr>) w)"
    "balanced conf env todo w \<Longrightarrow> balanced conf env todo (upd_worker (\<lambda>k. k \<lparr> rate_timer := b \<rparr>) w)"
    by (simp_all add: balanced_def due_def phase_of_def check_in_client_def)
qed (auto simp: balanced_def)

end
