(* ===== verification/Example.thy ===== *)
theory Example
  imports Worker
begin

text \<open>
  A small test on which the properties of runs and sessions are tried out: one client and one
  scenario with a single GET request, and an outside in which time passes, connections come up and
  every request gets a stream.
\<close>

definition lone_request :: request_template where
  "lone_request = \<lparr> clear_old_cookies = False, rt_luaScript = [], make_request_function_present = False,
     validate_response_function_present = False, rt_schema = [], rt_authority = [],
     rt_uri = \<lparr> typeOfAction = ''input'', uri_input = ''/'', uri_act = INPUT_WITH_VARIABLE \<rparr>, rt_method = ''GET'',
     rt_payload = [], rt_headers = [], rt_expected_status_code = 0,
     response_header_match = [], response_payload_match = [], response_match_rules = [],
     headers_in_map = [], headers_with_variable = [],
     tokenized_path_with_vars = \<lparr> string_segments = [''/''], variable_ids_in_between = [] \<rparr>,
     tokenized_payload_with_vars = \<lparr> string_segments = [[]], variable_ids_in_between = [] \<rparr>, rt_delay_before_executing_next = 0,
     response_value_regex_pickers = [], actual_regex_value_pickers = [] \<rparr>"

definition lone_scenario :: scenario where
  "lone_scenario = \<lparr> scenario_name = ''s'', scenario_weight = 100, variable_name_in_path_and_data = [],
     user_id_list_file = [], range_based_variables = [], two_dim_variables = [],
     interval_to_wait_before_start = 0, variable_range_start = 0, variable_range_end = 0,
     variable_range_slicing = True, requests = [lone_request], run_requests_in_parallel = False,
     user_variables_input_file = [], variable_manager_of = empty_variable_manager,
     number_of_variables_from_value_pickers = 0 \<rparr>"

definition example_conf :: load_config where
  "example_conf = \<lparr> scheme_opt = ''http'', host_opt = ''host'', connect_to_host_opt = [], port_opt = 80, base_uri_unix = False,
     scenarios_of = [lone_scenario], config_update_sequence_number = 0, rate_opt = 0, duration_positive = False,
     rps_positive = False, timing_script = False, timing_due = \<lambda>_. False, max_concurrent_streams_opt = 2,
     conn_active_timeout_positive = False, conn_inactivity_timeout_positive = False, ping_interval_positive = False,
     open_new_connection_based_on_authority_header = False, connection_retry_on_disconnect = False,
     connect_back_to_preferred_host = False, load_share_hosts_opt = [], stream_timeout_opt = 5000, nva_size = 1,
     nclients_opt = 1 \<rparr>"

definition example_client_env :: "nat \<Rightarrow> client_env" where
  "example_client_env n = request_env.extend example_request_env
     \<lparr> now = n, distr = \<lambda>_ _. 0, request_allowed = True, new_stream_id = 2 * int (n mod 1000) + 1, near_exhaustion = \<lambda>_. False,
       sample_draw = \<lambda>_. 0, junk_offset = 0, junk_completed = False, json_parse_error = \<lambda>_. False,
       validate_response = \<lambda>_ _ _. No_Validator,
       authority_parser = \<lambda>a. Some \<lparr> u_schema = None, u_host = Some a, u_port = None, u_path = None, u_query = None \<rparr>,
       is_ipv6 = \<lambda>_. False, http2_negotiated = True, shuffle = \<lambda>xs. xs, slice_draw = \<lambda>_ _. 0, rps_due = None \<rparr>"

text \<open>A request as it is queued for sending.\<close>

definition greeting :: request_data where
  "greeting = (request_data_of None) \<lparr> schema := Str ''http'', authority := Str ''host'', req_method := Str ''POST'', path := Str ''/a'',
     req_payload := Str ''hello'', req_headers_from_config := Some [(''accept'', ''x''), (''x-id'', ''0'')],
     req_headers_of_individual := [(''content-length'', ''5''), (''x-id'', ''1'')] \<rparr>"

end
