(* ===== verification/Whole_Runs.thy ===== *)
theory Whole_Runs
  imports Balance Example
begin

text \<open>
  The properties of whole runs of the load generator, on a worker as its constructor leaves it, and a run of
  one client with two requests on which they are tried out. Then what happens to the open requests of a
  client that changes its host.
\<close>

section \<open>Starting point\<close>

lemma init_worker_start:
  assumes "init_worker conf wid todo n rt m = Inr k" "n < 2 ^ 64"
  shows "born conf (init_world conf k)" "paced conf (init_world conf k)" "n_created (init_world conf k) = 0"
    "\<not> rate_timer (wk (init_world conf k))"
  using assms by (auto simp: init_worker_def init_world_def born_def paced_def roster_def split: if_splits)

lemma init_consistent: "init_worker conf wid todo n rt m = Inr k \<Longrightarrow> consistent (init_world conf k)"
  by (auto simp: init_worker_def init_world_def consistent_def list_all_iff scenario_ok_def split: if_splits)
    (simp_all add: stats_of_def)

lemma init_orderly:
  "init_worker conf wid todo n rt m = Inr k \<Longrightarrow> (is_timing_based_mode conf \<Longrightarrow> todo = 0) \<Longrightarrow> at_least INITIAL_IDLE (init_world conf k)"
  by (auto simp: init_worker_def init_world_def at_least_def orderly_def cold_def phase_of_def untouched_def fresh_client_def stats_of_def
      split: if_splits)

lemma init_bounded: "bounded_streams conf (init_world conf k)"
  by (simp add: bounded_streams_def init_world_def fresh_client_def lone_def)

lemma init_balanced:
  assumes "init_worker conf wid todo n rt m = Inr k" "plain_conf conf env" "n \<le> todo"
  shows "balanced conf env todo (init_world conf k)"
proof -
  from assms(1) have n: "n > 0" and k: "w_stats k = stats_of todo" "nclients k = n" "nreqs_per_client k = todo div n" "nreqs_rem k = todo mod n"
    "current_phase k = (if is_timing_based_mode conf then INITIAL_IDLE else MAIN_DURATION)" "\<not> warmup_timer k" "\<not> duration_timer k"
    by (auto simp: init_worker_def split: if_splits)
  have "due (init_world conf k) = todo" by (simp add: due_def init_world_def k settled_def stats_of_def)
  moreover have "todo div n > 0" using n assms(3) by (simp add: div_greater_zero_iff)
  moreover have "open_ok i (cl (init_world conf k) i)" for i
    by (simp add: init_world_def fresh_client_def open_ok_def lone_def stream_view_def stream_id_of_def)
  ultimately show ?thesis
    using assms(2) n k by (simp add: balanced_def phase_of_def init_world_def plain_conf_def less_imp_le)
qed

section \<open>An example\<close>

text \<open>A sequence of events; an event that cannot occur is no run.\<close>

fun run_events :: "load_config \<Rightarrow> (nat \<Rightarrow> client_env) \<Rightarrow> event list \<Rightarrow> world \<Rightarrow> world option" where
  "run_events conf env [] w = Some w"
| "run_events conf env (ev # evs) w =
     (if enabled ev w then (case handle conf env ev w of Inr w' \<Rightarrow> run_events conf env evs w' | Inl _ \<Rightarrow> None) else None)"

definition whole_run :: "load_config \<Rightarrow> (nat \<Rightarrow> client_env) \<Rightarrow> nat \<Rightarrow> nat \<Rightarrow> event list \<Rightarrow> world option" where
  "whole_run conf env todo n evs =
    (case init_worker conf 0 todo n n 100000 of Inl _ \<Rightarrow> None
     | Inr k \<Rightarrow> (case run conf env (init_world conf k) of Inl _ \<Rightarrow> None | Inr w \<Rightarrow> run_events conf env evs w))"

lemma run_events_reachable: "run_events conf env evs w = Some w' \<Longrightarrow> reachable conf env w0 w \<Longrightarrow> reachable conf env w0 w'"
  by (induction evs arbitrary: w) (auto split: if_splits sum.splits intro: reachable.event)

lemma whole_run_reachable:
  assumes "whole_run conf env todo n evs = Some w"
  obtains k where "init_worker conf 0 todo n n 100000 = Inr k" "reachable conf env (init_world conf k) w"
  using assms unfolding whole_run_def
  by (auto split: sum.splits intro: run_events_reachable reachable.started)

text \<open>The example run: the client connects and sends the first of its two requests.\<close>

lemma example_run:
  obtains k w where "init_worker example_conf 0 2 1 1 100000 = Inr k" "reachable example_conf example_client_env (init_world example_conf k) w"
    "n_created w = 1" "nclients (wk w) = 1" "nreqs_rem (wk w) = 0" "length (streams (cl w 0)) = 1"
    "req_inflight (cl w 0) = 1" "req_left (cl w 0) = 1" "req_started (w_stats (wk w)) = 1"
proof -
  have "(case whole_run example_conf example_client_env 2 1 [Client_Event 0 Connection_Up] of None \<Rightarrow> False
      | Some w \<Rightarrow> n_created w = 1 \<and> nclients (wk w) = 1 \<and> nreqs_rem (wk w) = 0 \<and> length (streams (cl w 0)) = 1 \<and>
          req_inflight (cl w 0) = 1 \<and> req_left (cl w 0) = 1 \<and> req_started (w_stats (wk w)) = 1)"
    by code_simp
  then obtain w where w: "whole_run example_conf example_client_env 2 1 [Client_Event 0 Connection_Up] = Some w" and
    f: "n_created w = 1" "nclients (wk w) = 1" "nreqs_rem (wk w) = 0" "length (streams (cl w 0)) = 1"
      "req_inflight (cl w 0) = 1" "req_left (cl w 0) = 1" "req_started (w_stats (wk w)) = 1"
    by (auto split: option.splits)
  from w obtain k where "init_worker example_conf 0 2 1 1 100000 = Inr k" "reachable example_conf example_client_env (init_world example_conf k) w"
    by (rule whole_run_reachable)
  from that [OF this f] show ?thesis .
qed

section \<open>Properties of runs\<close>




lemma example_plain: "plain_conf example_conf example_client_env"
proof -
  have "2 * int (n mod 1000) < 2147483645" for n :: nat
    using mod_less_divisor [of 1000 n] by linarith
  then show ?thesis
    by (simp add: plain_conf_def example_conf_def example_client_env_def is_timing_based_mode_def request_env.defs)
qed




text \<open>A timed run: the client connects, which starts the warm-up.\<close>

definition timed_conf :: load_config where
  "timed_conf = example_conf \<lparr> duration_positive := True, rps_positive := False \<rparr>"

lemma timed_run:
  obtains k w w' where "init_worker timed_conf 0 0 1 1 100000 = Inr k" "reachable timed_conf example_client_env (init_world timed_conf k) w"
    "phase_of w = WARM_UP" "warmup_timer (wk w)" "enabled Warm_Up_Over w" "handle timed_conf example_client_env Warm_Up_Over w = Inr w'"
    "phase_of w' = MAIN_DURATION"
proof -
  have "(case whole_run timed_conf example_client_env 0 1 [Client_Event 0 Connection_Up] of None \<Rightarrow> False
      | Some w \<Rightarrow> phase_of w = WARM_UP \<and> warmup_timer (wk w) \<and> (case handle timed_conf example_client_env Warm_Up_Over w of
          Inl _ \<Rightarrow> False | Inr w' \<Rightarrow> phase_of w' = MAIN_DURATION))"
    by code_simp
  then obtain w w' where w: "whole_run timed_conf example_client_env 0 1 [Client_Event 0 Connection_Up] = Some w" and
    f: "phase_of w = WARM_UP" "warmup_timer (wk w)" "enabled Warm_Up_Over w" "handle timed_conf example_client_env Warm_Up_Over w = Inr w'"
      "phase_of w' = MAIN_DURATION"
    by (auto simp: enabled_def split: option.splits sum.splits)
  from w obtain k where "init_worker timed_conf 0 0 1 1 100000 = Inr k" "reachable timed_conf example_client_env (init_world timed_conf k) w"
    by (rule whole_run_reachable)
  from that [OF this f] show ?thesis .
qed



lemma start_measuring_ok: "(\<And>i. untouched (cl w i)) \<Longrightarrow> \<exists>w'. start_measuring t cs w = Inr w'"
proof (induction t cs w rule: start_measuring.induct)
  case (3 t i cs w)
  have "quiet w (restart_connect_times t i (record_client_start_time t i w))" by (intro quiet_intros)
  from quietD(3) [OF this] 3(2) have "untouched (cl (restart_connect_times t i (record_client_start_time t i w)) j)" for j
    by (simp add: untouched_counters)
  with 3 show ?case by simp
qed simp_all

text \<open>C12: when the warm-up timer of a timed test fires, none of the assertions of its handler
  fails, in any state a run can be in, and the main phase begins with the timer for its end running.\<close>

theorem warm_up_ends_in_main_phase:
  assumes "init_worker conf wid todo n rt m = Inr k" and "n < 2 ^ 64" and "is_timing_based_mode conf \<Longrightarrow> todo = 0"
    and "reachable conf env (init_world conf k) w" and "warmup_timer (wk w)"
  shows "\<exists>w'. handle conf env Warm_Up_Over w = Inr w' \<and> phase_of w' = MAIN_DURATION \<and> duration_timer (wk w')"
proof -
  from phases.reachable_I [OF assms(4) init_orderly [OF assms(1,3)] init_worker_start [OF assms(1,2)]]
  have "at_least INITIAL_IDLE w" by simp
  with assms(5) have c: "cold w" by (simp add: at_least_def orderly_def)
  then have "untouched (cl (called (upd_worker (\<lambda>k. k \<lparr> warmup_timer := False \<rparr>) w)) i)" for i by (simp add: cold_def)
  from start_measuring_ok [OF this, of "now (env (calls w))" "w_clients (wk w)"] obtain w' where
    "start_measuring (now (env (calls w))) (w_clients (wk w)) (called (upd_worker (\<lambda>k. k \<lparr> warmup_timer := False \<rparr>) w)) = Inr w'" ..
  with c show ?thesis by (simp add: handle_def warmup_timeout_handler_def cold_def phase_of_def)
qed

theorem warm_up_ends_in_main_phase_witness:
  "\<exists>k w w'. init_worker timed_conf 0 0 1 1 100000 = Inr k \<and> reachable timed_conf example_client_env (init_world timed_conf k) w \<and>
     handle timed_conf example_client_env Warm_Up_Over w = Inr w' \<and> phase_of w' = MAIN_DURATION \<and> duration_timer (wk w')"
proof -
  obtain k w where e: "init_worker timed_conf 0 0 1 1 100000 = Inr k" "reachable timed_conf example_client_env (init_world timed_conf k) w"
    "warmup_timer (wk w)" by (rule timed_run)
  from warm_up_ends_in_main_phase [OF e(1) _ _ e(2,3)] e(1,2) show ?thesis by auto
qed

section \<open>Requests that a change of host forgets\<close>

text \<open>C17: a client that switches back to its preferred host drops its open streams without counting the requests: no counter
  changes, the requests stay in flight for ever, and their entries among the awaited responses are kept.\<close>

theorem host_switch_forgets_requests:
  assumes "on_prefered_host_up env i w = Inr w'" and "cl_authority (cl w i) \<noteq> preferred_authority (cl w i)"
    and "state (cl w i) = CLIENT_CONNECTED"
  shows "streams (cl w' i) = [] \<and> req_inflight (cl w' i) = req_inflight (cl w i) \<and> req_left (cl w' i) = req_left (cl w i) \<and>
    w_stats (wk w') = w_stats (wk w) \<and> requests_awaiting_response (cl w' i) = requests_awaiting_response (cl w i)"
  using assms
  by (auto simp: on_prefered_host_up_def connect_to_host_def Let_def disconnect_def cleanup_due_to_disconnect_def stop_def
      start_timer_def upd_def called_def upd_worker_def split: option.splits if_splits)

lemma example_host: "get_host_and_port_from_authority (example_client_env n) ''http'' ''b'' = Some (''b'', ''80'')"
  by (simp add: get_host_and_port_from_authority_def example_client_env_def request_env.defs strip_host_brackets_def)

theorem host_switch_forgets_requests_witness:
  "\<exists>w w'. length (streams (cl w 0)) = 1 \<and> req_inflight (cl w 0) = 1 \<and> on_prefered_host_up example_client_env 0 w = Inr w' \<and>
     streams (cl w' 0) = [] \<and> req_inflight (cl w' 0) = 1"
proof -
  obtain v :: world where v: "length (streams (cl v 0)) = 1" "req_inflight (cl v 0) = 1"
    using example_run by metis
  define w where "w = upd 0 (\<lambda>c. c \<lparr> cl_schema := ''http'', cl_authority := ''a'', preferred_authority := ''b'', state := CLIENT_CONNECTED \<rparr>) v"
  have w: "cl_authority (cl w 0) \<noteq> preferred_authority (cl w 0)" "state (cl w 0) = CLIENT_CONNECTED" "length (streams (cl w 0)) = 1"
    "req_inflight (cl w 0) = 1" using v by (simp_all add: w_def)
  have d: "cl_schema (cl (disconnect example_client_env 0 w) 0) = ''http''" "preferred_authority (cl (disconnect example_client_env 0 w) 0) = ''b''"
    by (simp_all add: disconnect_def cleanup_due_to_disconnect_def stop_def w_def)
  obtain w' where w': "on_prefered_host_up example_client_env 0 w = Inr w'"
    using w(1,2) by (simp add: on_prefered_host_up_def connect_to_host_def Let_def d example_host)
  from host_switch_forgets_requests [OF w' w(1,2)] w(3,4) w' show ?thesis by (intro exI [of _ w] exI [of _ w']) simp
qed



end
