(* ===== verification/Output_Buffer.thy ===== *)
theory Output_Buffer
  imports Prelude
begin

text \<open>
  The output side of a connection (\<^verbatim>\<open>src/asio_client_connection.cc\<close>): two buffers that take turns, one
  filled by the session while the other one is being written to the socket. The memory of both
  buffers is explicit, and the socket reads a buffer while the write is under way, so that an overwritten buffer
  would be seen on the wire. The abstract specification is a queue of bytes; the buffers refine it.
\<close>

section \<open>Buffers\<close>

text \<open>\<open>output_buffers\<close> holds the memory of each vector up to its capacity. \<open>in_flight\<close> is the
  operation that \<^verbatim>\<open>boost::asio::async_write\<close> is working on: which buffer, how many bytes of it are to be
  written and how many the socket has taken; \<open>wire\<close> is what it has taken on this connection.\<close>

record connection_output =
  output_buffers :: "string list"
  output_data_length :: nat
  output_buffer_index :: nat
  is_write_in_progress :: bool
  is_stopped :: bool
  in_flight :: "(nat \<times> nat \<times> nat) option"
  wire :: string

definition vector_size :: nat where
  "vector_size = 64 * 1024"

definition initial_output :: connection_output where
  "initial_output = \<lparr> output_buffers = [replicate vector_size (CHR 0x00), replicate vector_size (CHR 0x00)],
     output_data_length = 0, output_buffer_index = 0, is_write_in_progress = False, is_stopped = False,
     in_flight = None, wire = [] \<rparr>"

text \<open>\<^verbatim>\<open>std::vector::reserve\<close>: growing moves the \<^verbatim>\<open>size()\<close> elements, the memory behind them is
  unspecified (\<open>junk\<close>). The size of the buffers never changes.\<close>

definition reserve :: "char \<Rightarrow> nat \<Rightarrow> string \<Rightarrow> string" where
  "reserve junk n b = (if n \<le> length b then b else take vector_size b @ replicate (n - min vector_size (length b)) junk)"

definition overwrite :: "nat \<Rightarrow> string \<Rightarrow> string \<Rightarrow> string" where
  "overwrite pos data b = take pos b @ data @ drop (pos + length data) b"

definition push_data_to_output_buffer :: "char \<Rightarrow> string \<Rightarrow> connection_output \<Rightarrow> connection_output" where
  "push_data_to_output_buffer junk data o1 =
    (let i = output_buffer_index o1; n = output_data_length o1; b = output_buffers o1 ! i;
         b1 = (if length b - n < length data
               then (let tempBuffer = take n b in overwrite 0 tempBuffer (reserve junk (n + length data) b))
               else b)
     in o1 \<lparr> output_buffers := (output_buffers o1)[i := overwrite n data b1], output_data_length := n + length data \<rparr>)"

definition any_pending_data_to_write :: "connection_output \<Rightarrow> bool" where
  "any_pending_data_to_write o1 \<longleftrightarrow> 0 < output_data_length o1"

definition common_write :: "connection_output \<Rightarrow> connection_output" where
  "common_write o1 =
    (if is_write_in_progress o1 \<or> is_stopped o1 \<or> output_data_length o1 \<le> 0 then o1
     else o1 \<lparr> is_write_in_progress := True, output_data_length := 0,
       output_buffer_index := (output_buffer_index o1 + 1) mod length (output_buffers o1),
       in_flight := Some (output_buffer_index o1, output_data_length o1, 0) \<rparr>)"

text \<open>The socket takes some of the bytes of the write under way.\<close>

definition socket_takes :: "nat \<Rightarrow> connection_output \<Rightarrow> connection_output option" where
  "socket_takes n o1 =
    (case in_flight o1 of
       None \<Rightarrow> None
     | Some (i, len, k) \<Rightarrow>
         if k + n \<le> len then Some (o1 \<lparr> wire := wire o1 @ take n (drop k (output_buffers o1 ! i)), in_flight := Some (i, len, k + n) \<rparr>)
         else None)"

text \<open>\<^verbatim>\<open>handle_write_complete\<close> after all bytes have been taken, for the buffers; \<open>write_allowed\<close> is what the
  callback for a completed write returns (True if there is none).\<close>

definition write_completed :: "bool \<Rightarrow> connection_output \<Rightarrow> connection_output option" where
  "write_completed write_allowed o1 =
    (case in_flight o1 of
       None \<Rightarrow> None
     | Some (i, len, k) \<Rightarrow>
         if k = len then
           (let o2 = o1 \<lparr> is_write_in_progress := False, in_flight := None \<rparr>
            in Some (if write_allowed then common_write o2 else o2))
         else None)"

text \<open>\<^verbatim>\<open>stop\<close> closes the socket; the handler of a write that this aborts only resets
  \<^verbatim>\<open>is_write_in_progress\<close>, and runs before anything else is written. \<^verbatim>\<open>connect_to_host\<close> starts afresh.\<close>

definition stop_output :: "connection_output \<Rightarrow> connection_output" where
  "stop_output o1 = o1 \<lparr> is_stopped := True, is_write_in_progress := False, in_flight := None \<rparr>"

definition reset_output :: "connection_output \<Rightarrow> connection_output" where
  "reset_output o1 = (stop_output o1) \<lparr> output_data_length := 0, output_buffer_index := 0, is_stopped := False, wire := [] \<rparr>"

section \<open>The queue of bytes\<close>

record byte_queue =
  sent :: string
  waiting :: string
  closed :: bool

definition empty_queue :: byte_queue where
  "empty_queue = \<lparr> sent = [], waiting = [], closed = False \<rparr>"

definition unsent :: "connection_output \<Rightarrow> string" where
  "unsent o1 = (case in_flight o1 of None \<Rightarrow> [] | Some (i, len, k) \<Rightarrow> drop k (take len (output_buffers o1 ! i)))"

definition filled :: "connection_output \<Rightarrow> string" where
  "filled o1 = take (output_data_length o1) (output_buffers o1 ! output_buffer_index o1)"

definition queue_of :: "connection_output \<Rightarrow> byte_queue" where
  "queue_of o1 = \<lparr> sent = wire o1, waiting = (if is_stopped o1 then [] else unsent o1 @ filled o1), closed = is_stopped o1 \<rparr>"

text \<open>There are two buffers, the filled part of a buffer is in its memory, and the buffer being
  written is not the one being filled.\<close>

definition output_ok :: "connection_output \<Rightarrow> bool" where
  "output_ok o1 \<longleftrightarrow> length (output_buffers o1) = 2 \<and> output_buffer_index o1 < 2 \<and>
     output_data_length o1 \<le> length (output_buffers o1 ! output_buffer_index o1) \<and>
     (\<forall>b \<in> set (output_buffers o1). vector_size \<le> length b) \<and>
     is_write_in_progress o1 = (in_flight o1 \<noteq> None) \<and> (is_stopped o1 \<longrightarrow> in_flight o1 = None) \<and>
     (case in_flight o1 of None \<Rightarrow> True
      | Some (i, len, k) \<Rightarrow> i < 2 \<and> i \<noteq> output_buffer_index o1 \<and> k \<le> len \<and> len \<le> length (output_buffers o1 ! i))"

section \<open>Events\<close>

datatype output_event =
    Push string
  | Write_Again
  | Socket_Takes nat
  | Write_Completed bool
  | Stopped
  | Connect_Again

definition output_step :: "char \<Rightarrow> output_event \<Rightarrow> connection_output \<Rightarrow> connection_output option" where
  "output_step junk ev o1 =
    (case ev of
       Push data \<Rightarrow> Some (push_data_to_output_buffer junk data o1)
     | Write_Again \<Rightarrow> Some (common_write o1)
     | Socket_Takes n \<Rightarrow> socket_takes n o1
     | Write_Completed allowed \<Rightarrow> write_completed allowed o1
     | Stopped \<Rightarrow> Some (stop_output o1)
     | Connect_Again \<Rightarrow> Some (reset_output o1))"

primrec output_run :: "char \<Rightarrow> output_event list \<Rightarrow> connection_output \<Rightarrow> connection_output option" where
  "output_run junk [] o1 = Some o1"
| "output_run junk (ev # evs) o1 = (case output_step junk ev o1 of None \<Rightarrow> None | Some o2 \<Rightarrow> output_run junk evs o2)"

text \<open>What the events do to the queue of bytes.\<close>

definition queue_step :: "byte_queue \<Rightarrow> output_event \<Rightarrow> byte_queue" where
  "queue_step q ev =
    (case ev of
       Push data \<Rightarrow> (if closed q then q else q \<lparr> waiting := waiting q @ data \<rparr>)
     | Socket_Takes n \<Rightarrow> q \<lparr> sent := sent q @ take n (waiting q), waiting := drop n (waiting q) \<rparr>
     | Stopped \<Rightarrow> q \<lparr> waiting := [], closed := True \<rparr>
     | Connect_Again \<Rightarrow> empty_queue
     | _ \<Rightarrow> q)"

section \<open>Refinement\<close>

lemma length_overwrite [simp]: "pos + length data \<le> length b \<Longrightarrow> length (overwrite pos data b) = length b"
  by (simp add: overwrite_def)

lemma take_overwrite: "pos \<le> length b \<Longrightarrow> take (pos + length data) (overwrite pos data b) = take pos b @ data"
  by (simp add: overwrite_def)

lemma length_reserve: "vector_size \<le> length b \<Longrightarrow> length (reserve junk n b) = max n (length b)"
  by (simp add: reserve_def)

lemma two_buffers: "length bs = 2 \<Longrightarrow> i < 2 \<Longrightarrow> j < 2 \<Longrightarrow> i \<noteq> j \<Longrightarrow> bs[i := b] ! j = bs ! j" for bs :: "string list"
  by simp

text \<open>The buffer that a push leaves: at least as large, with the data behind what was there.\<close>

lemma push_grows:
  assumes "output_ok o1"
  defines "b \<equiv> output_buffers o1 ! output_buffer_index o1"
  obtains b' where "push_data_to_output_buffer junk data o1 = o1 \<lparr> output_buffers := (output_buffers o1)[output_buffer_index o1 := b'],
      output_data_length := output_data_length o1 + length data \<rparr>"
    "output_data_length o1 + length data \<le> length b'" "length b \<le> length b'"
    "take (output_data_length o1 + length data) b' = take (output_data_length o1) b @ data"
proof -
  let ?n = "output_data_length o1"
  have n: "?n \<le> length b" and v: "vector_size \<le> length b" using assms by (auto simp: output_ok_def)
  define b1 where "b1 = (if length b - ?n < length data then overwrite 0 (take ?n b) (reserve junk (?n + length data) b) else b)"
  have l: "?n + length data \<le> length b1" "length b \<le> length b1"
    using n v by (auto simp: b1_def length_reserve)
  have t: "take ?n b1 = take ?n b"
    using n by (simp add: b1_def overwrite_def)
  show ?thesis
  proof (rule that [of "overwrite ?n data b1"])
    show "take (?n + length data) (overwrite ?n data b1) = take ?n b @ data" using l t by (simp add: take_overwrite)
  qed (use l in \<open>simp_all add: push_data_to_output_buffer_def Let_def b1_def b_def\<close>)
qed

lemma push_refines:
  assumes "output_ok o1"
  shows "output_ok (push_data_to_output_buffer junk data o1)"
    and "queue_of (push_data_to_output_buffer junk data o1) = queue_step (queue_of o1) (Push data)"
proof -
  obtain b' where b: "push_data_to_output_buffer junk data o1 = o1 \<lparr> output_buffers := (output_buffers o1)[output_buffer_index o1 := b'],
      output_data_length := output_data_length o1 + length data \<rparr>"
    "output_data_length o1 + length data \<le> length b'" "length (output_buffers o1 ! output_buffer_index o1) \<le> length b'"
    "take (output_data_length o1 + length data) b' = take (output_data_length o1) (output_buffers o1 ! output_buffer_index o1) @ data"
    by (rule push_grows [OF assms])
  have "\<forall>x \<in> set ((output_buffers o1)[output_buffer_index o1 := b']). vector_size \<le> length x"
    using assms b(3) by (auto simp: output_ok_def dest!: set_update_subset_insert [THEN subsetD] intro: order_trans [OF _ b(3)])
  then show "output_ok (push_data_to_output_buffer junk data o1)"
    using assms b(2) unfolding b(1) by (auto simp: output_ok_def split: option.splits)
  show "queue_of (push_data_to_output_buffer junk data o1) = queue_step (queue_of o1) (Push data)"
    using assms b(4) unfolding b(1)
    by (auto simp: output_ok_def queue_of_def queue_step_def unsent_def filled_def split: option.splits)
qed

lemma common_write_refines:
  assumes "output_ok o1"
  shows "output_ok (common_write o1)" and "queue_of (common_write o1) = queue_of o1"
proof -
  have "output_buffer_index o1 = 0 \<or> output_buffer_index o1 = 1" using assms by (auto simp: output_ok_def)
  then have i: "(output_buffer_index o1 + 1) mod 2 \<noteq> output_buffer_index o1" by auto
  then show "output_ok (common_write o1)" using assms by (auto simp: output_ok_def common_write_def)
  show "queue_of (common_write o1) = queue_of o1"
    using assms by (cases "in_flight o1") (auto simp: output_ok_def common_write_def queue_of_def unsent_def filled_def)
qed

lemma output_step_refines:
  assumes "output_ok o1" "output_step junk ev o1 = Some o2"
  shows "output_ok o2 \<and> queue_of o2 = queue_step (queue_of o1) ev"
proof (cases ev)
  case (Socket_Takes n)
  then obtain i len k where f: "in_flight o1 = Some (i, len, k)" "k + n \<le> len" and
    o2: "o2 = o1 \<lparr> wire := wire o1 @ take n (drop k (output_buffers o1 ! i)), in_flight := Some (i, len, k + n) \<rparr>"
    using assms(2) by (auto simp: output_step_def socket_takes_def split: option.splits if_splits)
  then have l: "k + n \<le> length (output_buffers o1 ! i)" "\<not> is_stopped o1" using assms(1) by (auto simp: output_ok_def)
  have "take n (drop k (take len b)) = take n (drop k b)" "drop n (drop k (take len b)) = drop (k + n) (take len b)" for b :: string
    using f(2) by (simp_all add: take_drop min_def add.commute)
  then have "queue_of o2 = queue_step (queue_of o1) (Socket_Takes n)"
    using f l unfolding o2 by (simp add: queue_of_def queue_step_def unsent_def filled_def)
  moreover have "output_ok o2" using assms(1) f unfolding o2 by (simp add: output_ok_def)
  ultimately show ?thesis using Socket_Takes by simp
next
  case (Write_Completed allowed)
  obtain i len where f: "in_flight o1 = Some (i, len, len)" and
    o2: "o2 = (if allowed then common_write (o1 \<lparr> is_write_in_progress := False, in_flight := None \<rparr>)
          else o1 \<lparr> is_write_in_progress := False, in_flight := None \<rparr>)"
    using assms(2) Write_Completed by (auto simp: output_step_def write_completed_def Let_def split: option.splits if_splits)
  have "output_ok (o1 \<lparr> is_write_in_progress := False, in_flight := None \<rparr>)" using assms(1) by (auto simp: output_ok_def)
  moreover have "queue_of (o1 \<lparr> is_write_in_progress := False, in_flight := None \<rparr>) = queue_of o1"
    using f by (simp add: queue_of_def unsent_def filled_def)
  ultimately show ?thesis using Write_Completed o2 by (simp add: common_write_refines queue_step_def)
next
  case Stopped
  then show ?thesis using assms
    by (auto simp: output_ok_def output_step_def stop_output_def queue_of_def queue_step_def)
next
  case Connect_Again
  then have "o2 = reset_output o1" using assms(2) by (simp add: output_step_def)
  moreover have "output_ok (reset_output o1)" "queue_of (reset_output o1) = empty_queue"
    using assms(1) by (auto simp: output_ok_def reset_output_def stop_output_def queue_of_def empty_queue_def unsent_def filled_def)
  ultimately show ?thesis using Connect_Again by (simp add: queue_step_def)
qed (use assms in \<open>auto simp: output_step_def push_refines common_write_refines queue_step_def\<close>)

lemma initial_output_ok: "output_ok initial_output" "queue_of initial_output = empty_queue"
  by (simp_all add: output_ok_def initial_output_def queue_of_def empty_queue_def unsent_def filled_def)

lemma output_run_refines:
  "output_ok o1 \<Longrightarrow> output_run junk evs o1 = Some o2 \<Longrightarrow> output_ok o2 \<and> queue_of o2 = foldl queue_step (queue_of o1) evs"
  by (induction evs arbitrary: o1) (auto split: option.splits dest: output_step_refines)

text \<open>C6: the pair of buffers implements a queue of bytes: whatever the order in which the
  session pushes data, writes start and complete and the socket takes bytes, the wire carries exactly the bytes
  pushed since the connection was opened, in order and each once, and the rest is waiting; the
  buffer being filled is never the one being written.\<close>

theorem output_refines_queue:
  assumes "output_run junk evs initial_output = Some o1"
  shows "queue_of o1 = foldl queue_step empty_queue evs \<and> output_data_length o1 \<le> length (output_buffers o1 ! output_buffer_index o1) \<and>
    (\<forall>i len k. in_flight o1 = Some (i, len, k) \<longrightarrow> i \<noteq> output_buffer_index o1)"
  using output_run_refines [OF initial_output_ok(1) assms]
  by (auto simp: initial_output_ok output_ok_def)

theorem output_refines_queue_witness:
  "\<exists>o1. output_run (CHR ''?'') [Push ''ab'', Write_Again, Push ''cd'', Socket_Takes 1, Push ''e'', Socket_Takes 1,
      Write_Completed True, Socket_Takes 2] initial_output = Some o1 \<and> queue_of o1 = \<lparr> sent = ''abcd'', waiting = ''e'', closed = False \<rparr>"
proof -
  obtain o1 where o1: "output_run (CHR ''?'') [Push ''ab'', Write_Again, Push ''cd'', Socket_Takes 1, Push ''e'', Socket_Takes 1,
      Write_Completed True, Socket_Takes 2] initial_output = Some o1"
    by (simp add: output_step_def initial_output_def push_data_to_output_buffer_def common_write_def socket_takes_def
        write_completed_def overwrite_def vector_size_def Let_def)
  from output_refines_queue [OF o1] have "queue_of o1 = \<lparr> sent = ''abcd'', waiting = ''e'', closed = False \<rparr>"
    by (simp add: queue_step_def empty_queue_def)
  with o1 show ?thesis by blast
qed

section \<open>Draining\<close>

text \<open>The events by which the connection itself empties its buffers.\<close>

fun drains :: "output_event \<Rightarrow> bool" where
  "drains Write_Again = True"
| "drains (Socket_Takes n) = True"
| "drains (Write_Completed allowed) = allowed"
| "drains _ = False"

lemma drains_keep: "list_all drains evs \<Longrightarrow> sent (foldl queue_step q evs) @ waiting (foldl queue_step q evs) = sent q @ waiting q"
proof (induction evs arbitrary: q)
  case (Cons ev evs)
  have "drains ev \<Longrightarrow> sent (queue_step q ev) @ waiting (queue_step q ev) = sent q @ waiting q"
    by (cases ev) (simp_all add: queue_step_def)
  with Cons show ?case by simp
qed simp

lemma output_run_append: "output_run junk (evs @ evs') o1 = (case output_run junk evs o1 of None \<Rightarrow> None | Some o2 \<Rightarrow> output_run junk evs' o2)"
  by (induction evs arbitrary: o1) (simp_all split: option.splits)

definition idle :: "connection_output \<Rightarrow> bool" where
  "idle o1 \<longleftrightarrow> in_flight o1 = None \<and> output_data_length o1 = 0 \<and> \<not> is_stopped o1"

lemma last_write:
  assumes "output_data_length o1 = 0" "in_flight o1 = Some (i, len, k)" "k \<le> len" "\<not> is_stopped o1"
  shows "\<exists>o2. output_run junk [Socket_Takes (len - k), Write_Completed True] o1 = Some o2 \<and> idle o2"
  using assms by (simp add: output_step_def socket_takes_def write_completed_def common_write_def idle_def)

lemma drain_filled:
  assumes "\<not> is_write_in_progress o1" "in_flight o1 = None" "\<not> is_stopped o1"
  shows "\<exists>evs o2. list_all drains evs \<and> output_run junk evs (common_write o1) = Some o2 \<and> idle o2"
proof (cases "output_data_length o1 = 0")
  case True
  then show ?thesis using assms by (intro exI [of _ "[]"]) (simp add: common_write_def idle_def)
next
  case False
  then have "output_data_length (common_write o1) = 0" "in_flight (common_write o1) = Some (output_buffer_index o1, output_data_length o1, 0)"
    "\<not> is_stopped (common_write o1)" using assms by (simp_all add: common_write_def)
  from last_write [OF this(1,2) _ this(3), of junk]
  show ?thesis by (intro exI [of _ "[Socket_Takes (output_data_length o1 - 0), Write_Completed True]"]) auto
qed

lemma drain_all:
  assumes "output_ok o1" "\<not> is_stopped o1"
  shows "\<exists>evs o2. list_all drains evs \<and> output_run junk evs o1 = Some o2 \<and> idle o2"
proof (cases "in_flight o1")
  case None
  with assms have "\<not> is_write_in_progress o1" by (simp add: output_ok_def)
  from drain_filled [OF this None assms(2), of junk] obtain evs o2
    where "list_all drains evs" "output_run junk evs (common_write o1) = Some o2" "idle o2" by blast
  then show ?thesis by (intro exI [of _ "Write_Again # evs"]) (simp add: output_step_def)
next
  case (Some f)
  obtain i len k where f: "in_flight o1 = Some (i, len, k)" using Some by (cases f) auto
  with assms have k: "k \<le> len" by (simp add: output_ok_def)
  let ?o = "o1 \<lparr> wire := wire o1 @ take (len - k) (drop k (output_buffers o1 ! i)), is_write_in_progress := False, in_flight := None \<rparr>"
  have "\<not> is_write_in_progress ?o" "in_flight ?o = None" "\<not> is_stopped ?o" using assms by simp_all
  from drain_filled [OF this, of junk] obtain evs o2
    where "list_all drains evs" "output_run junk evs (common_write ?o) = Some o2" "idle o2" by blast
  with f k show ?thesis
    by (intro exI [of _ "Socket_Takes (len - k) # Write_Completed True # evs"])
      (simp add: output_step_def socket_takes_def write_completed_def)
qed



end
