(* ===== verification/Sessions.thy ===== *)
theory Sessions
  imports Example Output_Buffer
begin

text \<open>
  How sessions turn requests into bytes: the callbacks that feed request bodies to the HTTP/2 library
  (\<^verbatim>\<open>src/h2load_http2_session.cc\<close>), the HTTP/1.1 session (\<^verbatim>\<open>src/h2load_http1_session.cc\<close>) and the loop of
  \<^verbatim>\<open>handle_write_signal\<close> that asks a session for output until it has no more
  (\<^verbatim>\<open>src/asio_client_connection.cc\<close>).
\<close>

section \<open>Request bodies of HTTP/2\<close>

text \<open>The bytes put into the frame, whether they end the body, and the request with its cursor
  moved.\<close>

definition buffer_read_callback :: "nat \<Rightarrow> request_data \<Rightarrow> (string \<times> bool \<times> request_data) result" where
  "buffer_read_callback len r =
     andthen (deref (req_payload r)) (\<lambda>stream_buffer.
       if req_payload_cursor r < length stream_buffer then
         (if len \<ge> length stream_buffer - req_payload_cursor r then
            Inr (drop (req_payload_cursor r) stream_buffer, True, r \<lparr> req_payload_cursor := length stream_buffer \<rparr>)
          else Inr (take len stream_buffer, False, r \<lparr> req_payload_cursor := req_payload_cursor r + len \<rparr>))
       else Inr ([], True, r))"

text \<open>\<^verbatim>\<open>file_read_callback\<close>: \<open>data_offset\<close> is signed, the size unsigned; an offset outside the payload reads out of
  bounds. \<open>None\<close> stands for \<^verbatim>\<open>NGHTTP2_ERR_TEMPORAL_CALLBACK_FAILURE\<close>.\<close>

definition file_read_callback :: "string \<Rightarrow> nat \<Rightarrow> int \<Rightarrow> ((string \<times> bool) option \<times> int) result" where
  "file_read_callback payload_data len offset =
    (let size_left = nat ((int (length payload_data) - offset) mod 2 ^ 64);
         nread = (if size_left > len then len else size_left) in
     if offset < 0 \<or> offset > int (length payload_data) then Inl Out_Of_Range
     else
       let bytes = take nread (drop (nat offset) payload_data); offset' = offset + int nread in
       if offset' = int (length payload_data) then Inr (Some (bytes, True), offset')
       else if offset' > int (length payload_data) \<or> nread = 0 then Inr (None, offset')
       else Inr (Some (bytes, False), offset'))"

text \<open>The library asks for the body frame by frame, each time with the room it has, until the end of the body is
  flagged.\<close>

fun body_frames :: "nat list \<Rightarrow> request_data \<Rightarrow> (string list \<times> bool) result" where
  "body_frames [] r = Inr ([], False)"
| "body_frames (n # ns) r =
     andthen (buffer_read_callback n r) (\<lambda>(bytes, eof, r').
       if eof then Inr ([bytes], True) else andthen (body_frames ns r') (\<lambda>(fs, eof'). Inr (bytes # fs, eof')))"

fun file_frames :: "string \<Rightarrow> nat list \<Rightarrow> int \<Rightarrow> (string list \<times> bool) result" where
  "file_frames payload_data [] offset = Inr ([], False)"
| "file_frames payload_data (n # ns) offset =
     andthen (file_read_callback payload_data n offset) (\<lambda>(got, offset').
       case got of
         None \<Rightarrow> Inr ([], False)
       | Some (bytes, eof) \<Rightarrow>
           if eof then Inr ([bytes], True) else andthen (file_frames payload_data ns offset') (\<lambda>(fs, eof'). Inr (bytes # fs, eof')))"

section \<open>The HTTP/1.1 session\<close>

definition crlf :: string where
  "crlf = [CHR 0x0D, CHR 0x0A]"

definition header_line :: "string \<times> string \<Rightarrow> string" where
  "header_line h = fst h @ '': '' @ snd h @ crlf"

text \<open>The head that \<^verbatim>\<open>_submit_request\<close> builds.\<close>

definition http1_head :: "request_data \<Rightarrow> string result" where
  "http1_head r =
     andthen (deref (req_method r)) (\<lambda>m. andthen (deref (path r)) (\<lambda>p. andthen (deref (authority r)) (\<lambda>a.
     andthen (merged_headers r) (\<lambda>hs.
       Inr (m @ '' '' @ p @ '' HTTP/1.1'' @ crlf @ ''Host: '' @ a @ crlf @ concat (map header_line hs) @ crlf)))))"

text \<open>The members of a session, with \<open>is_final\<close> and the output of its client.\<close>

record http1_session =
  stream_req_counter :: int
  stream_resp_counter :: int
  session_complete :: bool
  on_header_frame_callback_called :: bool
  hdr_name :: string
  hdr_val :: string
  is_final :: bool
  h1_output :: connection_output

type_synonym http1_world = "http1_session \<times> world"

definition new_http1_session :: "bool \<Rightarrow> connection_output \<Rightarrow> http1_session" where
  "new_http1_session final_flag o1 = \<lparr> stream_req_counter = 1, stream_resp_counter = 1, session_complete = False,
     on_header_frame_callback_called = False, hdr_name = [], hdr_val = [], is_final = final_flag, h1_output = o1 \<rparr>"

definition http1_terminate :: "http1_session \<Rightarrow> http1_session" where
  "http1_terminate h = h \<lparr> session_complete := True \<rparr>"

definition http1_push :: "char \<Rightarrow> string \<Rightarrow> http1_session \<Rightarrow> http1_session" where
  "http1_push junk data h = h \<lparr> h1_output := push_data_to_output_buffer junk data (h1_output h) \<rparr>"

text \<open>\<open>close\<close> stands for \<^verbatim>\<open>client_->on_stream_close\<close>, which may submit the next request through this
  session. The end of a request body, common to both kinds of requests.\<close>

definition body_sent :: "(int \<Rightarrow> bool \<Rightarrow> bool \<Rightarrow> http1_world \<Rightarrow> http1_world result) \<Rightarrow> http1_world \<Rightarrow> http1_world result" where
  "body_sent close hw =
    (let h = (fst hw) \<lparr> stream_req_counter := stream_req_counter (fst hw) + 2 \<rparr> in
     if stream_resp_counter h = stream_req_counter h then close (stream_resp_counter h - 2) True (is_final h) (h, snd hw)
     else Inr (h, snd hw))"

definition max_body_chunk :: nat where
  "max_body_chunk = 16 * 1024"

text \<open>\<^verbatim>\<open>_on_write\<close>, with the value it returns.\<close>

definition scenario_on_write :: "(int \<Rightarrow> bool \<Rightarrow> bool \<Rightarrow> http1_world \<Rightarrow> http1_world result) \<Rightarrow> char \<Rightarrow> nat \<Rightarrow> http1_world
    \<Rightarrow> (int \<times> http1_world) result" where
  "scenario_on_write close junk i hw =
    (let h = fst hw; w = snd hw; s = stream_req_counter h in
     if session_complete h then Inr (-1, hw)
     else if omap_find int_less (streams (cl w i)) s = None then Inr (0, hw)
     else case omap_find int_less (requests_awaiting_response (cl w i)) s of
         None \<Rightarrow> Inl Assertion
       | Some r \<Rightarrow>
          andthen (deref (req_payload r)) (\<lambda>stream_buffer.
            if stream_buffer = [] then Inr (0, hw)
            else
              let send_size = (if length stream_buffer > max_body_chunk then max_body_chunk else length stream_buffer);
                  h1 = http1_push junk (take send_size stream_buffer) h in
              if send_size < length stream_buffer then
                Inr (0, h1, upd_awaiting s (\<lambda>r. r \<lparr> req_payload := Str (drop send_size stream_buffer) \<rparr>) i w)
              else andthen (body_sent close (h1, w)) (\<lambda>hw'. Inr (0, hw'))))"

text \<open>\<^verbatim>\<open>on_write\<close> when there are no scenarios: the body is the file given with \<^verbatim>\<open>-d\<close>.\<close>

definition upd_data_offset :: "int \<Rightarrow> int \<Rightarrow> nat \<Rightarrow> world \<Rightarrow> world" where
  "upd_data_offset s v = upd_stream s (\<lambda>st. st \<lparr> req_stat := (req_stat st) \<lparr> data_offset := v \<rparr> \<rparr>)"

definition file_on_write :: "(int \<Rightarrow> bool \<Rightarrow> bool \<Rightarrow> http1_world \<Rightarrow> http1_world result) \<Rightarrow> string \<Rightarrow> char \<Rightarrow> nat \<Rightarrow> http1_world
    \<Rightarrow> (int \<times> http1_world) result" where
  "file_on_write close payload_data junk i hw =
    (let h = fst hw; w = snd hw; s = stream_req_counter h in
     if session_complete h then Inr (-1, hw)
     else case omap_find int_less (streams (cl w i)) s of
         None \<Rightarrow> Inr (0, hw)
       | Some st \<Rightarrow>
          (let offset = data_offset (req_stat st) in
           if offset < int (length payload_data) then
             (if offset < 0 then Inl Out_Of_Range
              else
                let size_left = length payload_data - nat offset;
                    nread = (if size_left > max_body_chunk then max_body_chunk else size_left);
                    w1 = upd_data_offset s (offset + int nread) i w;
                    h1 = http1_push junk (take nread (drop (nat offset) payload_data)) h in
                if offset + int nread = int (length payload_data) then
                  andthen (body_sent close (h1, w1)) (\<lambda>hw'. Inr (0, hw'))
                else Inr (0, h1, w1))
           else Inr (0, hw)))"

definition http1_on_write :: "(int \<Rightarrow> bool \<Rightarrow> bool \<Rightarrow> http1_world \<Rightarrow> http1_world result) \<Rightarrow> load_config \<Rightarrow> string \<Rightarrow> char \<Rightarrow> nat \<Rightarrow> http1_world
    \<Rightarrow> (int \<times> http1_world) result" where
  "http1_on_write close conf payload_data junk i hw =
    (if session_complete (fst hw) then Inr (-1, hw)
     else if scenarios_of conf \<noteq> [] then scenario_on_write close junk i hw
     else file_on_write close payload_data junk i hw)"

definition record_request_time :: "nat \<Rightarrow> nat \<Rightarrow> int \<Rightarrow> nat \<Rightarrow> world \<Rightarrow> world" where
  "record_request_time steady wall s =
     upd_stream s (\<lambda>st. st \<lparr> req_stat := (req_stat st) \<lparr> request_time := steady, request_wall_time := wall \<rparr> \<rparr>)"

text \<open>\<^verbatim>\<open>_submit_request\<close>.\<close>

definition http1_submit_scenario_request :: "(int \<Rightarrow> bool \<Rightarrow> bool \<Rightarrow> http1_world \<Rightarrow> http1_world result) \<Rightarrow> load_config \<Rightarrow> (nat \<Rightarrow> client_env)
    \<Rightarrow> string \<Rightarrow> char \<Rightarrow> nat \<Rightarrow> http1_world \<Rightarrow> (int \<times> http1_world) result" where
  "http1_submit_scenario_request close conf env payload_data junk i hw =
    (let h = fst hw; w = snd hw; s = stream_req_counter h in
     case requests_to_submit (source (cl w i)) of
       [] \<Rightarrow> Inl Abort
     | r # rest \<Rightarrow>
        (let w1 = upd i (\<lambda>c. c \<lparr> source := (source c) \<lparr> requests_to_submit := rest \<rparr> \<rparr>) w in
         if is_empty r then Inr (-1, h, w1)
         else
           andthen (http1_head r) (\<lambda>req.
           let w2 = upd i (\<lambda>c. c \<lparr> requests_awaiting_response := omap_insert int_less (requests_awaiting_response c) s r \<rparr>) w1 in
           andthen (on_request_start conf env s i w2) (\<lambda>w3.
             let e = env (calls w3);
                 w4 = record_request_time (now e) (now e) s i (called w3);
                 h1 = http1_push junk req h in
             andthen (deref (req_payload r)) (\<lambda>body.
               if body = [] then Inr (0, h1 \<lparr> stream_req_counter := s + 2 \<rparr>, w4)
               else http1_on_write close conf payload_data junk i (h1, w4))))))"

text \<open>\<^verbatim>\<open>submit_request\<close>; \<open>h1reqs\<close> are the requests prepared from the command line.\<close>

definition http1_submit_request :: "(int \<Rightarrow> bool \<Rightarrow> bool \<Rightarrow> http1_world \<Rightarrow> http1_world result) \<Rightarrow> load_config \<Rightarrow> (nat \<Rightarrow> client_env)
    \<Rightarrow> string list \<Rightarrow> string \<Rightarrow> char \<Rightarrow> nat \<Rightarrow> http1_world \<Rightarrow> (int \<times> http1_world) result" where
  "http1_submit_request close conf env h1reqs payload_data junk i hw =
    (let h = fst hw; w = snd hw; s = stream_req_counter h in
     if scenarios_of conf \<noteq> [] then http1_submit_scenario_request close conf env payload_data junk i hw
     else
       let idx = reqidx (cl w i) in
       andthen (vec_at h1reqs idx) (\<lambda>req.
         let w1 = upd i (\<lambda>c. c \<lparr> reqidx := (if idx + 1 = length h1reqs then 0 else idx + 1) \<rparr>) w in
         andthen (on_request_start conf env s i w1) (\<lambda>w2.
           let e = env (calls w2);
               w3 = record_request_time (now e) (now e) s i (called w2);
               h1 = http1_push junk req h in
           if payload_data = [] then Inr (0, h1 \<lparr> stream_req_counter := s + 2 \<rparr>, w3)
           else http1_on_write close conf payload_data junk i (h1, w3))))"

section \<open>Responses\<close>

text \<open>The callbacks of the HTTP/1.1 parser. What the parser hands over, the status code among it, is an argument.\<close>

definition htp_msg_begincb :: "http1_session \<Rightarrow> int" where
  "htp_msg_begincb h = (if stream_resp_counter h > stream_req_counter h then -1 else 0)"

definition htp_statuscb :: "nat \<Rightarrow> nat \<Rightarrow> http1_world \<Rightarrow> http1_world" where
  "htp_statuscb status i hw =
    (if status div 100 = 1 then hw else (fst hw, on_status_code (stream_resp_counter (fst hw)) status i (snd hw)))"

definition count_head :: "string \<Rightarrow> world \<Rightarrow> world" where
  "count_head data = upd_stats (\<lambda>s. s \<lparr> bytes_head := bytes_head s + int (length data), bytes_head_decomp := bytes_head_decomp s + int (length data) \<rparr>)"

definition htp_hdr_keycb :: "string \<Rightarrow> http1_world \<Rightarrow> http1_world" where
  "htp_hdr_keycb data hw = ((fst hw) \<lparr> hdr_name := data \<rparr>, count_head data (snd hw))"

text \<open>The statement that means to set \<^verbatim>\<open>on_header_frame_callback_called\<close> is a comparison.\<close>

definition htp_hdr_valcb :: "string \<Rightarrow> nat \<Rightarrow> http1_world \<Rightarrow> http1_world result" where
  "htp_hdr_valcb data i hw =
    (let h = (fst hw) \<lparr> hdr_val := (if hdr_val (fst hw) \<noteq> [] then hdr_val (fst hw) @ ''; '' @ data else data) \<rparr>;
         s = stream_resp_counter h;
         w = count_head data (snd hw);
         w1 = (if on_header_frame_callback_called h then w else on_header_frame_begin s False i w) in
     andthen (on_header s (hdr_name h) (hdr_val h) i w1) (\<lambda>w2. Inr (h \<lparr> hdr_name := [], hdr_val := [] \<rparr>, w2)))"

definition expect_response_body :: "nat \<Rightarrow> bool" where
  "expect_response_body status \<longleftrightarrow> status = 101 \<or>
     (status div 100 \<noteq> 1 \<and> status \<noteq> 304 \<and> status \<noteq> 204)"

definition htp_hdrs_completecb :: "nat \<Rightarrow> int" where
  "htp_hdrs_completecb status = (if expect_response_body status then 0 else 1)"

definition record_ttfb :: "nat \<Rightarrow> nat \<Rightarrow> world \<Rightarrow> world" where
  "record_ttfb t i =
     upd i (\<lambda>c. if ttfb (cstat c) \<noteq> 0 then c else c \<lparr> cstat := (cstat c) \<lparr> ttfb := t \<rparr> \<rparr>)"

definition htp_body_cb :: "nat \<Rightarrow> string \<Rightarrow> nat \<Rightarrow> http1_world \<Rightarrow> http1_world" where
  "htp_body_cb t data i hw =
     (fst hw, upd_stats (\<lambda>s. s \<lparr> bytes_body := bytes_body s + int (length data) \<rparr>)
        (record_ttfb t i (on_data_chunk (stream_resp_counter (fst hw)) data i (snd hw))))"

text \<open>The end of a message; -1 stands for the value that pauses the parser, \<open>data_length\<close> is the length
  of the file given with \<^verbatim>\<open>-d\<close>.\<close>

definition htp_msg_completecb :: "(int \<Rightarrow> bool \<Rightarrow> bool \<Rightarrow> http1_world \<Rightarrow> http1_world result) \<Rightarrow> nat \<Rightarrow> bool \<Rightarrow> nat \<Rightarrow> nat \<Rightarrow> http1_world
    \<Rightarrow> (int \<times> http1_world) result" where
  "htp_msg_completecb close status keep_alive data_length i hw =
    (if status div 100 = 1 then Inr (0, hw)
     else
       let h = (fst hw) \<lparr> is_final := \<not> keep_alive \<rparr>; s = stream_resp_counter h in
       case omap_find int_less (streams (cl (snd hw) i)) s of
         None \<Rightarrow> Inl Assertion
       | Some st \<Rightarrow>
          andthen (if data_offset (req_stat st) \<ge> int data_length then close s True (is_final h) (h, snd hw) else Inr (h, snd hw))
            (\<lambda>(h1, w1).
              let h2 = h1 \<lparr> stream_resp_counter := stream_resp_counter h1 + 2 \<rparr> in
              if is_final h2 then
                Inr (-1, h2 \<lparr> stream_req_counter := stream_resp_counter h2 \<rparr>,
                  if req_left (cl w1 i) \<noteq> 0 then upd i (\<lambda>c. c \<lparr> new_connection_requested := True \<rparr>) w1 else w1)
              else Inr (0, h2, w1)))"

section \<open>Writing until there is no more\<close>

text \<open>The loop of \<^verbatim>\<open>handle_write_signal\<close>: \<open>None\<close> would be a loop that does not end.\<close>

partial_function (option) write_loop :: "('s \<Rightarrow> 's result) \<Rightarrow> ('s \<Rightarrow> nat) \<Rightarrow> 's \<Rightarrow> 's result option" where
  "write_loop on_write len s =
    (case on_write s of
       Inl e \<Rightarrow> Some (Inl e)
     | Inr s' \<Rightarrow> if len s' = len s then Some (Inr s') else write_loop on_write len s')"

definition http1_handle_write_signal :: "(int \<Rightarrow> bool \<Rightarrow> bool \<Rightarrow> http1_world \<Rightarrow> http1_world result) \<Rightarrow> load_config \<Rightarrow> string \<Rightarrow> char \<Rightarrow> nat \<Rightarrow> http1_world
    \<Rightarrow> http1_world result option" where
  "http1_handle_write_signal close conf payload_data junk i hw =
     map_option (\<lambda>res. andthen res (\<lambda>(h, w). Inr (h \<lparr> h1_output := common_write (h1_output h) \<rparr>, w)))
       (write_loop (\<lambda>x. andthen (http1_on_write close conf payload_data junk i x) (\<lambda>(rv, x'). Inr x'))
          (\<lambda>x. output_data_length (h1_output (fst x))) hw)"

text \<open>A session that hands over its output piece by piece: what \<open>rest\<close> says it still has to
  write is pushed to the output, and a call that pushes nothing means that there is nothing left.\<close>

locale session_output =
  fixes on_write :: "'s \<Rightarrow> 's result" and out_of :: "'s \<Rightarrow> connection_output" and rest :: "'s \<Rightarrow> string"
    and ready :: "'s \<Rightarrow> bool" and junk :: char
  assumes piece: "ready s \<Longrightarrow> \<exists>s' p. on_write s = Inr s' \<and> ready s' \<and> rest s = p @ rest s' \<and>
      (p = [] \<longrightarrow> rest s = [] \<and> out_of s' = out_of s) \<and> (p \<noteq> [] \<longrightarrow> out_of s' = push_data_to_output_buffer junk p (out_of s))"
begin

lemma write_loop_ends:
  assumes "ready s" "output_ok (out_of s)" "\<not> is_stopped (out_of s)"
  shows "\<exists>s'. write_loop on_write (\<lambda>x. output_data_length (out_of x)) s = Some (Inr s') \<and> ready s' \<and> rest s' = [] \<and>
    output_ok (out_of s') \<and> \<not> is_stopped (out_of s') \<and>
    waiting (queue_of (out_of s')) = waiting (queue_of (out_of s)) @ rest s \<and> wire (out_of s') = wire (out_of s)"
  using assms
proof (induction "length (rest s)" arbitrary: s rule: less_induct)
  case less
  let ?len = "\<lambda>x. output_data_length (out_of x)"
  from piece [OF less.prems(1)] obtain s1 p where s1: "on_write s = Inr s1" "ready s1" "rest s = p @ rest s1"
    "p = [] \<longrightarrow> rest s = [] \<and> out_of s1 = out_of s" "p \<noteq> [] \<longrightarrow> out_of s1 = push_data_to_output_buffer junk p (out_of s)" by blast
  show ?case
  proof (cases "p = []")
    case True
    with s1 less.prems show ?thesis by (subst write_loop.simps) simp
  next
    case False
    with s1 have out: "out_of s1 = push_data_to_output_buffer junk p (out_of s)" by simp
    then have "?len s1 \<noteq> ?len s" using False by (simp add: push_data_to_output_buffer_def Let_def)
    then have loop: "write_loop on_write ?len s = write_loop on_write ?len s1" using s1(1) by (subst write_loop.simps) simp
    have st: "is_stopped (out_of s1) = is_stopped (out_of s)" "wire (out_of s1) = wire (out_of s)"
      by (simp_all add: out push_data_to_output_buffer_def Let_def)
    have "waiting (queue_of (out_of s1)) = waiting (queue_of (out_of s)) @ p"
      using less.prems(2,3) push_refines(2) [of "out_of s" junk p] by (simp add: out queue_step_def) (simp add: queue_of_def)
    moreover have "length (rest s1) < length (rest s)" using False s1(3) by simp
    note less.hyps [OF this s1(2)]
    ultimately show ?thesis
      using push_refines(1) [OF less.prems(2), of junk p] less.prems(3) st s1(3) loop by (auto simp: out)
  qed
qed

end

text \<open>The stream \<open>s\<close> of an HTTP/1.1 session is being sent, or has been sent and the next one has not
  been started; a response is never ahead of its request.\<close>

definition stream_open :: "int \<Rightarrow> nat \<Rightarrow> world \<Rightarrow> bool" where
  "stream_open s i w \<longleftrightarrow> omap_find int_less (streams (cl w i)) s \<noteq> None"

definition payload_left :: "int \<Rightarrow> nat \<Rightarrow> world \<Rightarrow> string" where
  "payload_left s i w =
    (case omap_find int_less (requests_awaiting_response (cl w i)) s of
       None \<Rightarrow> [] | Some r \<Rightarrow> (case deref (req_payload r) of Inl _ \<Rightarrow> [] | Inr b \<Rightarrow> b))"

definition sending :: "int \<Rightarrow> nat \<Rightarrow> (world \<Rightarrow> string) \<Rightarrow> http1_world \<Rightarrow> bool" where
  "sending s i body hw \<longleftrightarrow> \<not> session_complete (fst hw) \<and> stream_resp_counter (fst hw) \<le> s \<and> \<not> stream_open (s + 2) i (snd hw) \<and>
     (stream_req_counter (fst hw) = s \<and> stream_open s i (snd hw) \<and> body (snd hw) \<noteq> [] \<or> stream_req_counter (fst hw) = s + 2)"

definition still_to_send :: "int \<Rightarrow> (world \<Rightarrow> string) \<Rightarrow> http1_world \<Rightarrow> string" where
  "still_to_send s body hw = (if stream_req_counter (fst hw) = s then body (snd hw) else [])"

lemma body_sent_next: "stream_resp_counter h \<le> stream_req_counter h \<Longrightarrow>
    body_sent close (h, w) = Inr (h \<lparr> stream_req_counter := stream_req_counter h + 2 \<rparr>, w)"
  by (simp add: body_sent_def)

lemma http1_push_simps [simp]:
  "stream_req_counter (http1_push junk data h) = stream_req_counter h"
  "stream_resp_counter (http1_push junk data h) = stream_resp_counter h"
  "session_complete (http1_push junk data h) = session_complete h"
  "h1_output (http1_push junk data h) = push_data_to_output_buffer junk data (h1_output h)"
  by (simp_all add: http1_push_def)

text \<open>The scenario's requests.\<close>

definition scenario_ready :: "int \<Rightarrow> nat \<Rightarrow> http1_world \<Rightarrow> bool" where
  "scenario_ready s i hw \<longleftrightarrow> sending s i (payload_left s i) hw \<and> omap_ok int_less (requests_awaiting_response (cl (snd hw) i))"

lemma scenario_piece:
  assumes "scenario_ready s i hw"
  shows "\<exists>hw' p. scenario_on_write close junk i hw = Inr (0, hw') \<and> scenario_ready s i hw' \<and>
    still_to_send s (payload_left s i) hw = p @ still_to_send s (payload_left s i) hw' \<and>
    (p = [] \<longrightarrow> still_to_send s (payload_left s i) hw = [] \<and> h1_output (fst hw') = h1_output (fst hw)) \<and>
    (p \<noteq> [] \<longrightarrow> h1_output (fst hw') = push_data_to_output_buffer junk p (h1_output (fst hw)))"
proof -
  obtain h w where hw: "hw = (h, w)" by force
  from assms have c: "\<not> session_complete h" "stream_resp_counter h \<le> s" "\<not> stream_open (s + 2) i w"
    "omap_ok int_less (requests_awaiting_response (cl w i))" by (simp_all add: scenario_ready_def sending_def hw)
  show ?thesis
  proof (cases "stream_req_counter h = s")
    case False
    with assms have "stream_req_counter h = s + 2" by (simp add: scenario_ready_def sending_def hw)
    with c assms show ?thesis
      by (intro exI [of _ hw] exI [of _ "[]"]) (simp add: hw scenario_on_write_def stream_open_def still_to_send_def)
  next
    case True
    with assms have o1: "stream_open s i w" "payload_left s i w \<noteq> []" by (simp_all add: scenario_ready_def sending_def hw)
    then obtain r b where r: "omap_find int_less (requests_awaiting_response (cl w i)) s = Some r" "deref (req_payload r) = Inr b"
      "payload_left s i w = b" "b \<noteq> []" by (auto simp: payload_left_def split: option.splits sum.splits)
    from o1(1) obtain y where y: "omap_find int_less (streams (cl w i)) s = Some y" by (auto simp: stream_open_def)
    let ?n = "if length b > max_body_chunk then max_body_chunk else length b"
    let ?h = "http1_push junk (take ?n b) h"
    have ne: "take ?n b \<noteq> []" using r(4) by (simp add: max_body_chunk_def)
    show ?thesis
    proof (cases "?n < length b")
      case more: True
      let ?w = "upd_awaiting s (\<lambda>r. r \<lparr> req_payload := Str (drop ?n b) \<rparr>) i w"
      have pl: "payload_left s i ?w = drop ?n b" "streams (cl ?w i) = streams (cl w i)"
        "omap_ok int_less (requests_awaiting_response (cl ?w i))"
        using r(1) c(4) by (simp_all add: payload_left_def upd_awaiting_def upd_def sid.find_set sid.omap_ok_set deref_def)
      have "scenario_on_write close junk i hw = Inr (0, ?h, ?w)"
        using c(1) True y r more by (simp add: hw scenario_on_write_def Let_def)
      moreover have "scenario_ready s i (?h, ?w)"
        using c True o1 pl more by (simp add: scenario_ready_def sending_def stream_open_def)
      ultimately show ?thesis using True r ne pl
        by (intro exI [of _ "(?h, ?w)"] exI [of _ "take ?n b"]) (simp add: hw still_to_send_def)
    next
      case False
      then have n: "?n = length b" by (auto split: if_splits)
      let ?h' = "?h \<lparr> stream_req_counter := s + 2 \<rparr>"
      have "scenario_on_write close junk i hw = Inr (0, ?h', w)"
        using c True y r False by (simp add: hw scenario_on_write_def Let_def body_sent_next)
      moreover have "scenario_ready s i (?h', w)" using c by (simp add: scenario_ready_def sending_def)
      ultimately show ?thesis using True r ne n
        by (intro exI [of _ "(?h', w)"] exI [of _ "take ?n b"]) (simp add: hw still_to_send_def)
    qed
  qed
qed

interpretation scenario_output: session_output
  "\<lambda>x. andthen (scenario_on_write close junk i x) (\<lambda>(rv, x'). Inr x')" "\<lambda>x. h1_output (fst x)"
  "still_to_send s (payload_left s i)" "scenario_ready s i" junk for close junk i s
proof unfold_locales
  fix hw assume "scenario_ready s i hw"
  from scenario_piece [OF this, of close junk]
  show "\<exists>s' p. andthen (scenario_on_write close junk i hw) (\<lambda>(rv, x'). Inr x') = Inr s' \<and> scenario_ready s i s' \<and>
      still_to_send s (payload_left s i) hw = p @ still_to_send s (payload_left s i) s' \<and>
      (p = [] \<longrightarrow> still_to_send s (payload_left s i) hw = [] \<and> h1_output (fst s') = h1_output (fst hw)) \<and>
      (p \<noteq> [] \<longrightarrow> h1_output (fst s') = push_data_to_output_buffer junk p (h1_output (fst hw)))"
    by auto
qed

text \<open>Requests with the file given on the command line as their body.\<close>

definition file_left :: "string \<Rightarrow> int \<Rightarrow> nat \<Rightarrow> world \<Rightarrow> string" where
  "file_left payload_data s i w =
    (case omap_find int_less (streams (cl w i)) s of None \<Rightarrow> [] | Some st \<Rightarrow> drop (nat (data_offset (req_stat st))) payload_data)"

definition file_ready :: "string \<Rightarrow> int \<Rightarrow> nat \<Rightarrow> http1_world \<Rightarrow> bool" where
  "file_ready payload_data s i hw \<longleftrightarrow> sending s i (file_left payload_data s i) hw \<and> omap_ok int_less (streams (cl (snd hw) i)) \<and>
     (case omap_find int_less (streams (cl (snd hw) i)) s of None \<Rightarrow> True | Some st \<Rightarrow> 0 \<le> data_offset (req_stat st))"

lemma file_piece:
  assumes "file_ready payload_data s i hw"
  shows "\<exists>hw' p. file_on_write close payload_data junk i hw = Inr (0, hw') \<and> file_ready payload_data s i hw' \<and>
    still_to_send s (file_left payload_data s i) hw = p @ still_to_send s (file_left payload_data s i) hw' \<and>
    (p = [] \<longrightarrow> still_to_send s (file_left payload_data s i) hw = [] \<and> h1_output (fst hw') = h1_output (fst hw)) \<and>
    (p \<noteq> [] \<longrightarrow> h1_output (fst hw') = push_data_to_output_buffer junk p (h1_output (fst hw)))"
proof -
  obtain h w where hw: "hw = (h, w)" by force
  from assms have c: "\<not> session_complete h" "stream_resp_counter h \<le> s" "\<not> stream_open (s + 2) i w"
    "omap_ok int_less (streams (cl w i))" by (simp_all add: file_ready_def sending_def hw)
  show ?thesis
  proof (cases "stream_req_counter h = s")
    case False
    with assms have "stream_req_counter h = s + 2" by (simp add: file_ready_def sending_def hw)
    with c assms show ?thesis
      by (intro exI [of _ hw] exI [of _ "[]"]) (simp add: hw file_on_write_def stream_open_def still_to_send_def)
  next
    case True
    with assms obtain st where st: "omap_find int_less (streams (cl w i)) s = Some st" "0 \<le> data_offset (req_stat st)"
      "drop (nat (data_offset (req_stat st))) payload_data \<noteq> []"
      by (auto simp: file_ready_def sending_def hw stream_open_def file_left_def)
    define k where "k = nat (data_offset (req_stat st))"
    define n where "n = (if length payload_data - k > max_body_chunk then max_body_chunk else length payload_data - k)"
    have k: "data_offset (req_stat st) = int k" "k < length payload_data" using st by (simp_all add: k_def)
    have n: "0 < n" "k + n \<le> length payload_data" using k by (auto simp: n_def max_body_chunk_def)
    let ?w = "upd_data_offset s (int k + int n) i w" and ?h = "http1_push junk (take n (drop k payload_data)) h"
    have ne: "take n (drop k payload_data) \<noteq> []" using n k by simp
    have w: "file_left payload_data s i ?w = drop (k + n) payload_data" "omap_ok int_less (streams (cl ?w i))"
      "stream_open t i ?w = stream_open t i w" "(case omap_find int_less (streams (cl ?w i)) s of None \<Rightarrow> True | Some st \<Rightarrow> 0 \<le> data_offset (req_stat st))" for t
      using st(1) c(4) by (auto simp: upd_data_offset_def upd_stream_def upd_def file_left_def stream_open_def sid.find_set sid.omap_ok_set nat_add_distrib)
    have p: "still_to_send s (file_left payload_data s i) hw = take n (drop k payload_data) @ drop (k + n) payload_data"
      using True st(1) k n append_take_drop_id [of n "drop k payload_data"] by (simp add: hw still_to_send_def file_left_def add.commute)
    have e: "file_on_write close payload_data junk i hw =
        (if k + n = length payload_data then andthen (body_sent close (?h, ?w)) (\<lambda>hw'. Inr (0, hw')) else Inr (0, ?h, ?w))"
      using c(1) True st(1) k n by (simp add: hw file_on_write_def Let_def flip: n_def)
    show ?thesis
    proof (cases "k + n = length payload_data")
      case fin: True
      let ?h' = "?h \<lparr> stream_req_counter := s + 2 \<rparr>"
      have "file_on_write close payload_data junk i hw = Inr (0, ?h', ?w)" using e fin c True by (simp add: body_sent_next)
      moreover have "file_ready payload_data s i (?h', ?w)" using c w by (simp add: file_ready_def sending_def)
      ultimately show ?thesis using p ne fin
        by (intro exI [of _ "(?h', ?w)"] exI [of _ "take n (drop k payload_data)"]) (simp add: hw still_to_send_def)
    next
      case False
      have "file_ready payload_data s i (?h, ?w)" using c w True st(1) n False by (simp add: file_ready_def sending_def stream_open_def)
      then show ?thesis using e False p ne w True
        by (intro exI [of _ "(?h, ?w)"] exI [of _ "take n (drop k payload_data)"]) (simp add: hw still_to_send_def)
    qed
  qed
qed

interpretation file_output: session_output
  "\<lambda>x. andthen (file_on_write close payload_data junk i x) (\<lambda>(rv, x'). Inr x')" "\<lambda>x. h1_output (fst x)"
  "still_to_send s (file_left payload_data s i)" "file_ready payload_data s i" junk for close payload_data junk i s
proof unfold_locales
  fix hw assume "file_ready payload_data s i hw"
  from file_piece [OF this, of close junk]
  show "\<exists>s' p. andthen (file_on_write close payload_data junk i hw) (\<lambda>(rv, x'). Inr x') = Inr s' \<and> file_ready payload_data s i s' \<and>
      still_to_send s (file_left payload_data s i) hw = p @ still_to_send s (file_left payload_data s i) s' \<and>
      (p = [] \<longrightarrow> still_to_send s (file_left payload_data s i) hw = [] \<and> h1_output (fst s') = h1_output (fst hw)) \<and>
      (p \<noteq> [] \<longrightarrow> h1_output (fst s') = push_data_to_output_buffer junk p (h1_output (fst hw)))"
    by auto
qed

lemma http1_on_write_scenarios: "scenarios_of conf \<noteq> [] \<Longrightarrow> http1_on_write close conf payload_data junk i = scenario_on_write close junk i"
  by (rule ext) (simp add: http1_on_write_def scenario_on_write_def)

lemma http1_on_write_file: "scenarios_of conf = [] \<Longrightarrow> http1_on_write close conf payload_data junk i = file_on_write close payload_data junk i"
  by (rule ext) (simp add: http1_on_write_def file_on_write_def)

definition on_wire :: "http1_session \<Rightarrow> string" where
  "on_wire h = wire (h1_output h) @ waiting (queue_of (h1_output h))"

definition output_open :: "http1_session \<Rightarrow> bool" where
  "output_open h \<longleftrightarrow> output_ok (h1_output h) \<and> \<not> is_stopped (h1_output h)"

lemma on_wire_push: "output_open h \<Longrightarrow> on_wire (http1_push junk data h) = on_wire h @ data \<and> output_open (http1_push junk data h)"
  using push_refines [of "h1_output h" junk data]
  by (simp add: on_wire_def output_open_def queue_step_def http1_push_def)
    (simp add: queue_of_def push_data_to_output_buffer_def Let_def)

lemma http1_signal_sends:
  assumes "scenarios_of conf \<noteq> []" "scenario_ready s i (h, w)" "output_open h"
  shows "\<exists>h' w'. http1_handle_write_signal close conf payload_data junk i (h, w) = Some (Inr (h', w')) \<and>
    on_wire h' = on_wire h @ still_to_send s (payload_left s i) (h, w) \<and> stream_req_counter h' = s + 2"
proof -
  from assms(3) have "output_ok (h1_output (fst (h, w)))" "\<not> is_stopped (h1_output (fst (h, w)))" by (simp_all add: output_open_def)
  from scenario_output.write_loop_ends [OF assms(2) this, of close junk] obtain h1 w1 where
    l: "write_loop (\<lambda>x. andthen (scenario_on_write close junk i x) (\<lambda>(rv, x'). Inr x')) (\<lambda>x. output_data_length (h1_output (fst x))) (h, w) =
      Some (Inr (h1, w1))" "scenario_ready s i (h1, w1)" "still_to_send s (payload_left s i) (h1, w1) = []" "output_ok (h1_output h1)"
      "\<not> is_stopped (h1_output h1)" "waiting (queue_of (h1_output h1)) = waiting (queue_of (h1_output h)) @ still_to_send s (payload_left s i) (h, w)"
      "wire (h1_output h1) = wire (h1_output h)" by auto
  have "wire (common_write (h1_output h1)) = wire (h1_output h1)" by (simp add: common_write_def)
  moreover have "stream_req_counter h1 = s + 2"
    using l(2,3) by (auto simp: scenario_ready_def sending_def still_to_send_def)
  ultimately show ?thesis
    using l common_write_refines(2) [OF l(4)]
    by (simp add: http1_handle_write_signal_def http1_on_write_scenarios [OF assms(1)] on_wire_def)
qed

text \<open>What submitting a request leaves: the head is in the output, with the first piece of the body if there
  is one.\<close>

lemma http1_submit_leaves:
  assumes "scenarios_of conf \<noteq> []" "requests_to_submit (source (cl w i)) = r # rest" "\<not> is_empty r"
    and "http1_head r = Inr req" "deref (req_payload r) = Inr body"
    and "\<not> session_complete h" "stream_req_counter h = s" "stream_resp_counter h \<le> s" "output_open h"
    and "omap_ok int_less (streams (cl w i))" "omap_ok int_less (requests_awaiting_response (cl w i))"
    and "omap_find int_less (requests_awaiting_response (cl w i)) s = None" "omap_find int_less (streams (cl w i)) (s + 2) = None"
  shows "\<exists>h' w'. http1_submit_request close conf env h1reqs payload_data junk i (h, w) = Inr (0, h', w') \<and>
    scenario_ready s i (h', w') \<and> output_open h' \<and> on_wire h' @ still_to_send s (payload_left s i) (h', w') = on_wire h @ req @ body"
proof -
  define w2 where "w2 = upd i (\<lambda>c. c \<lparr> requests_awaiting_response := omap_insert int_less (requests_awaiting_response c) s r \<rparr>)
     (upd i (\<lambda>c. c \<lparr> source := (source c) \<lparr> requests_to_submit := rest \<rparr> \<rparr>) w)"
  have f: "omap_find int_less (requests_awaiting_response (cl w2 i)) s = Some r" "streams (cl w2 i) = streams (cl w i)"
    "omap_ok int_less (requests_awaiting_response (cl w2 i))"
    using assms(11,12) by (simp_all add: w2_def upd_def sid.find_insert sid.omap_ok_insert)
  then obtain w3 st where w3: "on_request_start conf env s i w2 = Inr w3" "streams (cl w3 i) = omap_set int_less (streams (cl w i)) s st"
    "requests_awaiting_response (cl w3 i) = requests_awaiting_response (cl w2 i)"
    by (simp add: on_request_start_def upd_def Let_def called_def)
  define w4 where "w4 = record_request_time (now (env (calls w3))) (now (env (calls w3))) s i (called w3)"
  have w4: "requests_awaiting_response (cl w4 i) = requests_awaiting_response (cl w2 i)" "stream_open s i w4" "\<not> stream_open (s + 2) i w4"
    using w3 assms(10,13)
    by (simp_all add: w4_def record_request_time_def upd_stream_def upd_def called_def stream_open_def sid.find_set sid.omap_ok_set split: option.splits)
  let ?h = "http1_push junk req h"
  have sub: "http1_submit_request close conf env h1reqs payload_data junk i (h, w) =
      (if body = [] then Inr (0, ?h \<lparr> stream_req_counter := s + 2 \<rparr>, w4) else scenario_on_write close junk i (?h, w4))"
    using assms(1-7) w3(1)
    by (simp add: http1_submit_request_def http1_submit_scenario_request_def Let_def w4_def w2_def http1_on_write_scenarios)
  have pl: "payload_left s i w4 = body" using f(1) w4(1) assms(5) by (simp add: payload_left_def)
  note push = on_wire_push [OF assms(9), of junk req]
  show ?thesis
  proof (cases "body = []")
    case True
    then have "scenario_ready s i (?h \<lparr> stream_req_counter := s + 2 \<rparr>, w4)"
      using assms(6,8) w4 f(3) by (simp add: scenario_ready_def sending_def)
    with True sub push show ?thesis by (simp add: still_to_send_def on_wire_def output_open_def)
  next
    case False
    then have "scenario_ready s i (?h, w4)" using assms(6-8) w4 f(3) pl by (simp add: scenario_ready_def sending_def)
    from scenario_piece [OF this, of close junk] obtain h' w' p where
      p: "scenario_on_write close junk i (?h, w4) = Inr (0, h', w')" "scenario_ready s i (h', w')"
        "body = p @ still_to_send s (payload_left s i) (h', w')" "p = [] \<longrightarrow> h1_output h' = h1_output ?h"
        "p \<noteq> [] \<longrightarrow> h1_output h' = push_data_to_output_buffer junk p (h1_output ?h)"
      using assms(7) pl by (auto simp: still_to_send_def)
    have "on_wire h' = on_wire ?h @ p \<and> output_open h'"
      using p(4,5) push on_wire_push [of ?h junk p] by (cases "p = []") (simp_all add: on_wire_def output_open_def)
    moreover have "http1_submit_request close conf env h1reqs payload_data junk i (h, w) = Inr (0, h', w')" using sub False p(1) by simp
    ultimately show ?thesis using push p(2) p(3) [symmetric] by (intro exI [of _ h'] exI [of _ w']) simp
  qed
qed



section \<open>Bodies in frames\<close>

lemma buffer_read_more:
  assumes "deref (req_payload r) = Inr b" "n < length b - req_payload_cursor r"
  shows "buffer_read_callback n r = Inr (take n b, False, r \<lparr> req_payload_cursor := req_payload_cursor r + n \<rparr>)"
  using assms by (simp add: buffer_read_callback_def)

lemma body_frames_from:
  assumes "deref (req_payload r) = Inr b" "req_payload_cursor r + sum_list ns < length b"
    and "length b \<le> req_payload_cursor r + sum_list ns + n"
  shows "body_frames (ns @ [n]) r = Inr (map (\<lambda>l. take l b) ns @ [drop (req_payload_cursor r + sum_list ns) b], True)"
  using assms
proof (induction ns arbitrary: r)
  case Nil
  then show ?case by (simp add: buffer_read_callback_def)
next
  case (Cons m ns)
  let ?r = "r \<lparr> req_payload_cursor := req_payload_cursor r + m \<rparr>"
  have "buffer_read_callback m r = Inr (take m b, False, ?r)"
    using Cons.prems by (intro buffer_read_more) simp_all
  moreover have "body_frames (ns @ [n]) ?r = Inr (map (\<lambda>l. take l b) ns @ [drop (req_payload_cursor ?r + sum_list ns) b], True)"
    using Cons.prems by (intro Cons.IH) (simp_all add: add.assoc)
  ultimately show ?case by (simp add: add.assoc)
qed

text \<open>C15: a request body that needs more than one HTTP/2 frame is not what was asked for: every frame but the last
  repeats the beginning of the body, because the copy ignores how much has been sent. Only the
  number of bytes is right.\<close>

theorem http2_frames_repeat_start:
  assumes "deref (req_payload r) = Inr b" and "req_payload_cursor r = 0"
    and "sum_list ns < length b" and "length b \<le> sum_list ns + n"
  shows "body_frames (ns @ [n]) r = Inr (map (\<lambda>l. take l b) ns @ [drop (sum_list ns) b], True) \<and>
    length (concat (map (\<lambda>l. take l b) ns @ [drop (sum_list ns) b])) = length b"
proof -
  have "length (concat (map (\<lambda>l. take l b) ns)) = sum_list ns" if "sum_list ns \<le> length b" for ns
    using that by (induction ns) auto
  with assms(3) body_frames_from [OF assms(1), of ns n] assms show ?thesis by simp
qed

theorem http2_frames_repeat_start_witness:
  "body_frames [2, 2, 9] greeting = Inr ([''he'', ''he'', ''o''], True) \<and> concat [''he'', ''he'', ''o''] \<noteq> ''hello''"
proof -
  have "deref (req_payload greeting) = Inr ''hello''" "req_payload_cursor greeting = 0"
    by (simp_all add: greeting_def deref_def request_data_of_def)
  from http2_frames_repeat_start [OF this, of "[2, 2]" 9] show ?thesis by simp
qed

lemma file_read_inside:
  assumes "k < length b" "length b < 2 ^ 64" "0 < n"
  shows "file_read_callback b n (int k) =
    Inr (Some (take n (drop k b), length b \<le> k + n), int k + int (min n (length b - k)))"
proof -
  have "nat ((int (length b) - int k) mod 2 ^ 64) = length b - k"
    using assms by (simp add: mod_pos_pos_trivial)
  then show ?thesis using assms by (auto simp: file_read_callback_def Let_def min_def)
qed

lemma file_frames_from:
  assumes "\<forall>n \<in> set ns. 0 < n" "k < length b" "length b < 2 ^ 64" "length b \<le> k + sum_list ns"
  shows "\<exists>fs. file_frames b ns (int k) = Inr (fs, True) \<and> concat fs = drop k b"
  using assms
proof (induction ns arbitrary: k)
  case (Cons n ns)
  show ?case
  proof (cases "length b \<le> k + n")
    case True
    then show ?thesis using Cons.prems by (simp add: file_read_inside)
  next
    case False
    then have "file_read_callback b n (int k) = Inr (Some (take n (drop k b), False), int (k + n))"
      using Cons.prems by (simp add: file_read_inside min_def)
    moreover from False Cons.prems obtain fs where "file_frames b ns (int (k + n)) = Inr (fs, True)" "concat fs = drop (k + n) b"
      using Cons.IH [of "k + n"] by auto
    ultimately show ?thesis using append_take_drop_id [of n "drop k b"] by (simp add: add.commute)
  qed
qed simp

text \<open>C40: the file given on the command line is sent complete and in order in whatever frames the
  HTTP/2 library asks for, and the end of the body is flagged with its last byte, provided that the offset of
  the stream starts at 0.\<close>

theorem file_body_complete:
  assumes "\<forall>n \<in> set ns. 0 < n" and "b \<noteq> []" and "length b < 2 ^ 64" and "length b \<le> sum_list ns"
  shows "\<exists>fs. file_frames b ns 0 = Inr (fs, True) \<and> concat fs = b"
  using file_frames_from [OF assms(1), of 0 b] assms by simp

theorem file_body_complete_witness: "\<exists>fs. file_frames ''hello'' [2, 2, 9] 0 = Inr (fs, True) \<and> concat fs = ''hello''"
  by (rule file_body_complete) simp_all

end
