(* ===== verification/Launch.thy ===== *)
theory Launch
  imports Whole_Runs Sessions
begin

text \<open>
  The main program (\<^verbatim>\<open>src/h2load.cc\<close>): it checks the options, prepares the requests given on the command line,
  deals requests, clients and connection rate out to the threads, and adds up the statistics of their workers for the
  final report. Together with the invariants of runs this accounts for every request of a test.
\<close>

section \<open>Options\<close>

text \<open>The checks of \<^verbatim>\<open>main\<close> in their order; the result is the number of requests to be made.\<close>

definition check_options :: "load_config \<Rightarrow> string list \<Rightarrow> nat \<Rightarrow> nat \<Rightarrow> nat result" where
  "check_options conf reqlines nreqs nthreads =
    (if nclients_opt conf = 0 then Inl Exit_Failure
     else if reqlines = [] \<and> (host_opt conf = [] \<or> scheme_opt conf = []) then Inl Exit_Failure
     else if timing_script conf \<and> rps_positive conf then Inl Exit_Failure
     else if nreqs = 0 \<and> \<not> is_timing_based_mode conf then Inl Exit_Failure
     else if max_concurrent_streams_opt conf = 0 then Inl Exit_Failure
     else if nthreads = 0 then Inl Exit_Failure
     else if \<not> timing_script conf \<and> nreqs < nclients_opt conf \<and> \<not> is_timing_based_mode conf then Inl Exit_Failure
     else if nclients_opt conf < nthreads then Inl Exit_Failure
     else
       let nreqs = (if is_timing_based_mode conf then 0 else nreqs) in
       if is_rate_mode conf \<and> rate_opt conf < nthreads then Inl Exit_Failure
       else if is_rate_mode conf \<and> rate_opt conf > nclients_opt conf then Inl Exit_Failure
       else Inr nreqs)"

section \<open>Requests of the command line\<close>

type_synonym header_list = "(string \<times> string) list"

definition override_hdrs :: "string list" where
  "override_hdrs = ['':authority'', '':host'', '':method'', '':scheme'', ''user-agent'']"

text \<open>One custom header: it replaces a header that may be overridden, or is added.\<close>

definition custom_header :: "header_list \<Rightarrow> string \<times> string \<Rightarrow> header_list" where
  "custom_header shared_nva kv =
    (if fst kv \<in> set override_hdrs then
       map (\<lambda>nv. if fst nv = '':authority'' \<and> fst kv = '':host'' \<or> fst nv = fst kv then (fst nv, snd kv) else nv) shared_nva
     else shared_nva @ [kv])"

definition shared_headers :: "load_config \<Rightarrow> nat \<Rightarrow> nat \<Rightarrow> string \<Rightarrow> header_list \<Rightarrow> header_list" where
  "shared_headers conf default_port data_length user_agent custom_headers =
     foldl custom_header
       [('':scheme'', scheme_opt conf),
        ('':authority'', if port_opt conf \<noteq> default_port then host_opt conf @ '':'' @ utos (port_opt conf) else host_opt conf),
        ('':method'', if data_length > 0 then ''POST'' else ''GET''),
        (''user-agent'', user_agent)]
       custom_headers"

definition h1_line :: "string \<times> string \<Rightarrow> string" where
  "h1_line nv =
    (if fst nv = '':authority'' then ''Host: '' @ snd nv @ crlf
     else if fst nv \<noteq> [] \<and> hd (fst nv) = CHR '':'' then []
     else header_line nv)"

definition h1req_of :: "header_list \<Rightarrow> nat \<Rightarrow> string \<Rightarrow> string result" where
  "h1req_of shared_nva data_length req =
    (case map_of shared_nva '':method'' of
       None \<Rightarrow> Inl Assertion
     | Some m \<Rightarrow> Inr (m @ '' '' @ req @ '' HTTP/1.1'' @ crlf @ concat (map h1_line shared_nva) @
         (if data_length \<noteq> 0 then ''Content-Length: '' @ utos data_length @ crlf else []) @ crlf))"

definition nva_of :: "header_list \<Rightarrow> nat \<Rightarrow> string \<Rightarrow> header_list" where
  "nva_of shared_nva data_length req =
     ('':path'', req) # shared_nva @ (if data_length \<noteq> 0 then [(''content-length'', utos data_length)] else [])"

section \<open>Threads\<close>

definition MAX_SAMPLES :: nat where "MAX_SAMPLES = 100000"

definition MAX_SAMPLES_PER_THREAD :: nat where "MAX_SAMPLES_PER_THREAD = 10000"

record thread_share =
  th_reqs :: nat
  th_clients :: nat
  th_rate :: nat

text \<open>The loop over the threads; the remainders of the three divisions are dealt to the first threads. With a timing script
  each client makes all requests.\<close>

fun deal_out :: "load_config \<Rightarrow> nat \<Rightarrow> nat \<Rightarrow> thread_share \<Rightarrow> thread_share \<Rightarrow> thread_share list" where
  "deal_out conf nreqs 0 per rem = []"
| "deal_out conf nreqs (Suc n) per rem =
     (let rt = (if th_rate rem > 0 then th_rate per + 1 else th_rate per);
          ncl = (if th_clients rem > 0 then th_clients per + 1 else th_clients per);
          nrq = (if timing_script conf then mul64 nreqs ncl
                 else if th_reqs rem > 0 then th_reqs per + 1 else th_reqs per) in
      \<lparr> th_reqs = nrq, th_clients = ncl, th_rate = rt \<rparr> #
        deal_out conf nreqs n per \<lparr> th_reqs = th_reqs rem - 1, th_clients = th_clients rem - 1, th_rate = th_rate rem - 1 \<rparr>)"

definition thread_shares :: "load_config \<Rightarrow> nat \<Rightarrow> nat \<Rightarrow> thread_share list" where
  "thread_shares conf nreqs nthreads =
     deal_out conf nreqs nthreads
       \<lparr> th_reqs = (if timing_script conf then 0 else nreqs div nthreads), th_clients = nclients_opt conf div nthreads,
         th_rate = rate_opt conf div nthreads \<rparr>
       \<lparr> th_reqs = (if timing_script conf then 0 else nreqs mod nthreads), th_clients = nclients_opt conf mod nthreads,
         th_rate = rate_opt conf mod nthreads \<rparr>"

definition max_samples_per_thread :: "nat \<Rightarrow> nat" where
  "max_samples_per_thread nthreads = max MAX_SAMPLES_PER_THREAD (MAX_SAMPLES div nthreads)"

definition create_worker_for :: "load_config \<Rightarrow> nat \<Rightarrow> nat \<Rightarrow> thread_share \<Rightarrow> worker result" where
  "create_worker_for conf max_smp i th =
     init_worker conf i (th_reqs th) (th_clients th) (if is_rate_mode conf then th_rate th else th_clients th) max_smp"

fun create_workers :: "load_config \<Rightarrow> nat \<Rightarrow> nat \<Rightarrow> thread_share list \<Rightarrow> worker list result" where
  "create_workers conf max_smp i [] = Inr []"
| "create_workers conf max_smp i (th # ths) =
     andthen (create_worker_for conf max_smp i th) (\<lambda>k.
     andthen (create_workers conf max_smp (i + 1) ths) (\<lambda>ks. Inr (k # ks)))"

definition launch :: "load_config \<Rightarrow> string list \<Rightarrow> nat \<Rightarrow> nat \<Rightarrow> worker list result" where
  "launch conf reqlines nreqs nthreads =
     andthen (check_options conf reqlines nreqs nthreads) (\<lambda>n.
       create_workers conf (max_samples_per_thread nthreads) 0 (thread_shares conf n nthreads))"

section \<open>The final report\<close>

definition add_stats :: "stats \<Rightarrow> stats \<Rightarrow> stats" where
  "add_stats a s = a \<lparr> req_todo := add64 (req_todo a) (req_todo s), req_started := add64 (req_started a) (req_started s),
     req_done := add64 (req_done a) (req_done s), req_timedout := add64 (req_timedout a) (req_timedout s),
     req_success := add64 (req_success a) (req_success s),
     req_status_success := add64 (req_status_success a) (req_status_success s),
     req_failed := add64 (req_failed a) (req_failed s), req_error := add64 (req_error a) (req_error s),
     bytes_total := bytes_total a + bytes_total s, bytes_head := bytes_head a + bytes_head s,
     bytes_head_decomp := bytes_head_decomp a + bytes_head_decomp s, bytes_body := bytes_body a + bytes_body s,
     status_count := map2 add64 (status_count a) (status_count s) \<rparr>"

text \<open>The requests that were not issued, and the report with them counted as failed.\<close>

definition req_not_issued :: "stats \<Rightarrow> nat" where
  "req_not_issued s = sub64 (sub64 (req_todo s) (req_status_success s)) (req_failed s)"

definition final_report :: "stats list \<Rightarrow> stats" where
  "final_report ss =
    (let s = foldl add_stats (stats_of 0) ss
     in s \<lparr> req_failed := add64 (req_failed s) (req_not_issued s), req_error := add64 (req_error s) (req_not_issued s) \<rparr>)"

section \<open>Shares of the threads\<close>

text \<open>The share of thread \<open>i\<close> of a number dealt out to \<open>n\<close> threads.\<close>

definition part :: "nat \<Rightarrow> nat \<Rightarrow> nat \<Rightarrow> nat" where
  "part whole n i = whole div n + (if i < whole mod n then 1 else 0)"

lemma deal_out_eq:
  assumes "\<not> timing_script conf"
  shows "deal_out conf nreqs n per rem =
    map (\<lambda>i. \<lparr> th_reqs = th_reqs per + (if i < th_reqs rem then 1 else 0), th_clients = th_clients per + (if i < th_clients rem then 1 else 0),
      th_rate = th_rate per + (if i < th_rate rem then 1 else 0) \<rparr>) [0..<n]"
proof (induction n arbitrary: rem)
  case (Suc n)
  have u: "[0..<Suc n] = 0 # map Suc [0..<n]" by (simp add: upt_conv_Cons map_Suc_upt del: upt_Suc)
  have "(i < r - 1) = (Suc i < r)" for i r :: nat by linarith
  then show ?case using assms by (simp add: Suc.IH u Let_def del: upt_Suc)
qed simp

lemma thread_shares_eq:
  "\<not> timing_script conf \<Longrightarrow> thread_shares conf nreqs n =
    map (\<lambda>i. \<lparr> th_reqs = part nreqs n i, th_clients = part (nclients_opt conf) n i, th_rate = part (rate_opt conf) n i \<rparr>) [0..<n]"
  by (simp add: thread_shares_def deal_out_eq part_def)

lemma sum_part: "0 < n \<Longrightarrow> sum_list (map (part whole n) [0..<n]) = whole"
proof -
  assume "0 < n"
  have c: "(\<Sum>i<m. if i < r then 1 else 0) = min r m" for m r :: nat
    by (induction m) (auto simp: min_def)
  have "sum_list (map (part whole n) [0..<n]) = (\<Sum>i<n. whole div n) + (\<Sum>i<n. if i < whole mod n then 1 else 0)"
    by (simp add: part_def interv_sum_list_conv_sum_set_nat atLeast0LessThan sum.distrib)
  also have "\<dots> = whole div n * n + whole mod n"
    using \<open>0 < n\<close> c [where m = n and r = "whole mod n"] by (simp add: min_def less_imp_le)
  finally show ?thesis by simp
qed

lemma part_mono:
  assumes "a \<le> b" "0 < n"
  shows "part a n i \<le> part b n i"
proof (cases "a div n = b div n")
  case True
  with assms(1) have "a mod n \<le> b mod n"
    by (metis add_le_cancel_left div_mult_mod_eq)
  with True show ?thesis by (simp add: part_def)
next
  case False
  with div_le_mono [OF assms(1), of n] show ?thesis by (simp add: part_def)
qed

lemma part_pos: "n \<le> whole \<Longrightarrow> 0 < n \<Longrightarrow> 0 < part whole n i"
  by (simp add: part_def div_greater_zero_iff)

lemma checked:
  assumes "check_options conf reqlines nreqs nthreads = Inr n"
  shows "0 < nthreads" "nthreads \<le> nclients_opt conf" "n = (if is_timing_based_mode conf then 0 else nreqs)"
    "\<not> timing_script conf \<Longrightarrow> \<not> is_timing_based_mode conf \<Longrightarrow> nclients_opt conf \<le> nreqs"
    "is_rate_mode conf \<Longrightarrow> nthreads \<le> rate_opt conf \<and> rate_opt conf \<le> nclients_opt conf"
  using assms by (auto simp: check_options_def Let_def split: if_splits)

text \<open>C14: once the options have been accepted, the threads together get exactly the requests, clients and
  connection rate asked for; every thread gets at least one client, at least one request for each of its
  clients, and with a connection rate a rate that is positive and no greater than its number of clients.\<close>

theorem threads_share_work:
  assumes "check_options conf reqlines nreqs nthreads = Inr n" and "\<not> timing_script conf"
  shows "length (thread_shares conf n nthreads) = nthreads \<and> sum_list (map th_reqs (thread_shares conf n nthreads)) = n \<and>
    sum_list (map th_clients (thread_shares conf n nthreads)) = nclients_opt conf \<and>
    sum_list (map th_rate (thread_shares conf n nthreads)) = rate_opt conf \<and>
    (\<forall>th \<in> set (thread_shares conf n nthreads). 0 < th_clients th \<and> (\<not> is_timing_based_mode conf \<longrightarrow> th_clients th \<le> th_reqs th) \<and>
       (is_rate_mode conf \<longrightarrow> 0 < th_rate th \<and> th_rate th \<le> th_clients th))"
  using checked [OF assms(1)] assms(2)
  by (auto simp: thread_shares_eq comp_def sum_part part_mono part_pos)

theorem threads_share_work_witness:
  "map th_reqs (thread_shares (example_conf \<lparr> nclients_opt := 5 \<rparr>) 7 3) = [3, 2, 2] \<and>
   map th_clients (thread_shares (example_conf \<lparr> nclients_opt := 5 \<rparr>) 7 3) = [2, 2, 1] \<and>
   sum_list (map th_reqs (thread_shares (example_conf \<lparr> nclients_opt := 5 \<rparr>) 7 3)) = 7"
proof -
  have "check_options (example_conf \<lparr> nclients_opt := 5 \<rparr>) [] 7 3 = Inr 7"
    by (simp add: check_options_def example_conf_def is_timing_based_mode_def is_rate_mode_def)
  moreover have "\<not> timing_script (example_conf \<lparr> nclients_opt := 5 \<rparr>)" by (simp add: example_conf_def)
  ultimately have "sum_list (map th_reqs (thread_shares (example_conf \<lparr> nclients_opt := 5 \<rparr>) 7 3)) = 7"
    by (rule threads_share_work [THEN conjunct2, THEN conjunct1])
  moreover have "map th_reqs (thread_shares (example_conf \<lparr> nclients_opt := 5 \<rparr>) 7 3) = [3, 2, 2]"
    "map th_clients (thread_shares (example_conf \<lparr> nclients_opt := 5 \<rparr>) 7 3) = [2, 2, 1]" by code_simp+
  ultimately show ?thesis by blast
qed

section \<open>The report accounts for every request\<close>

text \<open>In a test with a given number of requests, \<open>req_todo\<close> of a worker stays what it was: clients that have finished are
  not in the list whose members add to it.\<close>

definition todo_kept :: "load_config \<Rightarrow> nat \<Rightarrow> world \<Rightarrow> bool" where
  "todo_kept conf todo w \<longleftrightarrow> is_timing_based_mode conf \<or> w_clients (wk w) = [] \<and> req_todo (w_stats (wk w)) = todo"

lemma todo_calm: "calm_worker (wk w) (wk w') \<Longrightarrow> todo_kept conf todo w' = todo_kept conf todo w"
  by (simp add: todo_kept_def calm_worker_def tallies_def)

lemma todo_quiet: "quiet w w' \<Longrightarrow> todo_kept conf todo w' = todo_kept conf todo w"
  by (rule todo_calm) (simp add: quiet_def)

lemma todo_upd [simp]: "todo_kept conf todo (upd i f w) = todo_kept conf todo w"
  "(\<And>s. req_todo (g s) = req_todo s) \<Longrightarrow> todo_kept conf todo (upd_stats g w) = todo_kept conf todo w"
  "todo_kept conf todo (count_scenario m n g w) = todo_kept conf todo w"
  by (simp_all add: todo_kept_def count_scenario_def)

lemma req_todo_counts [simp]: "req_todo (count_close b g s) = req_todo s" "req_todo (count_started s) = req_todo s"
  "req_todo (count_abandoned n s) = req_todo s"
  by (simp_all add: count_close_def count_started_def count_abandoned_def Let_def)

lemma todo_streams [simp]: "todo_kept conf todo (upd_stream s f i w) = todo_kept conf todo w"
  "todo_kept conf todo (sample_request env rs w) = todo_kept conf todo w"
  by (simp add: todo_kept_def, rule todo_calm) (simp add: calm_worker_def)

lemma todo_close:
  assumes "count_stream_close conf env s b i w = Inr (True, w')" "omap_find int_less (streams (cl w i)) s = Some x"
  shows "todo_kept conf todo w' = todo_kept conf todo w \<and> n_created w' = n_created w"
  using assms
proof (rule close_cases)
  fix v
  assume v: "v = upd i (\<lambda>c. c \<lparr> req_inflight := req_inflight c - 1,
             rps_req_inflight := (if rps_mode conf then rps_req_inflight c - 1 else rps_req_inflight c) \<rparr>) w"
    and x: "omap_find int_less (streams (cl v i)) s = Some x"
    and e: "statistics_eligible x \<and> count_eligible_close env s x b (omap_find int_less (requests_awaiting_response (cl v i)) s) i v = Inr w' \<or>
       \<not> statistics_eligible x \<and> w' = v"
  have "todo_kept conf todo w' = todo_kept conf todo v"
    if c: "count_eligible_close env s x b (omap_find int_less (requests_awaiting_response (cl v i)) s) i v = Inr w'"
    using c by (rule eligible_close_cases) (cases b; auto)
  with e v eligible_close_effect(1) [OF _ x] show ?thesis by auto
qed simp

interpretation todo: world_invariant conf env "\<lambda>_ _. True" "todo_kept conf todo" for conf env todo
proof unfold_locales
  let ?K = "keeps (todo_kept conf todo)"
  fix n w w1 w2 i j s b m and rv :: int and r a
  show "?K n w w1 \<Longrightarrow> ?K n w1 w2 \<Longrightarrow> ?K n w w2" by (auto simp: keeps_def)
  show "quiet w w1 \<Longrightarrow> ?K n w w1" by (simp add: keeps_def todo_quiet grows_quiet)
  have d: "todo_kept conf todo (disconnect env i v) = todo_kept conf todo v" "n_created (disconnect env i v) = n_created v" for v
    using todo_calm disconnect_effect(1) disconnect_effect(2) by blast+
  then show "?K n w (disconnect env i w)" by (simp add: keeps_def)
  have a: "todo_kept conf todo v \<Longrightarrow> todo_kept conf todo (process_abandoned_streams conf i v)"
    "n_created (process_abandoned_streams conf i v) = n_created v" for v
    by (auto simp: abandoned_effect todo_kept_def)
  then show "?K n w (process_abandoned_streams conf i w)" by (simp add: keeps_def)
  show "?K n w (abandon_open i w)" by (auto simp: keeps_def abandon_open_def)
  obtain v where "quiet w v" "process_timedout_streams conf env i w = process_abandoned_streams conf i v"
    using timedout_effect by blast
  then show "?K n w (disconnect env i (process_timedout_streams conf env i w))"
    by (simp add: keeps_def d a todo_quiet grows_quiet)
  show "?K n w (enter_warm_up w)" by (simp add: keeps_def enter_warm_up_def todo_kept_def)
  show "?K n w (enter_connection env i w)"
    using todo_calm [OF enter_connection_effect(1)] by (simp add: keeps_def enter_connection_effect(2))
  show "find_or_create_of_controller conf env r i w = Inr (j, w1) \<Longrightarrow> ?K n w w1"
    by (auto simp: keeps_def todo_quiet grows_quiet check_in_client_def new_client_effect
        dest!: another_effect) (auto simp: todo_kept_def new_client_effect calm_worker_def tallies_def)
  show "session_submit_request conf env i w = Inr (rv, w1) \<Longrightarrow> rv \<noteq> 0 \<Longrightarrow> process_request_failure conf rv i w1 = Inr w2 \<Longrightarrow> ?K n w w2"
    by (auto simp: keeps_def todo_quiet grows_quiet split: if_splits dest!: session_submit_cases request_failure_effect)
  have o: "todo_kept conf todo u' = todo_kept conf todo u" "n_created u' = n_created u" if "opened env l u u'" for u u' l
    using that todo_calm by (auto simp: opened_def)
  show "session_submit_request conf env i w = Inr (0, w1) \<Longrightarrow> ?K n w w1"
    by (auto simp: keeps_def o dest!: session_submit_cases)
  show "session_submit_request conf env j w = Inr (0, w1) \<Longrightarrow> quiet w1 w2 \<Longrightarrow> ?K n w (count_submitted conf m l i w2)" for l
    by (auto simp: keeps_def o todo_quiet grows_quiet count_submitted_def dest!: session_submit_cases)
  show "Some i \<in> set (w_clients (wk w)) \<Longrightarrow> ?K n w (resign i w)"
    by (auto simp: keeps_def resign_def todo_kept_def)
  show "?K n w (final_cleanup env i w)"
    using todo_calm [OF final_cleanup_effect(1)] by (simp add: keeps_def final_cleanup_effect(2))
  show "count_stream_close conf env s b i w = Inr (True, w1) \<Longrightarrow> omap_find int_less (streams (cl w i)) s \<noteq> None \<Longrightarrow>
      quiet w1 w2 \<Longrightarrow> ?K n w (erase_stream s i w2)"
    by (auto simp: keeps_def erase_stream_def todo_quiet grows_quiet dest: todo_close)
  show "todo_kept conf todo w \<Longrightarrow> create_with_share conf env w = Inr (i, w1) \<Longrightarrow> todo_kept conf todo w1"
    by (drule create_worker) (simp add: todo_kept_def next_share_def split: if_splits)
  show "todo_kept conf todo w \<Longrightarrow> warmup_timeout_handler env (upd_worker (\<lambda>k. k \<lparr> warmup_timer := False \<rparr>) w) = Inr w1 \<Longrightarrow> todo_kept conf todo w1"
    by (auto elim!: warmup_effect dest!: todo_quiet) (auto simp: todo_kept_def)
  show "todo_kept conf todo w \<Longrightarrow> duration_timeout_handler conf (upd_worker (\<lambda>k. k \<lparr> duration_timer := False \<rparr>) w) = Inr w1 \<Longrightarrow> todo_kept conf todo w1"
    by (auto elim!: duration_effect dest!: todo_quiet) (auto simp: todo_kept_def)
qed (auto simp: todo_kept_def check_in_client_def)

lemma int_add64: "int (add64 a b) = (int a + int b) mod 2 ^ 64"
  by (simp add: add64_def u64_def zmod_int)

lemma int_sub64: "int (sub64 a b) = (int a - int b) mod 2 ^ 64"
proof -
  have "int (sub64 a b) = (int a + (2 ^ 64 - int b mod 2 ^ 64)) mod 2 ^ 64"
    by (simp add: sub64_def u64_def zmod_int of_nat_diff mod_le_divisor add_diff_eq)
  also have "\<dots> = (int a - int b mod 2 ^ 64 + 2 ^ 64) mod 2 ^ 64" by (simp add: algebra_simps)
  also have "\<dots> = (int a - int b) mod 2 ^ 64" by (simp add: mod_diff_right_eq)
  finally show ?thesis .
qed

lemma add_stats_sum:
  assumes "\<And>a s. f (add_stats a s) = add64 (f a) (f s)" "f (stats_of 0) = 0"
  shows "int (f (foldl add_stats (stats_of 0) ss)) = sum_list (map (\<lambda>s. int (f s)) ss) mod 2 ^ 64"
proof (induction ss rule: rev_induct)
  case (snoc s ss)
  then show ?case by (simp add: assms(1) int_add64 mod_add_left_eq)
qed (simp add: assms(2))

text \<open>The requests a worker has not settled: open, left at a client, or not yet handed to one.\<close>

definition outstanding :: "world \<Rightarrow> nat" where
  "outstanding w = (\<Sum>i < n_created w. req_inflight (cl w i) + req_left (cl w i)) +
     (nclients (wk w) - n_created w) * nreqs_per_client (wk w) + nreqs_rem (wk w)"

lemma worker_accounts:
  assumes "init_worker conf wid todo n rt m = Inr k" "n \<le> todo" "todo < 2 ^ 64" "plain_conf conf env"
    and "reachable conf env (init_world conf k) w"
  shows "req_todo (w_stats (wk w)) = todo"
    "(2 ^ 64 :: int) dvd int (req_todo (w_stats (wk w))) - int (req_status_success (w_stats (wk w))) - int (req_failed (w_stats (wk w))) - int (outstanding w)"
proof -
  have n: "n < 2 ^ 64" using assms(2,3) by simp
  have "todo_kept conf todo (init_world conf k)"
    using assms(1) by (auto simp: todo_kept_def init_worker_def init_world_def stats_of_def split: if_splits)
  from todo.reachable_I [OF assms(5) this init_worker_start [OF assms(1) n]] assms(4)
  show t: "req_todo (w_stats (wk w)) = todo" by (simp add: todo_kept_def plain_conf_def)
  from balance.reachable_I [OF assms(5) init_balanced [OF assms(1,4,2)] init_worker_start [OF assms(1) n]]
  have "due w mod 2 ^ 64 = todo mod 2 ^ 64" by (simp add: balanced_def)
  from arg_cong [OF this, of int] have "int todo mod 2 ^ 64 = int (due w) mod 2 ^ 64" by (simp add: zmod_int)
  then have "(2 ^ 64 :: int) dvd int todo - int (due w)" by (simp only: mod_eq_dvd_iff)
  moreover from consistent.reachable_I [OF assms(5) init_consistent [OF assms(1)] init_worker_start [OF assms(1) n]]
  have "settled (w_stats (wk w)) = req_status_success (w_stats (wk w)) + req_failed (w_stats (wk w))"
    by (simp add: consistent_def stats_ok_def settled_def)
  moreover have "due w = settled (w_stats (wk w)) + outstanding w" by (simp add: due_def debt_def outstanding_def)
  ultimately have "(2 ^ 64 :: int) dvd int todo - (int (req_status_success (w_stats (wk w))) + int (req_failed (w_stats (wk w))) + int (outstanding w))"
    by simp
  then show "(2 ^ 64 :: int) dvd int (req_todo (w_stats (wk w))) - int (req_status_success (w_stats (wk w))) - int (req_failed (w_stats (wk w))) - int (outstanding w)"
    by (simp only: t diff_diff_eq add.assoc)
qed

lemma create_workers_nth:
  "create_workers conf m i ths = Inr ks \<Longrightarrow> length ks = length ths \<and> (\<forall>t < length ths. create_worker_for conf m (i + t) (ths ! t) = Inr (ks ! t))"
proof (induction ths arbitrary: i ks)
  case (Cons th ths)
  then obtain k ks' where k: "create_worker_for conf m i th = Inr k" "create_workers conf m (i + 1) ths = Inr ks'" "ks = k # ks'" by auto
  from Cons.IH [OF k(2)] have "create_worker_for conf m (i + t) ((th # ths) ! t) = Inr (ks ! t)" if "t < Suc (length ths)" for t
    using k that by (cases t) simp_all
  with Cons.IH [OF k(2)] k(3) show ?case by simp
qed simp

lemma int_sum: "int (sum_list (map f xs)) = sum_list (map (\<lambda>x. int (f x)) xs)"
  by (induction xs) simp_all

text \<open>What the statistics of the workers of a launched test add up to.\<close>

lemma launched_workers:
  assumes "launch conf reqlines nreqs nthreads = Inr ks" "\<not> timing_script conf" "nreqs < 2 ^ 64" "length ws = nthreads"
    and "\<And>t. t < nthreads \<Longrightarrow> plain_conf conf (env t) \<and> reachable conf (env t) (init_world conf (ks ! t)) (ws ! t)"
  shows "sum_list (map (\<lambda>w. int (req_todo (w_stats (wk w)))) ws) = int nreqs"
    "w \<in> set ws \<Longrightarrow> (2 ^ 64 :: int) dvd int (req_todo (w_stats (wk w))) - int (req_status_success (w_stats (wk w))) -
       int (req_failed (w_stats (wk w))) - int (outstanding w)"
proof -
  obtain n where n: "check_options conf reqlines nreqs nthreads = Inr n"
    "create_workers conf (max_samples_per_thread nthreads) 0 (thread_shares conf n nthreads) = Inr ks"
    using assms(1) by (auto simp: launch_def)
  note c = checked [OF n(1)]
  have nt: "\<not> is_timing_based_mode conf" using assms(5) [OF c(1)] by (simp add: plain_conf_def)
  then have nn: "n = nreqs" "nclients_opt conf \<le> nreqs" using c assms(2) by simp_all
  note ths = thread_shares_eq [OF assms(2), of n nthreads]
  have w: "init_worker conf t (part n nthreads t) (part (nclients_opt conf) nthreads t)
      (if is_rate_mode conf then part (rate_opt conf) nthreads t else part (nclients_opt conf) nthreads t) (max_samples_per_thread nthreads) = Inr (ks ! t)"
    if "t < nthreads" for t
    using create_workers_nth [OF n(2)] that by (cases "is_rate_mode conf") (simp_all add: ths create_worker_for_def)
  have le: "part n nthreads t \<le> n" if "t < nthreads" for t
    using member_le_sum_list [of "part n nthreads t" "map (part n nthreads) [0..<nthreads]"] that c(1) by (simp add: sum_part)
  have a: "req_todo (w_stats (wk (ws ! t))) = part n nthreads t"
    "(2 ^ 64 :: int) dvd int (req_todo (w_stats (wk (ws ! t)))) - int (req_status_success (w_stats (wk (ws ! t)))) -
       int (req_failed (w_stats (wk (ws ! t)))) - int (outstanding (ws ! t))" if t: "t < nthreads" for t
    using worker_accounts [OF w [OF t] part_mono _ conjunct1 [OF assms(5) [OF t]] conjunct2 [OF assms(5) [OF t]]] nn le [OF t] assms(3) c(1)
    by simp_all
  have "map (\<lambda>w. int (req_todo (w_stats (wk w)))) ws = map (\<lambda>t. int (part n nthreads t)) [0..<nthreads]"
    using a(1) assms(4) by (intro nth_equalityI) simp_all
  moreover have "sum_list (map (\<lambda>t. int (part n nthreads t)) [0..<nthreads]) = int (sum_list (map (part n nthreads) [0..<nthreads]))"
    by (simp only: int_sum)
  ultimately show "sum_list (map (\<lambda>w. int (req_todo (w_stats (wk w)))) ws) = int nreqs" using c(1) nn(1) by (simp add: sum_part)
  assume "w \<in> set ws"
  then obtain t where "t < nthreads" "w = ws ! t" using assms(4) by (auto simp: in_set_conv_nth)
  with a(2) show "(2 ^ 64 :: int) dvd int (req_todo (w_stats (wk w))) - int (req_status_success (w_stats (wk w))) -
       int (req_failed (w_stats (wk w))) - int (outstanding w)" by simp
qed

lemma merged_sums:
  defines "m ws \<equiv> foldl add_stats (stats_of 0) (map (\<lambda>w. w_stats (wk w)) ws)"
  shows "int (req_todo (m ws)) = sum_list (map (\<lambda>w. int (req_todo (w_stats (wk w)))) ws) mod 2 ^ 64"
    "int (req_status_success (m ws)) = sum_list (map (\<lambda>w. int (req_status_success (w_stats (wk w)))) ws) mod 2 ^ 64"
    "int (req_failed (m ws)) = sum_list (map (\<lambda>w. int (req_failed (w_stats (wk w)))) ws) mod 2 ^ 64"
  unfolding m_def by (subst add_stats_sum; simp add: add_stats_def stats_of_def comp_def)+

lemma dvd_differences:
  fixes d :: int
  assumes "\<And>w. w \<in> set ws \<Longrightarrow> d dvd f w - g w - h w - e w"
  shows "d dvd sum_list (map f ws) - sum_list (map g ws) - sum_list (map h ws) - sum_list (map e ws)"
  using assms
proof (induction ws)
  case (Cons w ws)
  have "sum_list (map f (w # ws)) - sum_list (map g (w # ws)) - sum_list (map h (w # ws)) - sum_list (map e (w # ws)) =
      (f w - g w - h w - e w) + (sum_list (map f ws) - sum_list (map g ws) - sum_list (map h ws) - sum_list (map e ws))"
    by simp
  with Cons show ?case by (simp only: dvd_add list.set_intros)
qed simp


lemma example_launch:
  assumes "init_worker example_conf 0 2 1 1 100000 = Inr k"
  shows "launch example_conf [] 2 1 = Inr [k]"
proof -
  have f: "nclients_opt example_conf = 1" "rate_opt example_conf = 0" "\<not> timing_script example_conf" "host_opt example_conf \<noteq> []"
    "scheme_opt example_conf \<noteq> []" "max_concurrent_streams_opt example_conf = 2" "\<not> is_timing_based_mode example_conf" "\<not> is_rate_mode example_conf"
    by (simp_all add: example_conf_def is_timing_based_mode_def is_rate_mode_def)
  have "thread_shares example_conf 2 1 = [\<lparr> th_reqs = 2, th_clients = 1, th_rate = 0 \<rparr>]"
    by (simp add: thread_shares_eq f part_def)
  with f assms show ?thesis
    by (simp add: launch_def check_options_def create_worker_for_def max_samples_per_thread_def MAX_SAMPLES_def MAX_SAMPLES_PER_THREAD_def)
qed


end
