(* ===== verification/Spec2Isabelle.thy ===== *)
theory Spec2Isabelle
  imports Cookies Variables Schedule Server Config Requests Launch
begin

text \<open>
  Verification development of h2loadrunner, an HTTP load generator (\<^verbatim>\<open>h2loadrunner\<close>) with a mock server
  (\<^verbatim>\<open>maock\<close>). All file names are relative to \<^verbatim>\<open>src/\<close>.

  \<^bold>\<open>The program.\<close> The main program (\<^verbatim>\<open>h2load.cc\<close>) checks the options, prepares the scenarios of
  the JSON configuration (\<^verbatim>\<open>h2load_utils.cc\<close>, \<^verbatim>\<open>config_schema.h\<close>), deals clients and requests out to threads and starts one
  worker per thread (\<^verbatim>\<open>base_worker.cc\<close>). A worker creates clients (\<^verbatim>\<open>base_client.cc\<close> for the logic,
  \<^verbatim>\<open>asio_client_connection.cc\<close> for the connection); each client chooses scenarios, prepares requests for its simulated users, submits
  them to an HTTP session (\<^verbatim>\<open>h2load_http1_session.cc\<close>, \<^verbatim>\<open>h2load_http2_session.cc\<close>), takes the responses, counts
  them and prepares the request that follows. The mock server (\<^verbatim>\<open>H2Server*.h\<close>) finds the service
  that matches a request and fills the template of its response.

  \<^bold>\<open>Conventions.\<close> Definitions follow the functions of the source, in its names. An operation that may
  end the process, violate an assertion or read outside its data returns \<^typ>\<open>failure + 'a\<close>
  (\<open>Inl\<close> the failure). State is passed explicitly. Counters and sizes are natural numbers, with
  the 64 bit operations \<open>add64\<close>, \<open>sub64\<close>, \<open>mul64\<close> where wrap-around matters; strings are character
  lists; \<^verbatim>\<open>std::map\<close> is an association list in the order of its comparator. Code outside the
  repository (RapidJSON, Lua, the URL parser, nghttp2, llhttp, Boost.Asio, the clock, random numbers) is a parameter: the records
  \<open>json_env\<close>, \<open>match_env\<close>, \<open>config_env\<close>, \<open>request_env\<close> and \<open>client_env\<close>, each extending what
  it needs of the others, and the events of a run.

  \<^bold>\<open>Foundations.\<close>
  \<^item> \<open>Prelude\<close>: results, string operations, number printing, 64 bit arithmetic, and the shared lemmas.
  \<^item> \<open>Tokens\<close>: \<^verbatim>\<open>tokenize_string\<close>, with the laws of splitting and joining.
  \<^item> \<open>Ordered_Map\<close>: ordered containers; the locale \<open>comparator\<close> holds the laws, interpreted for every comparator
    of the program.

  \<^bold>\<open>Load generator, data.\<close>
  \<^item> \<open>Cookies\<close> (\<^verbatim>\<open>h2load_Cookie.cc\<close>): parsing, acceptance, sending; the jar invariant, the round trip of the \<^verbatim>\<open>Cookie\<close>
    header, and the sending test as a declarative rule.
  \<^item> \<open>Variables\<close> (\<^verbatim>\<open>config_schema.h\<close>, \<^verbatim>\<open>h2load_utils.cc\<close>): user variables, templates, cursors, CSV files;
    substitution, cycling of cursors, the round trip of range values, and when a CSV file loads.
  \<^item> \<open>Schedule\<close> (\<^verbatim>\<open>get_index_of_next_scenario_to_run\<close>, \<^verbatim>\<open>find_common_multiple\<close>, \<^verbatim>\<open>process_delayed_scenario\<close>): requests are
    issued in the ratio of the scenarios' weights.
  \<^item> \<open>Config\<close> (\<^verbatim>\<open>process_variables\<close>, \<^verbatim>\<open>post_process_json_config_schema\<close>, \<^verbatim>\<open>slice_var_ids\<close>): prepared templates are well
    formed, slices partition a variable's range.
  \<^item> \<open>Requests\<close> (\<^verbatim>\<open>prepare_first_request\<close>, \<^verbatim>\<open>prepare_next_request\<close> and their helpers): requests
    follow in order, queued requests are complete, and the strings of a request fit the room reserved for them.
  \<^item> \<open>Stats\<close> (\<^verbatim>\<open>h2load_stats.h\<close>, \<^verbatim>\<open>base_worker.cc\<close>): counters, phases, reservoir sampling.

  \<^bold>\<open>Load generator, runs.\<close>
  \<^item> \<open>Client_State\<close>, \<open>Client\<close> (\<^verbatim>\<open>base_client.cc\<close>, \<^verbatim>\<open>asio_client_connection.cc\<close>): the state of clients and
    worker (record \<open>world\<close>, clients by number, so that they can refer to each other) and the handlers of connections,
    requests and responses. \<open>env n\<close> is what the outside answers the \<open>n\<close>-th time it is asked.
  \<^item> \<open>Worker\<close> (\<^verbatim>\<open>base_worker.cc\<close>, timer handlers of \<^verbatim>\<open>asio_client_connection.cc\<close>): start of a run, phases, the events of the loop, and
    \<open>reachable\<close>, the worlds a run goes through.
  \<^item> \<open>Runs\<close>, \<open>Invariants\<close>: the locales \<open>event_relation\<close> and \<open>world_invariant\<close>. What is kept by the few steps that
    count something, and by everything quiet, holds in every reachable world.
  \<^item> \<open>Accounting\<close>, \<open>Balance\<close>, \<open>Launch\<close>: interpretations (statistics agree, phases, bounded streams, each request accounted once,
    \<^verbatim>\<open>req_todo\<close> kept).
  \<^item> \<open>Example\<close>, \<open>Whole_Runs\<close>: a concrete test, and the theorems on runs from the state the constructor leaves;
    what a change of host forgets.
  \<^item> \<open>Output_Buffer\<close> (\<^verbatim>\<open>push_data_to_output_buffer\<close>, \<^verbatim>\<open>common_write\<close>, \<^verbatim>\<open>handle_write_complete\<close>): the two buffers of a
    connection, with their memory, refine a queue of bytes and drain.
  \<^item> \<open>Sessions\<close> (\<^verbatim>\<open>h2load_http1_session.cc\<close>, the body callbacks of \<^verbatim>\<open>h2load_http2_session.cc\<close>, \<^verbatim>\<open>handle_write_signal\<close>): the locale
    \<open>session_output\<close> shows that the write loop ends; interpreted for both kinds of HTTP/1.1 bodies.
  \<^item> \<open>Launch\<close> (\<^verbatim>\<open>h2load.cc\<close>): options, shares of the threads, final report.

  \<^bold>\<open>Mock server.\<close>
  \<^item> \<open>Json\<close>, \<open>Matching\<close>, \<open>Responses\<close>, \<open>Server\<close> (\<^verbatim>\<open>H2Server_Response.h\<close>, \<^verbatim>\<open>H2Server_Request.h\<close>, \<^verbatim>\<open>H2Server.h\<close>): JSON
    pointers, match rules with their result cache, response templates and throttling, the table of services; the server
    selects the greatest matching service, responses are chosen by weight, placeholders are filled.

  \<^bold>\<open>Bounds.\<close> All recursions are total; the one loop that could run for ever (\<open>write_loop\<close>) is a partial function whose
  end is proved. No fuel is used. The theorem that every request is accounted for excludes reconnecting, connections for
  other authorities and exhausted stream ids (\<open>plain_conf\<close>), which it does not cover: the code counts requests as failed there
  that it sends again, and \<open>Whole_Runs\<close> shows requests that a change of host leaves uncounted.

  \<^bold>\<open>Not modelled.\<close> Sockets, TLS and name resolution (calls of Boost.Asio and OpenSSL; their outcomes are events); the
  HTTP/2 framing (nghttp2) and HTTP/1.1 parsing (llhttp); the connection handlers of the mock server
  (\<^verbatim>\<open>asio_server*.cc\<close>), which are I/O around the table of services; the Lua bindings (\<^verbatim>\<open>h2load_lua.cc\<close>,
  \<^verbatim>\<open>common_lua.cc\<close>), stack manipulation of the Lua C interface; the libev variant of client and worker; option
  parsing with getopt, progress printing, log files and the statistics of times (floating point); general helpers
  (\<^verbatim>\<open>http2.cc\<close>, \<^verbatim>\<open>util.cc\<close>, \<^verbatim>\<open>memchunk.h\<close>, \<^verbatim>\<open>base64.h\<close>) beyond the functions the modelled code calls. The clients of the HTTP/1.1
  session are the HTTP/2 clients of \<open>Client\<close> as far as they keep streams and requests; their reaction to a closed stream
  is a parameter of the session.
\<close>

end
